(* ===== verification/Prelude.thy ===== *)
theory Prelude
  imports Main "HOL-Library.Word"
begin

text \<open>
  Shared vocabulary of the CasseOS development.

  \<^item> Machine integers: the kernel is built for x86-64 (\<^verbatim>\<open>-m64\<close> in the Makefile), so
    \<open>uint8_t\<close> to \<open>uint64_t\<close> are words of 8 to 64 bits, \<open>size_t\<close> and \<open>uintptr_t\<close> are 64 bit,
    and plain \<open>char\<close> is a signed byte.  A C \<open>int\<close> whose overflow would be undefined is
    an unbounded \<open>int\<close>; the theorems that need it bound its range.
  \<^item> Byte memory: a C array that is written through a pointer is a function from offsets to
    bytes.  "The rest of memory is unchanged" is then an equation, and a write past the end of
    an array is visible as a change at an offset the array does not own.
  \<^item> NUL-terminated strings: \<open>cstring m xs\<close> says that the memory \<open>m\<close> holds the bytes \<open>xs\<close>
    followed by the terminator.
  \<^item> C division and remainder, which truncate towards zero.
\<close>

unbundle bit_operations_syntax

section \<open>Machine integers\<close>

type_synonym u8 = "8 word"
type_synonym u16 = "16 word"
type_synonym u32 = "32 word"
type_synonym u64 = "64 word"
type_synonym bytemem = "nat \<Rightarrow> u8"

named_theorems word_bounds
named_theorems c_arith

lemma unat_u8_less [simp, word_bounds]: "unat (x :: u8) < 256"
  using unsigned_less [of x, where ?'a = nat] by simp

lemma unat_u16_less [simp, word_bounds]: "unat (x :: u16) < 65536"
  using unsigned_less [of x, where ?'a = nat] by simp

lemma unat_u32_less [simp, word_bounds]: "unat (x :: u32) < 4294967296"
  using unsigned_less [of x, where ?'a = nat] by simp

lemma unat_u64_less [simp, word_bounds]: "unat (x :: u64) < 18446744073709551616"
  using unsigned_less [of x, where ?'a = nat] by simp

lemma unat_add_nowrap:
  fixes x y :: "'a::len word"
  assumes "unat x + unat y < 2 ^ LENGTH('a)"
  shows "unat (x + y) = unat x + unat y"
  using assms by (simp add: unat_word_ariths)

lemma unat_add_wrap:
  fixes x y :: "'a::len word"
  assumes "2 ^ LENGTH('a) \<le> unat x + unat y"
  shows "unat (x + y) = unat x + unat y - 2 ^ LENGTH('a)" and "unat (x + y) < unat x"
proof -
  have b: "unat x < 2 ^ LENGTH('a)" "unat y < 2 ^ LENGTH('a)" by (rule unsigned_less)+
  have "unat (x + y) = (unat x + unat y) mod 2 ^ LENGTH('a)" by (rule unat_word_ariths)
  also have "\<dots> = (unat x + unat y - 2 ^ LENGTH('a)) mod 2 ^ LENGTH('a)" using assms by (rule le_mod_geq)
  also have "\<dots> = unat x + unat y - 2 ^ LENGTH('a)" using b by (intro mod_less) linarith
  finally show "unat (x + y) = unat x + unat y - 2 ^ LENGTH('a)" .
  then show "unat (x + y) < unat x" using b assms by linarith
qed

lemma unat_of_nat_less:
  assumes "n < 2 ^ LENGTH('a::len)"
  shows "unat (of_nat n :: 'a word) = n"
  using assms by (simp add: unat_of_nat)

lemma unat_add_le:
  fixes x y z :: "'a::len word"
  assumes "unat x + unat y \<le> unat z"
  shows "unat (x + y) = unat x + unat y"
  using assms by (intro unat_add_nowrap) (rule le_less_trans [OF _ unsigned_less])

lemma unat_mult_nowrap:
  fixes x y :: "'a::len word"
  assumes "unat x * unat y < 2 ^ LENGTH('a)"
  shows "unat (x * y) = unat x * unat y"
  using assms by (simp add: unat_word_ariths)

lemma unat_mult_le:
  fixes x y z :: "'a::len word"
  assumes "unat x * unat y \<le> unat z"
  shows "unat (x * y) = unat x * unat y"
  using assms by (intro unat_mult_nowrap) (rule le_less_trans [OF _ unsigned_less])

lemma unat_diff_le:
  fixes x y :: "'a::len word"
  assumes "y \<le> x"
  shows "unat (x - y) = unat x - unat y"
  using assms by (rule unat_sub)

lemma unat_two_power:
  assumes "n < LENGTH('a::len)"
  shows "unat (2 ^ n :: 'a word) = 2 ^ n"
proof -
  have "unat (of_nat (2 ^ n) :: 'a word) = 2 ^ n mod 2 ^ LENGTH('a)"
    by (rule unat_of_nat)
  then show ?thesis using assms by (simp add: power_strict_increasing)
qed

lemma unat_drop_bit:
  fixes v :: "'a::len word"
  shows "unat (drop_bit n v) = unat v div 2 ^ n"
  by (simp only: unat_drop_bit_eq drop_bit_eq_div [of n "unat v"])

lemma unat_drop_bit_less:
  fixes v :: "'a::len word"
  assumes "v \<noteq> 0" and "0 < n"
  shows "unat (drop_bit n v) < unat v"
proof -
  have "0 < unat v" using assms(1) by (simp add: unat_gt_0)
  moreover have "1 < (2 :: nat) ^ n" using assms(2) by (intro one_less_power) simp_all
  ultimately have "unat v div 2 ^ n < unat v" by (simp add: div_less_dividend)
  then show ?thesis by (simp add: unat_drop_bit)
qed

lemma unat_and_mask:
  fixes v :: "'a::len word"
  shows "unat (v AND mask n) = unat v mod 2 ^ n"
  by (simp add: unsigned_take_bit_eq take_bit_eq_mod [of n "unat v"] flip: take_bit_eq_mask)

lemma sint_eq_0_iff [simp]: "sint (w :: 'a::len word) = 0 \<longleftrightarrow> w = 0"
  using word_eq_iff_signed [of w 0, where ?'a = int] by simp

lemma ucast_u8_u32 [simp]: "ucast (ucast (x :: u8) :: u32) = x"
  by (rule bit_word_eqI) (auto simp: bit_ucast_iff)

lemma ucast_u8_u16 [simp]: "ucast (ucast (x :: u8) :: u16) = x"
  by (rule bit_word_eqI) (auto simp: bit_ucast_iff)

lemma ucast_u16_u32 [simp]: "ucast (ucast (x :: u16) :: u32) = x"
  by (rule bit_word_eqI) (auto simp: bit_ucast_iff)

lemma unat_ucast_up:
  fixes x :: "'a::len word"
  assumes "LENGTH('a) \<le> LENGTH('b::len)"
  shows "unat (ucast x :: 'b word) = unat x"
proof -
  have "unat x < 2 ^ LENGTH('b)"
    using unsigned_less [of x, where ?'a = nat] assms
    by (meson less_le_trans one_le_numeral power_increasing)
  then show ?thesis by (simp add: unsigned_ucast_eq take_bit_nat_eq_self)
qed

lemma unat_ucast_u8 [simp]:
  "unat (ucast (x :: u8) :: u16) = unat x" "unat (ucast (x :: u8) :: u32) = unat x"
  "unat (ucast (x :: u8) :: u64) = unat x"
  by (simp_all add: unat_ucast_up)

lemma unat_ucast_u16 [simp]:
  "unat (ucast (x :: u16) :: u32) = unat x" "unat (ucast (x :: u16) :: u64) = unat x"
  by (simp_all add: unat_ucast_up)

lemma unat_ucast_u32 [simp]: "unat (ucast (x :: u32) :: u64) = unat x"
  by (simp add: unat_ucast_up)

text \<open>A mask test \<open>x & (1 << n)\<close> of the C sources is a question about bit \<open>n\<close>.\<close>

lemma and_bit_eq_0_iff:
  fixes x :: "'a::len word"
  shows "x AND push_bit n 1 = 0 \<longleftrightarrow> \<not> bit x n"
proof -
  have "x AND push_bit n 1 = of_bool (bit x n) * push_bit n 1"
    by (rule bit_word_eqI) (auto simp: bit_simps)
  then show ?thesis
    by (auto simp: bit_eq_iff bit_simps dest: bit_imp_le_length)
qed

lemma and_power_eq_0_iff [simp]:
  fixes x :: "'a::len word"
  shows "x AND 2 ^ n = 0 \<longleftrightarrow> \<not> bit x n"
  using and_bit_eq_0_iff [of x n] by (simp add: push_bit_eq_mult)

lemma bit_unat_digit:
  fixes v :: "'a::len word"
  shows "bit v j \<longleftrightarrow> unat v div 2 ^ j mod 2 = 1"
proof -
  have "bit v j \<longleftrightarrow> bit (unat v) j" by (simp add: bit_unsigned_iff bit_imp_le_length iff_conv_conj_imp)
  then show ?thesis by (simp add: bit_iff_odd [of "unat v"] odd_iff_mod_2_eq_one)
qed

section \<open>C division\<close>

text \<open>Signed \<open>/\<close> and \<open>%\<close> of C round towards zero.\<close>

definition cdiv :: "int \<Rightarrow> int \<Rightarrow> int" where
  "cdiv a b = (if (a < 0) = (b < 0) then \<bar>a\<bar> div \<bar>b\<bar> else - (\<bar>a\<bar> div \<bar>b\<bar>))"

definition cmod :: "int \<Rightarrow> int \<Rightarrow> int" where
  "cmod a b = a - cdiv a b * b"

lemma cdiv_nonneg [c_arith]: "0 \<le> a \<Longrightarrow> 0 < b \<Longrightarrow> cdiv a b = a div b"
  by (simp add: cdiv_def)

lemma cmod_nonneg [c_arith]: "0 \<le> a \<Longrightarrow> 0 < b \<Longrightarrow> cmod a b = a mod b"
  by (simp add: cmod_def cdiv_nonneg minus_div_mult_eq_mod)

section \<open>Byte memory and C strings\<close>

definition cstring :: "bytemem \<Rightarrow> u8 list \<Rightarrow> bool" where
  "cstring m xs \<longleftrightarrow> (\<forall>i < length xs. m i = xs ! i) \<and> m (length xs) = 0 \<and> 0 \<notin> set xs"

text \<open>The bytes of a string literal of the sources.\<close>

definition lit :: "string \<Rightarrow> u8 list" where
  "lit s = map of_char s"

lemma length_lit [simp]: "length (lit s) = length s"
  by (simp add: lit_def)

lemma cstring_nth: "cstring m xs \<Longrightarrow> i < length xs \<Longrightarrow> m i = xs ! i"
  by (simp add: cstring_def)

lemma cstring_nth_nonzero: "cstring m xs \<Longrightarrow> i < length xs \<Longrightarrow> m i \<noteq> 0"
  by (metis cstring_def nth_mem)

lemma cstring_end: "cstring m xs \<Longrightarrow> m (length xs) = 0"
  by (simp add: cstring_def)

lemma cstring_unique:
  assumes "cstring m xs" and "cstring m ys"
  shows "xs = ys"
proof -
  have "\<not> length xs < length ys" "\<not> length ys < length xs"
    using assms cstring_nth_nonzero cstring_end by fastforce+
  then have "length xs = length ys" by simp
  then show ?thesis
    using assms by (simp add: cstring_def nth_equalityI)
qed

lemma cstring_cong:
  assumes "cstring m xs" and "\<And>i. i \<le> length xs \<Longrightarrow> m' i = m i"
  shows "cstring m' xs"
  using assms by (simp add: cstring_def)

text \<open>\<open>store m p xs\<close> writes the bytes \<open>xs\<close> at offset \<open>p\<close>.\<close>

definition store :: "(nat \<Rightarrow> 'a) \<Rightarrow> nat \<Rightarrow> 'a list \<Rightarrow> (nat \<Rightarrow> 'a)" where
  "store m p xs = (\<lambda>i. if p \<le> i \<and> i < p + length xs then xs ! (i - p) else m i)"

lemma store_Nil [simp]: "store m p [] = m"
  by (auto simp: store_def fun_eq_iff)

lemma store_outside: "i < p \<or> p + length xs \<le> i \<Longrightarrow> store m p xs i = m i"
  by (auto simp: store_def)

lemma store_inside: "p \<le> i \<Longrightarrow> i < p + length xs \<Longrightarrow> store m p xs i = xs ! (i - p)"
  by (simp add: store_def)

lemma store_Cons: "store m p (x # xs) = store (m(p := x)) (Suc p) xs"
  by (auto simp: store_def fun_eq_iff nth_Cons' Suc_le_eq)

lemma store_snoc: "store m p (xs @ [x]) = (store m p xs)(p + length xs := x)"
  by (auto simp: store_def fun_eq_iff nth_append)

lemma store_upd_outside:
  "q < p \<or> p + length xs \<le> q \<Longrightarrow> store (m(q := d)) p xs = (store m p xs)(q := d)"
  by (auto simp: store_def fun_eq_iff)

lemma fold_upd_store: "fold (\<lambda>i m. m(p + i := f i)) [0..<n] m = store m p (map f [0..<n])"
proof (induction n)
  case (Suc n)
  have "fold (\<lambda>i m. m(p + i := f i)) [0..<Suc n] m = (fold (\<lambda>i m. m(p + i := f i)) [0..<n] m)(p + n := f n)"
    by simp
  then show ?case using store_snoc [of m p "map f [0..<n]" "f n"] by (simp only: Suc) simp
qed simp

text \<open>\<open>fetch m p n\<close> reads \<open>n\<close> consecutive cells.\<close>

definition fetch :: "(nat \<Rightarrow> 'a) \<Rightarrow> nat \<Rightarrow> nat \<Rightarrow> 'a list" where
  "fetch m p n = map (\<lambda>i. m (p + i)) [0..<n]"

lemma length_fetch [simp]: "length (fetch m p n) = n"
  by (simp add: fetch_def)

lemma nth_fetch [simp]: "i < n \<Longrightarrow> fetch m p n ! i = m (p + i)"
  by (simp add: fetch_def)

lemma fetch_store_same: "fetch (store m p xs) p (length xs) = xs"
  by (rule nth_equalityI) (auto simp: store_def)

lemma fetch_cong: "(\<And>i. i < n \<Longrightarrow> m (p + i) = m' (p + i)) \<Longrightarrow> fetch m p n = fetch m' p n"
  by (auto simp: fetch_def)

lemma cstring_fetch: "cstring m xs \<Longrightarrow> fetch m 0 (length xs) = xs"
  by (rule nth_equalityI) (auto simp: cstring_def)

section \<open>Lists\<close>

lemma find_index_first:
  assumes "find P xs = Some x"
  shows "P x \<and> x \<in> set xs"
  using assms by (auto simp: find_Some_iff)

end
