(* ===== verification/Font8x16.thy ===== *)
theory Font8x16
  imports Prelude
begin

text \<open>
  \<^verbatim>\<open>src/drivers/screen/font8x16.c\<close>: the 8x16 console font, 256 glyphs of 16 rows, one byte per
  row with the leftmost pixel in the top bit.  The table is transcribed in four quarters of 64
  glyphs each.  \<open>framebuffer_font_get_glyph\<close> falls back to the question mark.
\<close>

definition font_quarter_0 :: "u8 list list" where
  "font_quarter_0 = [
     [0, 0, 60, 66, 153, 165, 161, 161, 165, 153, 66, 60, 0, 0, 0, 0],
     [0, 0, 0, 0, 0, 0, 0, 255, 0, 0, 0, 0, 0, 0, 0, 0],
     [0, 0, 0, 0, 0, 0, 0, 0, 0, 0, 219, 219, 0, 0, 0, 0],
     [0, 0, 241, 91, 85, 81, 0, 0, 0, 0, 0, 0, 0, 0, 0, 0],
     [0, 0, 0, 0, 16, 56, 124, 254, 124, 56, 16, 0, 0, 0, 0, 0],
     [0, 0, 204, 207, 237, 255, 252, 223, 204, 204, 204, 204, 0, 0, 0, 0],
     [0, 0, 3, 62, 102, 207, 219, 219, 243, 102, 124, 192, 0, 0, 0, 0],
     [0, 0, 0, 0, 0, 0, 24, 60, 60, 24, 0, 0, 0, 0, 0, 0],
     [0, 0, 0, 0, 102, 60, 102, 102, 102, 60, 102, 0, 0, 0, 0, 0],
     [0, 0, 24, 24, 24, 24, 0, 24, 24, 24, 24, 24, 0, 0, 0, 0],
     [0, 0, 108, 108, 0, 0, 0, 0, 0, 0, 0, 0, 0, 0, 0, 0],
     [0, 0, 56, 68, 186, 178, 170, 68, 56, 0, 0, 0, 0, 0, 0, 0],
     [0, 0, 0, 124, 0, 0, 0, 0, 0, 0, 0, 0, 0, 0, 0, 0],
     [0, 112, 216, 48, 24, 216, 112, 0, 0, 0, 0, 0, 0, 0, 0, 0],
     [0, 0, 12, 24, 0, 0, 0, 0, 0, 0, 0, 0, 0, 0, 0, 0],
     [0, 0, 0, 0, 0, 0, 0, 0, 0, 0, 0, 0, 24, 12, 56, 0],
     [0, 48, 112, 48, 48, 48, 120, 0, 0, 0, 0, 0, 0, 0, 0, 0],
     [0, 224, 48, 98, 54, 236, 24, 48, 102, 206, 158, 62, 6, 6, 0, 0],
     [96, 48, 0, 16, 56, 108, 198, 198, 254, 198, 198, 198, 0, 0, 0, 0],
     [0, 0, 102, 102, 102, 102, 102, 102, 102, 0, 102, 102, 0, 0, 0, 0],
     [0, 0, 127, 219, 219, 219, 123, 27, 27, 27, 27, 27, 0, 0, 0, 0],
     [0, 124, 198, 96, 56, 108, 198, 198, 108, 56, 12, 198, 124, 0, 0, 0],
     [12, 24, 0, 16, 56, 108, 198, 198, 254, 198, 198, 198, 0, 0, 0, 0],
     [16, 56, 108, 16, 56, 108, 198, 198, 254, 198, 198, 198, 0, 0, 0, 0],
     [0, 0, 24, 60, 126, 24, 24, 24, 24, 24, 24, 24, 0, 0, 0, 0],
     [0, 0, 24, 24, 24, 24, 24, 24, 24, 126, 60, 24, 0, 0, 0, 0],
     [0, 0, 0, 0, 0, 12, 6, 255, 6, 12, 0, 0, 0, 0, 0, 0],
     [0, 0, 0, 0, 0, 48, 96, 255, 96, 48, 0, 0, 0, 0, 0, 0],
     [118, 220, 0, 16, 56, 108, 198, 198, 254, 198, 198, 198, 0, 0, 0, 0],
     [48, 24, 0, 254, 102, 98, 104, 120, 104, 98, 102, 254, 0, 0, 0, 0],
     [16, 56, 68, 254, 102, 98, 104, 120, 104, 98, 102, 254, 0, 0, 0, 0],
     [108, 108, 0, 254, 102, 98, 104, 120, 104, 98, 102, 254, 0, 0, 0, 0],
     [0, 0, 0, 0, 0, 0, 0, 0, 0, 0, 0, 0, 0, 0, 0, 0],
     [0, 0, 24, 60, 60, 60, 24, 24, 24, 0, 24, 24, 0, 0, 0, 0],
     [0, 102, 102, 102, 36, 0, 0, 0, 0, 0, 0, 0, 0, 0, 0, 0],
     [0, 0, 0, 108, 108, 254, 108, 108, 108, 254, 108, 108, 0, 0, 0, 0],
     [24, 24, 124, 198, 194, 192, 124, 6, 6, 134, 198, 124, 24, 24, 0, 0],
     [0, 0, 0, 0, 194, 198, 12, 24, 48, 96, 198, 134, 0, 0, 0, 0],
     [0, 0, 56, 108, 108, 56, 118, 220, 204, 204, 204, 118, 0, 0, 0, 0],
     [0, 48, 48, 48, 32, 0, 0, 0, 0, 0, 0, 0, 0, 0, 0, 0],
     [0, 0, 12, 24, 48, 48, 48, 48, 48, 48, 24, 12, 0, 0, 0, 0],
     [0, 0, 48, 24, 12, 12, 12, 12, 12, 12, 24, 48, 0, 0, 0, 0],
     [0, 0, 0, 0, 0, 102, 60, 255, 60, 102, 0, 0, 0, 0, 0, 0],
     [0, 0, 0, 0, 0, 24, 24, 126, 24, 24, 0, 0, 0, 0, 0, 0],
     [0, 0, 0, 0, 0, 0, 0, 0, 0, 24, 24, 24, 48, 0, 0, 0],
     [0, 0, 0, 0, 0, 0, 0, 254, 0, 0, 0, 0, 0, 0, 0, 0],
     [0, 0, 0, 0, 0, 0, 0, 0, 0, 0, 24, 24, 0, 0, 0, 0],
     [0, 0, 0, 0, 2, 6, 12, 24, 48, 96, 192, 128, 0, 0, 0, 0],
     [0, 0, 56, 108, 198, 198, 214, 214, 198, 198, 108, 56, 0, 0, 0, 0],
     [0, 0, 24, 56, 120, 24, 24, 24, 24, 24, 24, 126, 0, 0, 0, 0],
     [0, 0, 124, 198, 6, 12, 24, 48, 96, 192, 198, 254, 0, 0, 0, 0],
     [0, 0, 124, 198, 6, 6, 60, 6, 6, 6, 198, 124, 0, 0, 0, 0],
     [0, 0, 12, 28, 60, 108, 204, 254, 12, 12, 12, 30, 0, 0, 0, 0],
     [0, 0, 254, 192, 192, 192, 252, 6, 6, 6, 198, 124, 0, 0, 0, 0],
     [0, 0, 56, 96, 192, 192, 252, 198, 198, 198, 198, 124, 0, 0, 0, 0],
     [0, 0, 254, 198, 6, 6, 12, 24, 48, 48, 48, 48, 0, 0, 0, 0],
     [0, 0, 124, 198, 198, 198, 124, 198, 198, 198, 198, 124, 0, 0, 0, 0],
     [0, 0, 124, 198, 198, 198, 126, 6, 6, 6, 12, 120, 0, 0, 0, 0],
     [0, 0, 0, 0, 24, 24, 0, 0, 0, 24, 24, 0, 0, 0, 0, 0],
     [0, 0, 0, 0, 24, 24, 0, 0, 0, 24, 24, 48, 0, 0, 0, 0],
     [0, 0, 0, 6, 12, 24, 48, 96, 48, 24, 12, 6, 0, 0, 0, 0],
     [0, 0, 0, 0, 0, 126, 0, 0, 126, 0, 0, 0, 0, 0, 0, 0],
     [0, 0, 0, 96, 48, 24, 12, 6, 12, 24, 48, 96, 0, 0, 0, 0],
     [0, 0, 124, 198, 198, 12, 24, 24, 24, 0, 24, 24, 0, 0, 0, 0]]"

definition font_quarter_1 :: "u8 list list" where
  "font_quarter_1 = [
     [0, 0, 0, 124, 198, 198, 222, 222, 222, 220, 192, 124, 0, 0, 0, 0],
     [0, 0, 16, 56, 108, 198, 198, 254, 198, 198, 198, 198, 0, 0, 0, 0],
     [0, 0, 252, 102, 102, 102, 124, 102, 102, 102, 102, 252, 0, 0, 0, 0],
     [0, 0, 60, 102, 194, 192, 192, 192, 192, 194, 102, 60, 0, 0, 0, 0],
     [0, 0, 248, 108, 102, 102, 102, 102, 102, 102, 108, 248, 0, 0, 0, 0],
     [0, 0, 254, 102, 98, 104, 120, 104, 96, 98, 102, 254, 0, 0, 0, 0],
     [0, 0, 254, 102, 98, 104, 120, 104, 96, 96, 96, 240, 0, 0, 0, 0],
     [0, 0, 60, 102, 194, 192, 192, 222, 198, 198, 102, 58, 0, 0, 0, 0],
     [0, 0, 198, 198, 198, 198, 254, 198, 198, 198, 198, 198, 0, 0, 0, 0],
     [0, 0, 60, 24, 24, 24, 24, 24, 24, 24, 24, 60, 0, 0, 0, 0],
     [0, 0, 30, 12, 12, 12, 12, 12, 204, 204, 204, 120, 0, 0, 0, 0],
     [0, 0, 230, 102, 102, 108, 120, 120, 108, 102, 102, 230, 0, 0, 0, 0],
     [0, 0, 240, 96, 96, 96, 96, 96, 96, 98, 102, 254, 0, 0, 0, 0],
     [0, 0, 198, 238, 254, 254, 214, 198, 198, 198, 198, 198, 0, 0, 0, 0],
     [0, 0, 198, 230, 246, 254, 222, 206, 198, 198, 198, 198, 0, 0, 0, 0],
     [0, 0, 124, 198, 198, 198, 198, 198, 198, 198, 198, 124, 0, 0, 0, 0],
     [0, 0, 252, 102, 102, 102, 124, 96, 96, 96, 96, 240, 0, 0, 0, 0],
     [0, 0, 124, 198, 198, 198, 198, 198, 198, 214, 222, 124, 12, 14, 0, 0],
     [0, 0, 252, 102, 102, 102, 124, 108, 102, 102, 102, 230, 0, 0, 0, 0],
     [0, 0, 124, 198, 198, 96, 56, 12, 6, 198, 198, 124, 0, 0, 0, 0],
     [0, 0, 126, 126, 90, 24, 24, 24, 24, 24, 24, 60, 0, 0, 0, 0],
     [0, 0, 198, 198, 198, 198, 198, 198, 198, 198, 198, 124, 0, 0, 0, 0],
     [0, 0, 198, 198, 198, 198, 198, 198, 198, 108, 56, 16, 0, 0, 0, 0],
     [0, 0, 198, 198, 198, 198, 214, 214, 214, 254, 238, 108, 0, 0, 0, 0],
     [0, 0, 198, 198, 108, 124, 56, 56, 124, 108, 198, 198, 0, 0, 0, 0],
     [0, 0, 102, 102, 102, 102, 60, 24, 24, 24, 24, 60, 0, 0, 0, 0],
     [0, 0, 254, 198, 134, 12, 24, 48, 96, 194, 198, 254, 0, 0, 0, 0],
     [0, 0, 60, 48, 48, 48, 48, 48, 48, 48, 48, 60, 0, 0, 0, 0],
     [0, 0, 0, 128, 192, 224, 112, 56, 28, 14, 6, 2, 0, 0, 0, 0],
     [0, 0, 60, 12, 12, 12, 12, 12, 12, 12, 12, 60, 0, 0, 0, 0],
     [16, 56, 108, 198, 0, 0, 0, 0, 0, 0, 0, 0, 0, 0, 0, 0],
     [0, 0, 0, 0, 0, 0, 0, 0, 0, 0, 0, 0, 0, 255, 0, 0],
     [48, 48, 24, 0, 0, 0, 0, 0, 0, 0, 0, 0, 0, 0, 0, 0],
     [0, 0, 0, 0, 0, 120, 12, 124, 204, 204, 204, 118, 0, 0, 0, 0],
     [0, 0, 224, 96, 96, 120, 108, 102, 102, 102, 102, 124, 0, 0, 0, 0],
     [0, 0, 0, 0, 0, 124, 198, 192, 192, 192, 198, 124, 0, 0, 0, 0],
     [0, 0, 28, 12, 12, 60, 108, 204, 204, 204, 204, 118, 0, 0, 0, 0],
     [0, 0, 0, 0, 0, 124, 198, 254, 192, 192, 198, 124, 0, 0, 0, 0],
     [0, 0, 56, 108, 100, 96, 240, 96, 96, 96, 96, 240, 0, 0, 0, 0],
     [0, 0, 0, 0, 0, 118, 204, 204, 204, 204, 204, 124, 12, 204, 120, 0],
     [0, 0, 224, 96, 96, 108, 118, 102, 102, 102, 102, 230, 0, 0, 0, 0],
     [0, 0, 24, 24, 0, 56, 24, 24, 24, 24, 24, 60, 0, 0, 0, 0],
     [0, 0, 6, 6, 0, 14, 6, 6, 6, 6, 6, 6, 102, 102, 60, 0],
     [0, 0, 224, 96, 96, 102, 108, 120, 120, 108, 102, 230, 0, 0, 0, 0],
     [0, 0, 56, 24, 24, 24, 24, 24, 24, 24, 24, 60, 0, 0, 0, 0],
     [0, 0, 0, 0, 0, 236, 254, 214, 214, 214, 214, 198, 0, 0, 0, 0],
     [0, 0, 0, 0, 0, 220, 102, 102, 102, 102, 102, 102, 0, 0, 0, 0],
     [0, 0, 0, 0, 0, 124, 198, 198, 198, 198, 198, 124, 0, 0, 0, 0],
     [0, 0, 0, 0, 0, 220, 102, 102, 102, 102, 102, 124, 96, 96, 240, 0],
     [0, 0, 0, 0, 0, 118, 204, 204, 204, 204, 204, 124, 12, 12, 30, 0],
     [0, 0, 0, 0, 0, 220, 118, 102, 96, 96, 96, 240, 0, 0, 0, 0],
     [0, 0, 0, 0, 0, 124, 198, 96, 56, 12, 198, 124, 0, 0, 0, 0],
     [0, 0, 16, 48, 48, 252, 48, 48, 48, 48, 54, 28, 0, 0, 0, 0],
     [0, 0, 0, 0, 0, 204, 204, 204, 204, 204, 204, 118, 0, 0, 0, 0],
     [0, 0, 0, 0, 0, 102, 102, 102, 102, 102, 60, 24, 0, 0, 0, 0],
     [0, 0, 0, 0, 0, 198, 198, 214, 214, 214, 254, 108, 0, 0, 0, 0],
     [0, 0, 0, 0, 0, 198, 108, 56, 56, 56, 108, 198, 0, 0, 0, 0],
     [0, 0, 0, 0, 0, 198, 198, 198, 198, 198, 198, 126, 6, 12, 248, 0],
     [0, 0, 0, 0, 0, 254, 204, 24, 48, 96, 198, 254, 0, 0, 0, 0],
     [0, 0, 14, 24, 24, 24, 112, 24, 24, 24, 24, 14, 0, 0, 0, 0],
     [0, 0, 24, 24, 24, 24, 24, 24, 24, 24, 24, 24, 0, 0, 0, 0],
     [0, 0, 112, 24, 24, 24, 14, 24, 24, 24, 24, 112, 0, 0, 0, 0],
     [0, 0, 118, 220, 0, 0, 0, 0, 0, 0, 0, 0, 0, 0, 0, 0],
     [48, 24, 0, 60, 24, 24, 24, 24, 24, 24, 24, 60, 0, 0, 0, 0]]"

definition font_quarter_2 :: "u8 list list" where
  "font_quarter_2 = [
     [0, 0, 60, 102, 194, 192, 192, 192, 192, 194, 102, 60, 24, 12, 56, 0],
     [0, 0, 204, 204, 0, 204, 204, 204, 204, 204, 204, 118, 0, 0, 0, 0],
     [0, 0, 12, 24, 0, 124, 198, 254, 192, 192, 198, 124, 0, 0, 0, 0],
     [0, 16, 56, 108, 0, 120, 12, 124, 204, 204, 204, 118, 0, 0, 0, 0],
     [0, 0, 108, 108, 0, 120, 12, 124, 204, 204, 204, 118, 0, 0, 0, 0],
     [0, 0, 96, 48, 0, 120, 12, 124, 204, 204, 204, 118, 0, 0, 0, 0],
     [0, 56, 108, 56, 0, 120, 12, 124, 204, 204, 204, 118, 0, 0, 0, 0],
     [0, 0, 0, 0, 0, 124, 198, 192, 192, 192, 198, 124, 24, 12, 56, 0],
     [0, 16, 56, 108, 0, 124, 198, 254, 192, 192, 198, 124, 0, 0, 0, 0],
     [0, 0, 108, 108, 0, 124, 198, 254, 192, 192, 198, 124, 0, 0, 0, 0],
     [0, 0, 96, 48, 0, 124, 198, 254, 192, 192, 198, 124, 0, 0, 0, 0],
     [0, 0, 102, 102, 0, 56, 24, 24, 24, 24, 24, 60, 0, 0, 0, 0],
     [0, 16, 56, 108, 0, 56, 24, 24, 24, 24, 24, 60, 0, 0, 0, 0],
     [0, 0, 48, 24, 0, 56, 24, 24, 24, 24, 24, 60, 0, 0, 0, 0],
     [108, 108, 0, 16, 56, 108, 198, 198, 254, 198, 198, 198, 0, 0, 0, 0],
     [56, 108, 56, 16, 56, 108, 198, 198, 254, 198, 198, 198, 0, 0, 0, 0],
     [12, 24, 0, 254, 102, 98, 104, 120, 104, 98, 102, 254, 0, 0, 0, 0],
     [0, 0, 0, 0, 0, 204, 118, 54, 126, 216, 216, 110, 0, 0, 0, 0],
     [0, 0, 62, 108, 204, 204, 254, 204, 204, 204, 204, 206, 0, 0, 0, 0],
     [0, 16, 56, 108, 0, 124, 198, 198, 198, 198, 198, 124, 0, 0, 0, 0],
     [0, 0, 108, 108, 0, 124, 198, 198, 198, 198, 198, 124, 0, 0, 0, 0],
     [0, 0, 96, 48, 0, 124, 198, 198, 198, 198, 198, 124, 0, 0, 0, 0],
     [0, 16, 56, 108, 0, 204, 204, 204, 204, 204, 204, 118, 0, 0, 0, 0],
     [0, 0, 96, 48, 0, 204, 204, 204, 204, 204, 204, 118, 0, 0, 0, 0],
     [0, 0, 108, 108, 0, 198, 198, 198, 198, 198, 198, 126, 6, 12, 248, 0],
     [108, 108, 0, 124, 198, 198, 198, 198, 198, 198, 198, 124, 0, 0, 0, 0],
     [108, 108, 0, 198, 198, 198, 198, 198, 198, 198, 198, 124, 0, 0, 0, 0],
     [0, 24, 24, 60, 102, 96, 96, 96, 102, 60, 24, 24, 0, 0, 0, 0],
     [0, 56, 108, 100, 96, 240, 96, 96, 96, 96, 230, 252, 0, 0, 0, 0],
     [0, 0, 102, 102, 60, 24, 126, 24, 126, 24, 24, 24, 0, 0, 0, 0],
     [0, 0, 252, 102, 102, 124, 98, 102, 111, 102, 102, 243, 0, 0, 0, 0],
     [0, 0, 28, 54, 50, 48, 120, 48, 48, 48, 48, 48, 48, 48, 224, 0],
     [0, 0, 24, 48, 0, 120, 12, 124, 204, 204, 204, 118, 0, 0, 0, 0],
     [0, 0, 12, 24, 0, 56, 24, 24, 24, 24, 24, 60, 0, 0, 0, 0],
     [0, 0, 12, 24, 0, 124, 198, 198, 198, 198, 198, 124, 0, 0, 0, 0],
     [0, 0, 24, 48, 0, 204, 204, 204, 204, 204, 204, 118, 0, 0, 0, 0],
     [0, 0, 118, 220, 0, 220, 102, 102, 102, 102, 102, 102, 0, 0, 0, 0],
     [118, 220, 0, 198, 230, 246, 254, 222, 206, 198, 198, 198, 0, 0, 0, 0],
     [0, 60, 108, 108, 62, 0, 126, 0, 0, 0, 0, 0, 0, 0, 0, 0],
     [0, 56, 108, 108, 56, 0, 124, 0, 0, 0, 0, 0, 0, 0, 0, 0],
     [0, 0, 48, 48, 0, 48, 48, 96, 192, 198, 198, 124, 0, 0, 0, 0],
     [12, 24, 0, 60, 24, 24, 24, 24, 24, 24, 24, 60, 0, 0, 0, 0],
     [0, 0, 0, 0, 0, 0, 254, 6, 6, 6, 6, 0, 0, 0, 0, 0],
     [0, 192, 192, 194, 198, 204, 24, 48, 96, 220, 134, 12, 24, 62, 0, 0],
     [0, 192, 192, 194, 198, 204, 24, 48, 102, 206, 158, 62, 6, 6, 0, 0],
     [0, 0, 24, 24, 0, 24, 24, 24, 60, 60, 60, 24, 0, 0, 0, 0],
     [0, 0, 0, 0, 0, 54, 108, 216, 108, 54, 0, 0, 0, 0, 0, 0],
     [0, 0, 0, 0, 0, 216, 108, 54, 108, 216, 0, 0, 0, 0, 0, 0],
     [17, 68, 17, 68, 17, 68, 17, 68, 17, 68, 17, 68, 17, 68, 17, 68],
     [85, 170, 85, 170, 85, 170, 85, 170, 85, 170, 85, 170, 85, 170, 85, 170],
     [24, 60, 66, 60, 24, 24, 24, 24, 24, 24, 24, 60, 0, 0, 0, 0],
     [24, 24, 24, 24, 24, 24, 24, 24, 24, 24, 24, 24, 24, 24, 24, 24],
     [24, 24, 24, 24, 24, 24, 24, 248, 24, 24, 24, 24, 24, 24, 24, 24],
     [102, 102, 0, 60, 24, 24, 24, 24, 24, 24, 24, 60, 0, 0, 0, 0],
     [0, 0, 248, 108, 102, 102, 246, 102, 102, 102, 108, 248, 0, 0, 0, 0],
     [96, 48, 0, 124, 198, 198, 198, 198, 198, 198, 198, 124, 0, 0, 0, 0],
     [12, 24, 0, 124, 198, 198, 198, 198, 198, 198, 198, 124, 0, 0, 0, 0],
     [16, 56, 68, 124, 198, 198, 198, 198, 198, 198, 198, 124, 0, 0, 0, 0],
     [118, 220, 0, 124, 198, 198, 198, 198, 198, 198, 198, 124, 0, 0, 0, 0],
     [0, 0, 0, 0, 0, 102, 60, 24, 60, 102, 0, 0, 0, 0, 0, 0],
     [0, 0, 122, 196, 206, 206, 214, 214, 230, 230, 70, 188, 0, 0, 0, 0],
     [96, 48, 0, 198, 198, 198, 198, 198, 198, 198, 198, 124, 0, 0, 0, 0],
     [12, 24, 0, 198, 198, 198, 198, 198, 198, 198, 198, 124, 0, 0, 0, 0],
     [0, 0, 0, 0, 0, 0, 0, 248, 24, 24, 24, 24, 24, 24, 24, 24]]"

definition font_quarter_3 :: "u8 list list" where
  "font_quarter_3 = [
     [24, 24, 24, 24, 24, 24, 24, 31, 0, 0, 0, 0, 0, 0, 0, 0],
     [24, 24, 24, 24, 24, 24, 24, 255, 0, 0, 0, 0, 0, 0, 0, 0],
     [0, 0, 0, 0, 0, 0, 0, 255, 24, 24, 24, 24, 24, 24, 24, 24],
     [24, 24, 24, 24, 24, 24, 24, 31, 24, 24, 24, 24, 24, 24, 24, 24],
     [0, 0, 0, 0, 0, 0, 0, 255, 0, 0, 0, 0, 0, 0, 0, 0],
     [24, 24, 24, 24, 24, 24, 24, 255, 24, 24, 24, 24, 24, 24, 24, 24],
     [16, 56, 68, 198, 198, 198, 198, 198, 198, 198, 198, 124, 0, 0, 0, 0],
     [12, 24, 0, 102, 102, 102, 60, 24, 24, 24, 24, 60, 0, 0, 0, 0],
     [0, 0, 240, 96, 124, 102, 102, 102, 102, 124, 96, 240, 0, 0, 0, 0],
     [0, 0, 118, 220, 0, 120, 12, 124, 204, 204, 204, 118, 0, 0, 0, 0],
     [0, 0, 118, 28, 60, 6, 126, 198, 198, 198, 198, 124, 0, 0, 0, 0],
     [0, 0, 118, 220, 0, 124, 198, 198, 198, 198, 198, 124, 0, 0, 0, 0],
     [0, 0, 0, 0, 0, 122, 196, 206, 214, 230, 70, 188, 0, 0, 0, 0],
     [0, 0, 12, 24, 0, 198, 198, 198, 198, 198, 198, 126, 6, 12, 248, 0],
     [0, 0, 224, 96, 96, 124, 102, 102, 102, 102, 102, 124, 96, 96, 240, 0],
     [108, 56, 0, 60, 102, 194, 192, 222, 198, 198, 102, 58, 0, 0, 0, 0],
     [0, 0, 108, 56, 0, 118, 204, 204, 204, 204, 204, 124, 12, 204, 120, 0],
     [24, 24, 0, 60, 24, 24, 24, 24, 24, 24, 24, 60, 0, 0, 0, 0],
     [0, 0, 0, 0, 0, 56, 24, 24, 24, 24, 24, 60, 0, 0, 0, 0],
     [0, 0, 110, 216, 216, 216, 222, 216, 216, 216, 216, 110, 0, 0, 0, 0],
     [0, 0, 0, 0, 0, 108, 214, 214, 222, 216, 216, 110, 0, 0, 0, 0],
     [0, 0, 0, 124, 198, 198, 96, 56, 12, 198, 198, 124, 24, 12, 56, 0],
     [0, 0, 0, 0, 0, 124, 198, 96, 56, 12, 198, 124, 24, 12, 56, 0],
     [108, 56, 16, 124, 198, 198, 96, 56, 12, 198, 198, 124, 0, 0, 0, 0],
     [0, 108, 56, 16, 0, 124, 198, 96, 56, 12, 198, 124, 0, 0, 0, 0],
     [24, 24, 24, 24, 24, 24, 24, 248, 0, 0, 0, 0, 0, 0, 0, 0],
     [0, 0, 0, 0, 0, 0, 0, 31, 24, 24, 24, 24, 24, 24, 24, 24],
     [255, 255, 255, 255, 255, 255, 255, 255, 255, 255, 255, 255, 255, 255, 255, 255],
     [102, 102, 0, 102, 102, 102, 60, 24, 24, 24, 24, 60, 0, 0, 0, 0],
     [108, 56, 16, 254, 198, 140, 24, 48, 96, 194, 198, 254, 0, 0, 0, 0],
     [0, 108, 56, 16, 0, 254, 204, 24, 48, 96, 198, 254, 0, 0, 0, 0],
     [0, 16, 56, 108, 0, 0, 0, 0, 0, 0, 0, 0, 0, 0, 0, 0],
     [0, 0, 118, 220, 0, 0, 0, 0, 0, 0, 0, 0, 0, 0, 0, 0],
     [0, 0, 60, 102, 102, 102, 108, 102, 102, 102, 102, 236, 0, 0, 0, 0],
     [0, 24, 48, 48, 48, 0, 0, 0, 0, 0, 0, 0, 0, 0, 0, 0],
     [0, 0, 0, 0, 0, 254, 108, 108, 108, 108, 108, 102, 0, 0, 0, 0],
     [0, 24, 24, 24, 48, 0, 0, 0, 0, 0, 0, 0, 0, 0, 0, 0],
     [0, 0, 0, 0, 0, 0, 0, 0, 0, 0, 24, 24, 24, 48, 0, 0],
     [0, 0, 0, 0, 0, 204, 204, 204, 204, 204, 204, 246, 192, 192, 192, 0],
     [0, 102, 204, 204, 204, 0, 0, 0, 0, 0, 0, 0, 0, 0, 0, 0],
     [0, 102, 102, 102, 204, 0, 0, 0, 0, 0, 0, 0, 0, 0, 0, 0],
     [0, 0, 0, 0, 0, 0, 0, 0, 0, 0, 102, 102, 102, 204, 0, 0],
     [0, 0, 24, 24, 24, 126, 24, 24, 24, 24, 24, 24, 0, 0, 0, 0],
     [0, 0, 24, 24, 24, 126, 24, 24, 126, 24, 24, 24, 0, 0, 0, 0],
     [0, 0, 0, 0, 0, 118, 219, 219, 110, 0, 0, 0, 0, 0, 0, 0],
     [0, 0, 0, 192, 198, 12, 24, 48, 96, 192, 54, 54, 0, 0, 0, 0],
     [0, 0, 0, 0, 12, 24, 48, 96, 48, 24, 12, 0, 0, 0, 0, 0],
     [0, 0, 0, 0, 124, 198, 198, 198, 198, 198, 198, 198, 0, 0, 0, 0],
     [0, 0, 0, 0, 254, 0, 0, 254, 0, 0, 254, 0, 0, 0, 0, 0],
     [0, 0, 0, 0, 24, 24, 126, 24, 24, 0, 126, 0, 0, 0, 0, 0],
     [0, 0, 0, 0, 224, 56, 14, 56, 224, 0, 254, 0, 0, 0, 0, 0],
     [0, 0, 0, 0, 14, 56, 224, 56, 14, 0, 254, 0, 0, 0, 0, 0],
     [0, 0, 0, 0, 96, 48, 24, 12, 24, 48, 96, 0, 0, 0, 0, 0],
     [0, 0, 28, 54, 96, 252, 96, 248, 96, 96, 54, 28, 0, 0, 0, 0],
     [0, 0, 0, 0, 24, 24, 0, 126, 0, 24, 24, 0, 0, 0, 0, 0],
     [0, 0, 0, 0, 0, 118, 220, 0, 118, 220, 0, 0, 0, 0, 0, 0],
     [0, 56, 108, 108, 56, 0, 0, 0, 0, 0, 0, 0, 0, 0, 0, 0],
     [0, 0, 0, 4, 8, 126, 8, 16, 126, 16, 32, 0, 0, 0, 0, 0],
     [0, 0, 0, 0, 0, 0, 0, 0, 24, 0, 0, 0, 0, 0, 0, 0],
     [0, 0, 126, 126, 90, 24, 30, 120, 30, 120, 24, 60, 0, 0, 0, 0],
     [0, 0, 176, 216, 216, 216, 216, 0, 0, 0, 0, 0, 0, 0, 0, 0],
     [0, 112, 216, 48, 96, 200, 248, 0, 0, 0, 0, 0, 0, 0, 0, 0],
     [0, 0, 0, 254, 254, 254, 254, 254, 254, 254, 254, 254, 0, 0, 0, 0],
     [0, 0, 0, 62, 96, 192, 192, 254, 192, 192, 96, 62, 0, 0, 0, 0]]"

definition framebuffer_font8x16 :: "u8 list list" where
  "framebuffer_font8x16 = font_quarter_0 @ font_quarter_1 @ font_quarter_2 @ font_quarter_3"

definition framebuffer_font_get_glyph :: "u32 \<Rightarrow> u8 list" where
  "framebuffer_font_get_glyph codepoint =
     (if codepoint < 256 then framebuffer_font8x16 ! unat codepoint else framebuffer_font8x16 ! 63)"

lemma font_quarters_shape:
  "length font_quarter_0 = 64" "list_all (\<lambda>g. length g = 16) font_quarter_0"
  "length font_quarter_1 = 64" "list_all (\<lambda>g. length g = 16) font_quarter_1"
  "length font_quarter_2 = 64" "list_all (\<lambda>g. length g = 16) font_quarter_2"
  "length font_quarter_3 = 64" "list_all (\<lambda>g. length g = 16) font_quarter_3"
  by (simp_all add: font_quarter_0_def font_quarter_1_def font_quarter_2_def font_quarter_3_def)

lemma font_length: "length framebuffer_font8x16 = 256"
  by (simp add: framebuffer_font8x16_def font_quarters_shape)

lemma font_glyph_rows: "list_all (\<lambda>g. length g = 16) framebuffer_font8x16"
  by (simp add: framebuffer_font8x16_def font_quarters_shape)

lemma glyph_length [simp]: "length (framebuffer_font_get_glyph c) = 16"
proof -
  have "unat c < 256" if "c < 256" using that by (simp add: word_less_nat_alt)
  then show ?thesis
    using font_glyph_rows font_length
    by (simp add: framebuffer_font_get_glyph_def list_all_length)
qed

end
