(* ===== verification/Framebuffer.thy ===== *)
theory Framebuffer
  imports Font8x16
begin

text \<open>
  \<^verbatim>\<open>src/drivers/screen/framebuffer_console.c\<close> and the boot-information block of
  \<^verbatim>\<open>src/kernel/include/kernel/bootinfo.h\<close>.

  The framebuffer is a memory of 32-bit pixels indexed from \<open>fb_console.base\<close>.  The index of a
  pixel is computed as the C code does it: the product \<open>row * stride\<close> wraps at 32 bits, the
  column is added to the pointer and does not wrap.  \<open>screen_available\<close> is the flag of
  \<^verbatim>\<open>screen.c\<close> that \<open>framebuffer_console_init\<close> clears.
\<close>

section \<open>State\<close>

record bootinfo =
  magic :: u64
  uefi_entry :: u64
  flags :: u64
  fb_base :: u64
  fb_size :: u64
  fb_width :: u32
  fb_height :: u32
  fb_stride :: u32
  fb_bpp :: u32

definition KERNEL_BOOTINFO_MAGIC :: u64 where
  "KERNEL_BOOTINFO_MAGIC = 0x4341535345554546"

definition KERNEL_BOOTINFO_FLAG_UEFI :: u64 where
  "KERNEL_BOOTINFO_FLAG_UEFI = 1"

definition KERNEL_BOOTINFO_FLAG_FRAMEBUFFER :: u64 where
  "KERNEL_BOOTINFO_FLAG_FRAMEBUFFER = 2"

record framebuffer_console =
  fbc_base :: u64
  fbc_size :: u64
  fbc_width :: u32
  fbc_height :: u32
  fbc_stride :: u32
  fbc_bpp :: u32
  glyph_width :: u32
  glyph_height :: u32

definition FRAMEBUFFER_FONT_WIDTH :: u32 where
  "FRAMEBUFFER_FONT_WIDTH = 8"

definition FRAMEBUFFER_FONT_HEIGHT :: u32 where
  "FRAMEBUFFER_FONT_HEIGHT = 16"

record display =
  screen_available :: bool
  fb_console :: framebuffer_console
  fb_console_ready :: bool
  fbmem :: "nat \<Rightarrow> u32"

section \<open>Operations\<close>

definition screen_set_available :: "bool \<Rightarrow> display \<Rightarrow> display" where
  "screen_set_available available d = d\<lparr>screen_available := available\<rparr>"

definition framebuffer_console_init :: "bootinfo option \<Rightarrow> display \<Rightarrow> bool \<times> display" where
  "framebuffer_console_init bootinfo d =
     (case bootinfo of
        None \<Rightarrow> (False, d\<lparr>fb_console_ready := False\<rparr>)
      | Some b \<Rightarrow>
          if flags b AND KERNEL_BOOTINFO_FLAG_FRAMEBUFFER = 0
          then (False, d\<lparr>fb_console_ready := False\<rparr>)
          else if fb_base b = 0 \<or> fb_width b = 0 \<or> fb_height b = 0 \<or> fb_stride b = 0
          then (False, d\<lparr>fb_console_ready := False\<rparr>)
          else let d1 = d\<lparr>fb_console := \<lparr>fbc_base = fb_base b, fbc_size = fb_size b,
                           fbc_width = fb_width b, fbc_height = fb_height b,
                           fbc_stride = fb_stride b, fbc_bpp = fb_bpp b,
                           glyph_width = FRAMEBUFFER_FONT_WIDTH,
                           glyph_height = FRAMEBUFFER_FONT_HEIGHT\<rparr>,
                         fb_console_ready := True\<rparr>
               in (True, screen_set_available False d1))"

definition framebuffer_console_is_ready :: "display \<Rightarrow> bool" where
  "framebuffer_console_is_ready d = fb_console_ready d"

definition framebuffer_console_info :: "display \<Rightarrow> framebuffer_console option" where
  "framebuffer_console_info d = (if fb_console_ready d then Some (fb_console d) else None)"

text \<open>Writing a run of pixels with ascending column, as every inner loop of the console does.\<close>

definition write_line :: "nat \<Rightarrow> (nat \<Rightarrow> u32) \<Rightarrow> nat \<Rightarrow> (nat \<Rightarrow> u32) \<Rightarrow> (nat \<Rightarrow> u32)" where
  "write_line p color n mem = fold (\<lambda>col m. m(p + col := color col)) [0..<n] mem"

definition glyph_color :: "u8 \<Rightarrow> u32 \<Rightarrow> u32 \<Rightarrow> nat \<Rightarrow> u32" where
  "glyph_color bits fg bg col = (if ucast bits AND drop_bit col (0x80 :: u32) \<noteq> 0 then fg else bg)"

definition framebuffer_console_draw_glyph ::
  "u8 \<Rightarrow> u32 \<Rightarrow> u32 \<Rightarrow> u32 \<Rightarrow> u32 \<Rightarrow> display \<Rightarrow> bool \<times> display" where
  "framebuffer_console_draw_glyph c x y fg bg d =
     (let fb = fb_console d; glyph_w = glyph_width fb; glyph_h = glyph_height fb in
      if \<not> fb_console_ready d \<or> fbc_bpp fb \<noteq> 32 then (False, d)
      else if glyph_w = 0 \<or> glyph_h = 0 then (False, d)
      else if fbc_width fb \<le> x \<or> fbc_height fb \<le> y then (False, d)
      else if fbc_width fb < x + glyph_w \<or> fbc_height fb < y + glyph_h then (False, d)
      else let glyph = framebuffer_font_get_glyph (ucast c);
               mem = fold (\<lambda>row m. write_line (unat ((y + of_nat row) * fbc_stride fb) + unat x)
                             (glyph_color (glyph ! row) fg bg) (unat glyph_w) m)
                       [0..<unat glyph_h] (fbmem d)
           in (True, d\<lparr>fbmem := mem\<rparr>))"

section \<open>Rectangles of pixels: lemmas\<close>

lemma write_line_store: "write_line p color n mem = store mem p (map color [0..<n])"
  unfolding write_line_def by (rule fold_upd_store)

lemma pixel_in_row:
  fixes i r x w s :: nat
  assumes "x + w \<le> s" and "0 < s"
  shows "r * s + x \<le> i \<and> i < r * s + x + w \<longleftrightarrow> i div s = r \<and> x \<le> i mod s \<and> i mod s < x + w"
proof
  assume *: "r * s + x \<le> i \<and> i < r * s + x + w"
  then have "r * s \<le> i" "i < (r + 1) * s" using assms by (simp_all add: algebra_simps)
  then have "i div s = r"
    using assms(2) by (simp add: div_nat_eqI mult.commute)
  moreover have "i mod s = i - r * s"
    using calculation by (metis minus_div_mult_eq_mod)
  ultimately show "i div s = r \<and> x \<le> i mod s \<and> i mod s < x + w" using * by auto
next
  assume "i div s = r \<and> x \<le> i mod s \<and> i mod s < x + w"
  moreover have "i = i div s * s + i mod s" by simp
  ultimately show "r * s + x \<le> i \<and> i < r * s + x + w" by (metis add.assoc nat_add_left_cancel_le nat_add_left_cancel_less)
qed

text \<open>
  Writing \<open>h\<close> lines of \<open>w\<close> pixels below each other changes exactly the pixels of that
  rectangle; pixel \<open>i\<close> is the one in row \<open>i div s\<close> and column \<open>i mod s\<close>.
\<close>

definition in_rect :: "nat \<Rightarrow> nat \<Rightarrow> nat \<Rightarrow> nat \<Rightarrow> nat \<Rightarrow> nat \<Rightarrow> bool" where
  "in_rect s x y w h i \<longleftrightarrow> y \<le> i div s \<and> i div s < y + h \<and> x \<le> i mod s \<and> i mod s < x + w"

definition paint ::
  "nat \<Rightarrow> nat \<Rightarrow> nat \<Rightarrow> nat \<Rightarrow> nat \<Rightarrow> (nat \<Rightarrow> nat \<Rightarrow> u32) \<Rightarrow> (nat \<Rightarrow> u32) \<Rightarrow> (nat \<Rightarrow> u32)" where
  "paint s x y w h color mem =
     (\<lambda>i. if in_rect s x y w h i then color (i div s - y) (i mod s - x) else mem i)"

lemma write_rows:
  fixes s :: nat
  assumes "x + w \<le> s" and "0 < s"
  shows "fold (\<lambda>row m. write_line ((y + row) * s + x) (color row) w m) [0..<h] mem i =
    (if y \<le> i div s \<and> i div s < y + h \<and> x \<le> i mod s \<and> i mod s < x + w
     then color (i div s - y) (i mod s - x) else mem i)"
proof (induction h)
  case (Suc h)
  show ?case
  proof (cases "i div s = y + h \<and> x \<le> i mod s \<and> i mod s < x + w")
    case True
    then have "(y + h) * s + x \<le> i \<and> i < (y + h) * s + x + w"
      using pixel_in_row [OF assms] by blast
    moreover have "i - ((y + h) * s + x) = i mod s - x"
      using True by (metis diff_diff_left minus_div_mult_eq_mod)
    ultimately show ?thesis
      using True by (simp add: write_line_store store_inside less_diff_conv2)
  next
    case False
    then have "\<not> ((y + h) * s + x \<le> i \<and> i < (y + h) * s + x + w)"
      using pixel_in_row [OF assms] by blast
    then show ?thesis
      using Suc False by (auto simp: write_line_store store_def)
  qed
qed auto

lemma write_rows_cong:
  assumes "\<And>row. row < h \<Longrightarrow> p row = q row"
  shows "fold (\<lambda>row m. write_line (p row) (color row) w m) [0..<h] mem =
    fold (\<lambda>row m. write_line (q row) (color row) w m) [0..<h] mem"
  using assms by (intro fold_cong) auto

lemma unat_row_offset:
  fixes y s :: u32
  assumes "(unat y + row) * unat s < 2 ^ 32" and "unat y + row < 2 ^ 32"
  shows "unat ((y + of_nat row) * s) = (unat y + row) * unat s"
proof -
  have "unat (of_nat row :: u32) = row" using assms(2) by (simp add: unat_of_nat)
  then have "unat (y + of_nat row) = unat y + row"
    using assms(2) by (simp add: unat_add_nowrap)
  then show ?thesis using assms(1) by (simp add: unat_mult_nowrap)
qed

text \<open>
  A framebuffer description is sound when lines do not overlap, the pixel index of every row fits
  in 32 bits and the font is the one \<open>framebuffer_console_init\<close> installs.
\<close>

definition fb_sound :: "display \<Rightarrow> bool" where
  "fb_sound d \<longleftrightarrow> fb_console_ready d \<and> 0 < unat (fbc_width (fb_console d)) \<and>
     0 < unat (fbc_height (fb_console d)) \<and>
     unat (fbc_width (fb_console d)) \<le> unat (fbc_stride (fb_console d)) \<and>
     unat (fbc_height (fb_console d)) * unat (fbc_stride (fb_console d)) < 2 ^ 32 \<and>
     unat (fbc_width (fb_console d)) < 2 ^ 31 \<and> unat (fbc_height (fb_console d)) < 2 ^ 31 \<and>
     glyph_width (fb_console d) = 8 \<and> glyph_height (fb_console d) = 16"

lemma glyph_mask_bit:
  assumes "col < 8"
  shows "drop_bit col (0x80 :: u32) = push_bit (7 - col) 1"
proof -
  have "col \<in> {0, 1, 2, 3, 4, 5, 6, 7}" using assms by auto
  then show ?thesis by (elim insertE emptyE) (simp_all only:, code_simp+)
qed

lemma glyph_color_bit:
  assumes "col < 8"
  shows "glyph_color bits fg bg col = (if bit bits (7 - col) then fg else bg)"
proof -
  have "ucast bits AND push_bit (7 - col) (1 :: u32) = 0 \<longleftrightarrow> \<not> bit bits (7 - col)"
    using assms by (subst and_bit_eq_0_iff) (auto simp: bit_ucast_iff)
  then show ?thesis
    by (simp only: glyph_color_def glyph_mask_bit [OF assms] if_not_P) simp
qed

lemma write_rows_paint:
  fixes y st :: u32
  assumes "x + w \<le> unat st" and "0 < w" and "unat y + h \<le> H" and "H * unat st < 2 ^ 32" and "H < 2 ^ 32"
  shows "fold (\<lambda>row m. write_line (unat ((y + of_nat row) * st) + x) (color row) w m) [0..<h] mem =
    paint (unat st) x (unat y) w h color mem"
proof -
  have st: "0 < unat st" using assms(1,2) by linarith
  have "unat ((y + of_nat row) * st) + x = (unat y + row) * unat st + x" if "row < h" for row
  proof -
    have "unat y + row < H" using that assms(3) by linarith
    then have "(unat y + row) * unat st < 2 ^ 32"
      using assms(4) by (meson le_less_trans less_imp_le_nat mult_le_mono1)
    moreover have "unat y + row < 2 ^ 32" using \<open>unat y + row < H\<close> assms(5) by linarith
    ultimately show ?thesis by (subst unat_row_offset) simp_all
  qed
  then have "fold (\<lambda>row m. write_line (unat ((y + of_nat row) * st) + x) (color row) w m) [0..<h] mem =
    fold (\<lambda>row m. write_line ((unat y + row) * unat st + x) (color row) w m) [0..<h] mem"
    by (rule write_rows_cong)
  then show ?thesis
    using write_rows [OF assms(1) st, of "unat y" color h mem]
    by (simp add: paint_def in_rect_def fun_eq_iff)
qed

lemma paint_cong:
  assumes "\<And>row col. row < h \<Longrightarrow> col < w \<Longrightarrow> c1 row col = c2 row col"
  shows "paint s x y w h c1 mem = paint s x y w h c2 mem"
  using assms by (auto simp: paint_def in_rect_def fun_eq_iff less_diff_conv2)

definition glyph_pixel :: "u8 \<Rightarrow> u32 \<Rightarrow> u32 \<Rightarrow> nat \<Rightarrow> nat \<Rightarrow> u32" where
  "glyph_pixel c fg bg row col =
     (if bit (framebuffer_font_get_glyph (ucast c) ! row) (7 - col) then fg else bg)"

lemma draw_glyph_inside:
  assumes "fb_sound d" and "fbc_bpp (fb_console d) = 32"
    and "unat x + 8 \<le> unat (fbc_width (fb_console d))"
    and "unat y + 16 \<le> unat (fbc_height (fb_console d))"
  shows "framebuffer_console_draw_glyph c x y fg bg d =
    (True, d\<lparr>fbmem := paint (unat (fbc_stride (fb_console d))) (unat x) (unat y) 8 16
                       (glyph_pixel c fg bg) (fbmem d)\<rparr>)"
proof -
  let ?W = "fbc_width (fb_console d)" and ?H = "fbc_height (fb_console d)"
    and ?S = "fbc_stride (fb_console d)"
  have x: "unat (x + 8) = unat x + 8" and y: "unat (y + 16) = unat y + 16"
    using assms unat_add_le [of x 8 ?W] unat_add_le [of y 16 ?H] by simp_all
  have guards: "\<not> (?W \<le> x \<or> ?H \<le> y)" "\<not> (?W < x + 8 \<or> ?H < y + 16)"
    using assms x y by (simp_all add: word_le_nat_alt word_less_nat_alt)
  have "fold (\<lambda>row m. write_line (unat ((y + of_nat row) * ?S) + unat x)
          (glyph_color (framebuffer_font_get_glyph (ucast c) ! row) fg bg) 8 m) [0..<16] (fbmem d) =
    paint (unat ?S) (unat x) (unat y) 8 16
      (\<lambda>row. glyph_color (framebuffer_font_get_glyph (ucast c) ! row) fg bg) (fbmem d)"
    using assms by (intro write_rows_paint [where H = "unat ?H"]) (auto simp: fb_sound_def)
  also have "\<dots> = paint (unat ?S) (unat x) (unat y) 8 16 (glyph_pixel c fg bg) (fbmem d)"
    by (rule paint_cong) (simp add: glyph_color_bit glyph_pixel_def)
  finally show ?thesis
    using assms(1,2) guards
    by (simp add: framebuffer_console_draw_glyph_def Let_def fb_sound_def)
qed

lemma draw_glyph_outside:
  assumes "fb_sound d"
    and "\<not> (unat x + 8 \<le> unat (fbc_width (fb_console d)) \<and>
            unat y + 16 \<le> unat (fbc_height (fb_console d)))"
  shows "framebuffer_console_draw_glyph c x y fg bg d = (False, d)"
proof -
  let ?W = "fbc_width (fb_console d)" and ?H = "fbc_height (fb_console d)"
  have "?W < x + 8" if "x < ?W" "\<not> unat x + 8 \<le> unat ?W"
  proof -
    have "unat (x + 8) = unat x + 8"
      using that(1) assms(1) by (subst unat_add_nowrap) (auto simp: fb_sound_def word_less_nat_alt)
    then show ?thesis using that(2) by (simp add: word_less_nat_alt)
  qed
  moreover have "?H < y + 16" if "y < ?H" "\<not> unat y + 16 \<le> unat ?H"
  proof -
    have "unat (y + 16) = unat y + 16"
      using that(1) assms(1) by (subst unat_add_nowrap) (auto simp: fb_sound_def word_less_nat_alt)
    then show ?thesis using that(2) by (simp add: word_less_nat_alt)
  qed
  ultimately show ?thesis
    using assms by (auto simp: framebuffer_console_draw_glyph_def Let_def fb_sound_def not_le)
qed

text \<open>
  C31. Drawing a glyph on a sound 32-bit framebuffer: when the 8 by 16 cell at \<open>(x, y)\<close> lies on
  the screen, exactly the pixels of that cell change, each to the foreground or background colour
  the font bit selects; when any part of it would lie outside, nothing is drawn at all.
\<close>

theorem draw_glyph_correct:
  assumes "fb_sound d" and "fbc_bpp (fb_console d) = 32"
  shows "framebuffer_console_draw_glyph c x y fg bg d =
    (if unat x + 8 \<le> unat (fbc_width (fb_console d)) \<and>
        unat y + 16 \<le> unat (fbc_height (fb_console d))
     then (True, d\<lparr>fbmem := paint (unat (fbc_stride (fb_console d))) (unat x) (unat y) 8 16
                            (glyph_pixel c fg bg) (fbmem d)\<rparr>)
     else (False, d))"
  using draw_glyph_inside [OF assms] draw_glyph_outside [OF assms(1)] by auto

definition demo_fb :: framebuffer_console where
  "demo_fb = \<lparr>fbc_base = 0x80000000, fbc_size = 65536, fbc_width = 100, fbc_height = 40,
     fbc_stride = 128, fbc_bpp = 32, glyph_width = 8, glyph_height = 16\<rparr>"

definition demo_display :: display where
  "demo_display = \<lparr>screen_available = False, fb_console = demo_fb, fb_console_ready = True,
     fbmem = (\<lambda>_. 0)\<rparr>"

theorem draw_glyph_correct_witness:
  "fb_sound demo_display \<and>
   framebuffer_console_draw_glyph 65 9 16 0xFFFFFF 0 demo_display =
     (True, demo_display\<lparr>fbmem := paint 128 9 16 8 16 (glyph_pixel 65 0xFFFFFF 0) (\<lambda>_. 0)\<rparr>) \<and>
   framebuffer_console_draw_glyph 65 93 16 0xFFFFFF 0 demo_display = (False, demo_display)"
proof -
  have s: "fb_sound demo_display" by (simp add: fb_sound_def demo_display_def demo_fb_def)
  have b: "fbc_bpp (fb_console demo_display) = 32" by (simp add: demo_display_def demo_fb_def)
  show ?thesis
    using draw_glyph_correct [OF s b, of 65 9 16 "0xFFFFFF" 0]
      draw_glyph_correct [OF s b, of 65 93 16 "0xFFFFFF" 0] s
    by (simp add: demo_display_def demo_fb_def)
qed

end
