(* ===== verification/Machine.thy ===== *)
theory Machine
  imports Prelude
begin

text \<open>
  The machine the kernel runs on, as the C sources see it: I/O ports
  (\<^verbatim>\<open>src/cpu/ports.h\<close>) and the single instructions they issue through inline assembly.

  The devices behind the ports are not part of the sources.  They are an arbitrary function
  \<open>env\<close> from the whole history of port operations to the value the next read returns, so
  a theorem that does not mention \<open>env\<close> holds for every device.  The history itself is kept
  in \<open>trace\<close>, newest event first; what a driver routine did to the hardware is read off it.
  A theorem that relies on what a device does states that as a hypothesis on \<open>env\<close>.
  \<^verbatim>\<open>src/libc/system.c\<close> (\<open>shutdown\<close>) is here too: it is a port write and two instructions.
\<close>

datatype io_width = W8 | W16 | W32

datatype insn = Cli | Sti | Hlt | Lidt u64 u16 | Fninit

datatype io_event =
    Out8 u16 u8 | Out16 u16 u16 | Out32 u16 u32
  | In8 u16 u8 | In16 u16 u16 | In32 u16 u32
  | Insn insn
  | Sleep_ms u64

record machine =
  trace :: "io_event list"
  env :: "io_event list \<Rightarrow> io_width \<Rightarrow> u16 \<Rightarrow> u32"

definition log_event :: "io_event \<Rightarrow> machine \<Rightarrow> machine" where
  "log_event e m = m\<lparr>trace := e # trace m\<rparr>"

definition port_byte_in :: "u16 \<Rightarrow> machine \<Rightarrow> u8 \<times> machine" where
  "port_byte_in p m = (let v = ucast (env m (trace m) W8 p) in (v, log_event (In8 p v) m))"

definition port_byte_out :: "u16 \<Rightarrow> u8 \<Rightarrow> machine \<Rightarrow> machine" where
  "port_byte_out p v m = log_event (Out8 p v) m"

definition port_word_in :: "u16 \<Rightarrow> machine \<Rightarrow> u16 \<times> machine" where
  "port_word_in p m = (let v = ucast (env m (trace m) W16 p) in (v, log_event (In16 p v) m))"

definition port_word_out :: "u16 \<Rightarrow> u16 \<Rightarrow> machine \<Rightarrow> machine" where
  "port_word_out p v m = log_event (Out16 p v) m"

definition port_dword_in :: "u16 \<Rightarrow> machine \<Rightarrow> u32 \<times> machine" where
  "port_dword_in p m = (let v = env m (trace m) W32 p in (v, log_event (In32 p v) m))"

definition port_dword_out :: "u16 \<Rightarrow> u32 \<Rightarrow> machine \<Rightarrow> machine" where
  "port_dword_out p v m = log_event (Out32 p v) m"

definition insn :: "insn \<Rightarrow> machine \<Rightarrow> machine" where
  "insn i m = log_event (Insn i) m"

text \<open>
  \<open>shutdown\<close>: the argument of \<open>port_word_out\<close> is \<open>(char)0x2000\<close>, the low byte of \<open>0x2000\<close>,
  sign-extended to 16 bits.
\<close>

definition QEMU_ACPI_SHUTDOWN_PORT :: u16 where
  "QEMU_ACPI_SHUTDOWN_PORT = 0x604"

definition shutdown :: "machine \<Rightarrow> machine" where
  "shutdown m =
     insn Hlt (insn Cli (port_word_out QEMU_ACPI_SHUTDOWN_PORT (scast (ucast (0x2000 :: u32) :: u8)) m))"

named_theorems port_simps

lemmas port_defs = port_byte_in_def port_byte_out_def port_word_in_def port_word_out_def
  port_dword_in_def port_dword_out_def insn_def log_event_def

lemma env_log_event [simp]: "env (log_event e m) = env m"
  by (simp add: log_event_def)

lemma trace_log_event [simp]: "trace (log_event e m) = e # trace m"
  by (simp add: log_event_def)

lemma env_port_ops [simp]:
  "env (port_byte_out p v8 m) = env m" "env (snd (port_byte_in p m)) = env m"
  "env (port_word_out p v16 m) = env m" "env (snd (port_word_in p m)) = env m"
  "env (port_dword_out p v32 m) = env m" "env (snd (port_dword_in p m)) = env m"
  "env (insn i m) = env m"
  by (simp_all add: port_byte_in_def port_byte_out_def port_word_in_def port_word_out_def
      port_dword_in_def port_dword_out_def insn_def Let_def)

lemma trace_out [simp, port_simps]:
  "trace (port_byte_out p v8 m) = Out8 p v8 # trace m"
  "trace (port_word_out p v16 m) = Out16 p v16 # trace m"
  "trace (port_dword_out p v32 m) = Out32 p v32 # trace m"
  "trace (insn i m) = Insn i # trace m"
  by (simp_all add: port_byte_out_def port_word_out_def port_dword_out_def insn_def)

text \<open>
  \<open>shutdown\<close> writes zero to the ACPI port: the cast to \<open>char\<close> drops the sleep-enable bit
  of \<open>0x2000\<close>, so the write the comment-free code intends never reaches the device; the CPU
  then stops with interrupts off.
\<close>

theorem shutdown_writes_zero:
  "trace (shutdown m) = [Insn Hlt, Insn Cli, Out16 0x604 0] @ trace m"
  by (simp add: shutdown_def QEMU_ACPI_SHUTDOWN_PORT_def)

end
