(* ===== verification/Mem.thy ===== *)
theory Mem
  imports Prelude
begin

text \<open>
  \<^verbatim>\<open>src/libc/mem.c\<close>: the byte routines, the bump allocator \<open>kmalloc\<close> and the free-list
  allocator \<open>aligned_alloc\<close>/\<open>aligned_free\<close> over the static \<open>allocator_buffer\<close>.

  The allocation headers are a typed heap: \<open>hdr_size\<close> and \<open>hdr_next\<close> give the two fields of the
  \<open>AllocationHeader\<close> at an address; \<open>NULL\<close> is address 0.  The address of the buffer is chosen by
  the linker and is the field \<open>buf_base\<close>.  The search for a fit walks pointers to pointers
  (\<open>AllocationHeader **current\<close>), which are either the head of the list or the \<open>next_free\<close>
  field of a header; on a cyclic list it does not stop, so it is a \<open>partial_function\<close>.

  The contract is the locale \<open>block_allocator\<close>; its interpretation at the end of the theory
  shows that allocation with alignment 16, the one every caller in the kernel uses, implements it.
\<close>

section \<open>Byte routines\<close>

text \<open>\<open>d[i] = s[i]\<close> for ascending \<open>i\<close>, on one address space (the areas may overlap).\<close>

primrec memory_copy :: "nat \<Rightarrow> nat \<Rightarrow> nat \<Rightarrow> (nat \<Rightarrow> 'a) \<Rightarrow> (nat \<Rightarrow> 'a)" where
  "memory_copy d s 0 m = m"
| "memory_copy d s (Suc n) m = (let m1 = memory_copy d s n m in m1(d + n := m1 (s + n)))"

primrec memory_set :: "nat \<Rightarrow> 'a \<Rightarrow> nat \<Rightarrow> (nat \<Rightarrow> 'a) \<Rightarrow> (nat \<Rightarrow> 'a)" where
  "memory_set d v 0 m = m"
| "memory_set d v (Suc len) m = memory_set (Suc d) v len (m(d := v))"

function memory_compare_from :: "bytemem \<Rightarrow> bytemem \<Rightarrow> nat \<Rightarrow> nat \<Rightarrow> int" where
  "memory_compare_from a b n i =
     (if i < n
      then (if a i \<noteq> b i then (if a i < b i then -1 else 1) else memory_compare_from a b n (Suc i))
      else 0)"
  by pat_completeness auto
termination
  by (relation "measure (\<lambda>(a, b, n, i). n - i)") auto

declare memory_compare_from.simps [simp del]

definition memory_compare :: "bytemem \<Rightarrow> bytemem \<Rightarrow> nat \<Rightarrow> int" where
  "memory_compare a b n = memory_compare_from a b n 0"

section \<open>The bump allocator\<close>

definition free_mem_addr_init :: u32 where
  "free_mem_addr_init = 0x10000"

text \<open>
  \<open>kmalloc sz align phys_addr\<close> on the global \<open>free_mem_addr\<close>: the result, the address stored
  through a non-null \<open>phys_addr\<close>, and the new global (a 64-bit size added to a 32-bit global).
\<close>

definition kmalloc :: "u64 \<Rightarrow> int \<Rightarrow> bool \<Rightarrow> u32 \<Rightarrow> u32 \<times> u32 option \<times> u32" where
  "kmalloc sz align phys_addr addr =
     (let addr1 = (if align = 1 \<and> addr AND 0xFFFFF000 \<noteq> 0
                   then (addr AND 0xFFFFF000) + 0x1000 else addr);
          phys = (if phys_addr then Some addr1 else None);
          ret = addr1
      in (ret, phys, ucast (ucast addr1 + sz)))"

section \<open>The free-list allocator\<close>

definition ALLOCATOR_SIZE :: u64 where
  "ALLOCATOR_SIZE = 1024 * 512"

definition HEADER :: u64 where \<comment> \<open>\<open>sizeof(AllocationHeader)\<close>\<close>
  "HEADER = 16"

record heap =
  buf_base :: u64
  allocator_offset :: u64
  free_list :: u64
  hdr_size :: "u64 \<Rightarrow> u64"
  hdr_next :: "u64 \<Rightarrow> u64"

definition heap_init :: "u64 \<Rightarrow> heap" where
  "heap_init base = \<lparr>buf_base = base, allocator_offset = 0, free_list = 0,
     hdr_size = (\<lambda>_. 0), hdr_next = (\<lambda>_. 0)\<rparr>"

datatype link = Free_list | Next_free u64

primrec get_link :: "link \<Rightarrow> heap \<Rightarrow> u64" where
  "get_link Free_list h = free_list h"
| "get_link (Next_free a) h = hdr_next h a"

primrec set_link :: "link \<Rightarrow> u64 \<Rightarrow> heap \<Rightarrow> heap" where
  "set_link Free_list v h = h\<lparr>free_list := v\<rparr>"
| "set_link (Next_free a) v h = h\<lparr>hdr_next := (hdr_next h)(a := v)\<rparr>"

text \<open>
  The search loop: \<open>Some (Some l)\<close> when \<open>l\<close> points at the first block that is large enough,
  \<open>Some None\<close> at the end of the list, \<open>None\<close> when the loop never ends.
\<close>

partial_function (option) find_fit :: "u64 \<Rightarrow> link \<Rightarrow> heap \<Rightarrow> link option option" where
  "find_fit total_size l h =
     (if get_link l h = 0 then Some None
      else if total_size \<le> hdr_size h (get_link l h) then Some (Some l)
      else find_fit total_size (Next_free (get_link l h)) h)"

definition reuse_block :: "u64 \<Rightarrow> link \<Rightarrow> heap \<Rightarrow> u64 \<times> heap" where
  "reuse_block alignment l h =
     (let hdr = get_link l h;
          h1 = set_link l (hdr_next h hdr) h;
          raw_address = hdr + HEADER;
          aligned_address = (raw_address + (alignment - 1)) AND NOT (alignment - 1);
          padding = aligned_address - raw_address
      in if 0 < padding
         then let new_header = aligned_address - HEADER
              in (new_header + HEADER,
                  h1\<lparr>hdr_size := (hdr_size h1)(new_header := hdr_size h1 hdr - padding)\<rparr>)
         else (hdr + HEADER, h1))"

definition fresh_block :: "u64 \<Rightarrow> u64 \<Rightarrow> heap \<Rightarrow> u64 \<times> heap" where
  "fresh_block alignment total_size h =
     (let current_address = buf_base h + allocator_offset h;
          pad0 = (alignment - current_address mod alignment) mod alignment;
          header_padding = (if pad0 < HEADER then pad0 + alignment else pad0);
          hdr = current_address + header_padding
      in if ALLOCATOR_SIZE < allocator_offset h + header_padding + total_size then (0, h)
         else (hdr + HEADER,
               h\<lparr>allocator_offset := allocator_offset h + (header_padding + total_size),
                 hdr_size := (hdr_size h)(hdr := total_size)\<rparr>))"

definition aligned_alloc :: "u64 \<Rightarrow> u64 \<Rightarrow> heap \<Rightarrow> (u64 \<times> heap) option" where
  "aligned_alloc alignment0 sz h =
     (let alignment = (if alignment0 < 8 then 8 else alignment0)
      in if alignment AND (alignment - 1) \<noteq> 0 then Some (0, h)
         else let total_size = sz + HEADER
              in case find_fit total_size Free_list h of
                   None \<Rightarrow> None
                 | Some (Some l) \<Rightarrow> Some (reuse_block alignment l h)
                 | Some None \<Rightarrow> Some (fresh_block alignment total_size h))"

definition aligned_free :: "u64 \<Rightarrow> heap \<Rightarrow> heap" where
  "aligned_free ptr h =
     (if ptr = 0 then h
      else let hdr = ptr - HEADER
           in h\<lparr>hdr_next := (hdr_next h)(hdr := free_list h), free_list := hdr\<rparr>)"

text \<open>\<open>get_physical_address\<close>: the identity mapping.\<close>

definition get_physical_address :: "u64 \<Rightarrow> u64" where
  "get_physical_address virtual_address = virtual_address"

section \<open>Byte routines: lemmas\<close>

lemma memory_copy_outside: "i < d \<or> d + n \<le> i \<Longrightarrow> memory_copy d s n m i = m i"
  by (induction n) (auto simp: Let_def)

lemma memory_copy_inside:
  assumes "d \<le> s \<or> s + n \<le> d" and "i < n"
  shows "memory_copy d s n m (d + i) = m (s + i)"
  using assms
proof (induction n)
  case (Suc n)
  then have "memory_copy d s n m (s + n) = m (s + n)"
    by (intro memory_copy_outside) auto
  with Suc show ?case by (auto simp: Let_def less_Suc_eq)
qed simp

lemma memory_set_eq: "memory_set d v n m = store m d (replicate n v)"
  by (induction n arbitrary: d m) (simp_all add: store_Cons)

lemma memory_compare_from_eq:
  "i \<le> n \<Longrightarrow> memory_compare_from a b n i = 0 \<longleftrightarrow> (\<forall>k. i \<le> k \<and> k < n \<longrightarrow> a k = b k)"
proof (induction "n - i" arbitrary: i)
  case 0
  then show ?case by (subst memory_compare_from.simps) auto
next
  case (Suc j)
  have all: "(\<forall>k. i \<le> k \<and> k < n \<longrightarrow> a k = b k) \<longleftrightarrow>
      a i = b i \<and> (\<forall>k. Suc i \<le> k \<and> k < n \<longrightarrow> a k = b k)"
    using Suc.hyps(2) by (auto simp: Suc_le_eq) (metis le_neq_implies_less)
  show ?case
    unfolding all using Suc by (subst memory_compare_from.simps) auto
qed

section \<open>The bump allocator: lemmas\<close>

lemma and_not_mask_eq:
  fixes x :: "'a::len word"
  shows "x AND NOT (mask n) = push_bit n (drop_bit n x)"
  by (rule bit_word_eqI) (auto simp: bit_simps)

lemma unat_and_not_mask:
  fixes x :: "'a::len word"
  shows "unat (x AND NOT (mask n)) = unat x div 2 ^ n * 2 ^ n"
proof -
  have "unat x div 2 ^ n * 2 ^ n \<le> unat x" by simp
  then have "unat x div 2 ^ n * 2 ^ n < 2 ^ LENGTH('a)"
    by (rule le_less_trans) (rule unsigned_less)
  then show ?thesis
    by (simp add: and_not_mask_eq unsigned_push_bit_eq unat_drop_bit
        push_bit_eq_mult [of n "unat x div 2 ^ n"] take_bit_nat_eq_self)
qed

lemma page_mask: "0xFFFFF000 = NOT (mask 12 :: u32)"
  by (simp add: mask_eq_exp_minus_1)

lemma unat_page_base: "unat (addr AND 0xFFFFF000 :: u32) = unat addr div 4096 * 4096"
  unfolding page_mask unat_and_not_mask by simp

section \<open>The contract of an allocator\<close>

text \<open>
  \<open>inv h L\<close>: the allocator state \<open>h\<close> is consistent with the live blocks \<open>L\<close>, a map from block
  addresses to requested sizes.  A request is \<open>reasonable\<close> when adding a header to it cannot
  wrap around.
\<close>

definition reasonable :: "u64 \<Rightarrow> bool" where
  "reasonable n \<longleftrightarrow> unat n < 2 ^ 62"

definition apart :: "u64 \<Rightarrow> u64 \<Rightarrow> u64 \<Rightarrow> u64 \<Rightarrow> bool" where
  "apart p n q m \<longleftrightarrow> unat p + unat n \<le> unat q \<or> unat q + unat m \<le> unat p"

text \<open>A client that needs several objects asks for them one after the other.\<close>

primrec alloc_seq :: "(u64 \<Rightarrow> 'h \<Rightarrow> (u64 \<times> 'h) option) \<Rightarrow> u64 list \<Rightarrow> 'h \<Rightarrow> (u64 list \<times> 'h) option"
where
  "alloc_seq alloc [] h = Some ([], h)"
| "alloc_seq alloc (n # ns) h =
     (case alloc n h of None \<Rightarrow> None
      | Some (p, h1) \<Rightarrow> (case alloc_seq alloc ns h1 of None \<Rightarrow> None
          | Some (ps, h2) \<Rightarrow> Some (p # ps, h2)))"

locale block_allocator =
  fixes alloc :: "u64 \<Rightarrow> 'h \<Rightarrow> (u64 \<times> 'h) option"
    and dealloc :: "u64 \<Rightarrow> 'h \<Rightarrow> 'h"
    and inv :: "'h \<Rightarrow> (u64 \<Rightarrow> u64 option) \<Rightarrow> bool"
  assumes alloc_returns: "inv h L \<Longrightarrow> reasonable n \<Longrightarrow> \<exists>p h'. alloc n h = Some (p, h')"
    and alloc_null: "inv h L \<Longrightarrow> reasonable n \<Longrightarrow> alloc n h = Some (0, h') \<Longrightarrow> inv h' L"
    and alloc_new: "inv h L \<Longrightarrow> reasonable n \<Longrightarrow> alloc n h = Some (p, h') \<Longrightarrow> p \<noteq> 0 \<Longrightarrow>
      L p = None \<and> inv h' (L(p := Some n))"
    and dealloc_null: "dealloc 0 h = h"
    and dealloc_live: "inv h L \<Longrightarrow> L p = Some n \<Longrightarrow> inv (dealloc p h) (L(p := None))"
    and live_apart: "inv h L \<Longrightarrow> L p = Some n \<Longrightarrow> L q = Some m \<Longrightarrow> p \<noteq> q \<Longrightarrow> apart p n q m"
    and live_nonnull: "inv h L \<Longrightarrow> L p = Some n \<Longrightarrow> p \<noteq> 0"
begin

lemma alloc_step:
  assumes "inv h L" and "reasonable n"
  shows "\<exists>p h'. alloc n h = Some (p, h') \<and> (p = 0 \<or> L p = None) \<and>
    inv h' (if p = 0 then L else L(p := Some n))"
proof -
  obtain p h' where p: "alloc n h = Some (p, h')"
    using alloc_returns [OF assms] by blast
  show ?thesis
    using p alloc_null [OF assms] alloc_new [OF assms p] by (cases "p = 0") auto
qed

text \<open>
  Asking for a list of objects always returns; the objects that are not null are new, distinct,
  live afterwards and, by \<open>live_apart\<close>, do not overlap each other or any block that was live.
\<close>

lemma alloc_seq_live:
  assumes "inv h L" and "\<forall>n \<in> set ns. reasonable n"
  shows "\<exists>ps h' L'. alloc_seq alloc ns h = Some (ps, h') \<and> length ps = length ns \<and> inv h' L' \<and>
    (\<forall>p. L p \<noteq> None \<longrightarrow> L' p = L p) \<and>
    (\<forall>(p, n) \<in> set (zip ps ns). p \<noteq> 0 \<longrightarrow> L p = None \<and> L' p = Some n) \<and>
    distinct (filter (\<lambda>p. p \<noteq> 0) ps)"
  using assms
proof (induction ns arbitrary: h L)
  case (Cons n ns)
  then obtain p h1 where p: "alloc n h = Some (p, h1)" "p = 0 \<or> L p = None"
    and i1: "inv h1 (if p = 0 then L else L(p := Some n))"
    using alloc_step [of h L n] by auto
  let ?L1 = "if p = 0 then L else L(p := Some n)"
  obtain ps h2 L2 where ps: "alloc_seq alloc ns h1 = Some (ps, h2)" "length ps = length ns" "inv h2 L2"
    and keep: "\<And>q. ?L1 q \<noteq> None \<Longrightarrow> L2 q = ?L1 q"
    and new: "\<And>q m. (q, m) \<in> set (zip ps ns) \<Longrightarrow> q \<noteq> 0 \<Longrightarrow> ?L1 q = None \<and> L2 q = Some m"
    and dist: "distinct (filter (\<lambda>p. p \<noteq> 0) ps)"
    using Cons.IH [OF i1] Cons.prems by fastforce
  have old: "L2 q = L q" if "L q \<noteq> None" for q
    using keep [of q] p(2) that by (cases "q = p") (auto split: if_splits)
  have hd: "L2 p = Some n" if "p \<noteq> 0" using keep [of p] that by simp
  have "p \<notin> set ps" if "p \<noteq> 0"
    using new [of p] that ps(2) by (auto elim: in_set_impl_in_set_zip1 [of ps ns])
  with dist have "distinct (filter (\<lambda>p. p \<noteq> 0) (p # ps))" by simp
  moreover have "\<forall>(q, m) \<in> set (zip (p # ps) (n # ns)). q \<noteq> 0 \<longrightarrow> L q = None \<and> L2 q = Some m"
  proof -
    have "L q = None" if "?L1 q = None" for q
      using that by (auto split: if_splits)
    then show ?thesis using p(2) hd new by auto
  qed
  ultimately show ?case
    using p ps old by (intro exI [of _ "p # ps"] exI [of _ h2] exI [of _ L2]) simp
qed auto

end

section \<open>The invariant of the free-list allocator\<close>

primrec chain :: "(u64 \<Rightarrow> u64) \<Rightarrow> u64 \<Rightarrow> u64 list \<Rightarrow> bool" where
  "chain nxt p [] \<longleftrightarrow> p = 0"
| "chain nxt p (x # xs) \<longleftrightarrow> p = x \<and> x \<noteq> 0 \<and> chain nxt (nxt x) xs"

definition headers :: "u64 list \<Rightarrow> (u64 \<Rightarrow> u64 option) \<Rightarrow> u64 set" where
  "headers fl L = set fl \<union> (\<lambda>p. p - HEADER) ` dom L"

definition block_ok :: "heap \<Rightarrow> u64 \<Rightarrow> bool" where
  "block_ok h a \<longleftrightarrow> unat (buf_base h) \<le> unat a \<and> 16 \<le> unat (hdr_size h a) \<and>
     unat a + unat (hdr_size h a) \<le> unat (buf_base h) + unat (allocator_offset h) \<and> 16 dvd unat a"

definition heap_wf :: "heap \<Rightarrow> (u64 \<Rightarrow> u64 option) \<Rightarrow> u64 list \<Rightarrow> bool" where
  "heap_wf h L fl \<longleftrightarrow>
     0 < unat (buf_base h) \<and> unat (buf_base h) + 524288 < 2 ^ 64 \<and>
     unat (allocator_offset h) \<le> 524288 \<and>
     chain (hdr_next h) (free_list h) fl \<and> distinct fl \<and>
     (\<forall>a \<in> headers fl L. block_ok h a) \<and>
     (\<forall>a \<in> headers fl L. \<forall>b \<in> headers fl L. a \<noteq> b \<longrightarrow> apart a (hdr_size h a) b (hdr_size h b)) \<and>
     (\<forall>p n. L p = Some n \<longrightarrow> p - HEADER \<notin> set fl \<and> unat n + 16 \<le> unat (hdr_size h (p - HEADER)))"

definition heap_inv :: "heap \<Rightarrow> (u64 \<Rightarrow> u64 option) \<Rightarrow> bool" where
  "heap_inv h L \<longleftrightarrow> (\<exists>fl. heap_wf h L fl)"

lemma chain_upd: "a \<notin> set xs \<Longrightarrow> chain (nxt(a := v)) p xs = chain nxt p xs"
  by (induction xs arbitrary: p) auto

lemma chain_append_Cons:
  "chain nxt p (as @ x # bs) \<Longrightarrow> x \<noteq> 0 \<and> chain nxt (nxt x) bs"
  by (induction as arbitrary: p) auto

lemma chain_unlink:
  "chain nxt p (as @ y # x # bs) \<Longrightarrow> distinct (as @ y # x # bs) \<Longrightarrow>
   chain (nxt(y := nxt x)) p (as @ y # bs)"
  by (induction as arbitrary: p) (auto simp: chain_upd)

lemma find_fit_chain:
  assumes "chain (hdr_next h) (get_link l h) fl"
  shows "find_fit t l h = Some None \<or>
    (\<exists>as x bs l'. fl = as @ x # bs \<and> find_fit t l h = Some (Some l') \<and> get_link l' h = x \<and>
       t \<le> hdr_size h x \<and> l' = (if as = [] then l else Next_free (last as)))"
  using assms
proof (induction fl arbitrary: l)
  case Nil
  then show ?case by (subst find_fit.simps) simp
next
  case (Cons a fl)
  show ?case
  proof (cases "t \<le> hdr_size h a")
    case True
    then show ?thesis
      using Cons.prems by (subst (2) find_fit.simps) (auto intro!: exI [of _ "[]"] simp: find_fit.simps)
  next
    case False
    then have step: "find_fit t l h = find_fit t (Next_free a) h"
      using Cons.prems by (subst find_fit.simps) simp
    have "chain (hdr_next h) (get_link (Next_free a) h) fl"
      using Cons.prems by simp
    from Cons.IH [OF this] show ?thesis
      unfolding step
    proof (elim disjE exE conjE)
      fix as x bs l'
      assume "fl = as @ x # bs" "find_fit t (Next_free a) h = Some (Some l')" "get_link l' h = x"
        "t \<le> hdr_size h x" "l' = (if as = [] then Next_free a else Next_free (last as))"
      then show "find_fit t (Next_free a) h = Some None \<or>
        (\<exists>as x bs l'. a # fl = as @ x # bs \<and> find_fit t (Next_free a) h = Some (Some l') \<and>
           get_link l' h = x \<and> t \<le> hdr_size h x \<and> l' = (if as = [] then l else Next_free (last as)))"
        by (intro disjI2 exI [of _ "a # as"] exI [of _ x] exI [of _ bs] exI [of _ l']) auto
    qed simp
  qed
qed

text \<open>Unlinking the block found leaves a well-formed list without it.\<close>

lemma set_link_chain:
  assumes "chain (hdr_next h) (free_list h) (as @ x # bs)" and "distinct (as @ x # bs)"
    and "l = (if as = [] then Free_list else Next_free (last as))"
  shows "chain (hdr_next (set_link l (hdr_next h x) h)) (free_list (set_link l (hdr_next h x) h)) (as @ bs)"
proof (cases as rule: rev_cases)
  case Nil
  then show ?thesis using assms by auto
next
  case (snoc cs y)
  then show ?thesis
    using assms chain_unlink [of "hdr_next h" "free_list h" cs y x bs] by simp
qed

lemma set_link_frame [simp]:
  "hdr_size (set_link l v h) = hdr_size h" "buf_base (set_link l v h) = buf_base h"
  "allocator_offset (set_link l v h) = allocator_offset h"
  by (cases l; simp)+

text \<open>On a 16-byte aligned block there is no padding for alignment 16.\<close>

lemma align16_id:
  assumes "16 dvd unat (a :: u64)"
  shows "(a + (16 - 1)) AND NOT (16 - 1) = a"
proof -
  from assms obtain k where k: "unat a = 16 * k" by blast
  then have "unat (a + 15) = 16 * k + 15"
    using unat_u64_less [of a] by (subst unat_add_nowrap) auto
  then have "unat ((a + 15) AND NOT (mask 4)) = 16 * k"
    by (simp add: unat_and_not_mask)
  then have "(a + 15) AND NOT (mask 4) = a"
    using k by (simp add: word_unat_eq_iff)
  then show ?thesis by (simp add: mask_eq_exp_minus_1)
qed

lemma header_of_block: "HEADER = 16" "(p :: u64) + HEADER - HEADER = p" "p - HEADER + HEADER = p"
  by (simp_all add: HEADER_def)

lemma heap_wf_liveD:
  "heap_wf h L fl \<Longrightarrow> L p = Some n \<Longrightarrow>
   p - HEADER \<notin> set fl \<and> unat n + 16 \<le> unat (hdr_size h (p - HEADER)) \<and> block_ok h (p - HEADER)"
  by (auto simp: heap_wf_def headers_def)

lemma heap_wf_addr:
  assumes wf: "heap_wf h L fl" and live: "L p = Some n"
  shows "unat p = unat (p - HEADER) + 16"
proof -
  have "unat (p - HEADER) + unat HEADER < 2 ^ LENGTH(64)"
    using heap_wf_liveD [OF wf live] wf by (auto simp: heap_wf_def block_ok_def HEADER_def)
  then have "unat (p - HEADER + HEADER) = unat (p - HEADER) + unat HEADER"
    by (rule unat_add_nowrap)
  then show ?thesis by (simp add: HEADER_def)
qed

lemma heap_wf_reuse:
  assumes wf: "heap_wf h L (as @ x # bs)" and fits: "n + HEADER \<le> hdr_size h x" and "reasonable n"
    and l: "l = (if as = [] then Free_list else Next_free (last as))" and lx: "get_link l h = x"
  shows "\<exists>h'. reuse_block 16 l h = (x + HEADER, h') \<and> x + HEADER \<noteq> 0 \<and> L (x + HEADER) = None \<and>
    heap_wf h' (L(x + HEADER := Some n)) (as @ bs)"
proof -
  let ?h' = "set_link l (hdr_next h x) h"
  have ok: "block_ok h x" and lim: "unat (buf_base h) + 524288 < 2 ^ 64" "unat (allocator_offset h) \<le> 524288"
    using wf by (auto simp: heap_wf_def headers_def)
  then have x: "unat (x + HEADER) = unat x + 16" "16 dvd unat (x + HEADER)"
    by (auto simp: block_ok_def HEADER_def unat_add_nowrap intro!: dvd_add)
  have "reuse_block 16 l h = (x + HEADER, ?h')"
    using align16_id [OF x(2)] lx by (simp add: reuse_block_def Let_def)
  moreover have L0: "L (x + HEADER) = None"
    using heap_wf_liveD [OF wf, of "x + HEADER"] by (cases "L (x + HEADER)") (auto simp: header_of_block)
  moreover have "x + HEADER \<noteq> 0" using x(1) by (metis add_is_0 unat_0 zero_neq_numeral)
  moreover have "heap_wf ?h' (L(x + HEADER := Some n)) (as @ bs)"
  proof -
    have H: "headers (as @ bs) (L(x + HEADER := Some n)) = headers (as @ x # bs) L"
      using L0 by (auto simp: headers_def HEADER_def split: if_splits)
    have "unat (n + HEADER) = unat n + 16"
      using \<open>reasonable n\<close> by (simp add: reasonable_def HEADER_def unat_add_nowrap)
    then have "unat n + 16 \<le> unat (hdr_size h x)"
      using fits by (simp add: word_le_nat_alt)
    moreover have "chain (hdr_next ?h') (free_list ?h') (as @ bs)"
      using wf l by (intro set_link_chain) (auto simp: heap_wf_def)
    moreover have "p - HEADER = x \<longleftrightarrow> p = x + HEADER" for p :: u64
      by (auto simp: HEADER_def)
    ultimately show ?thesis
      using wf unfolding heap_wf_def H by (auto simp: block_ok_def HEADER_def)
  qed
  ultimately show ?thesis by blast
qed

lemma pad_to_16: "16 dvd c + ((16 - c mod 16) mod 16 + 16)" for c :: nat
proof -
  have "(c + (16 - c mod 16) mod 16) mod 16 = (c mod 16 + (16 - c mod 16)) mod 16"
    by (simp only: mod_add_left_eq mod_add_right_eq)
  also have "c mod 16 + (16 - c mod 16) = 16"
    using pos_mod_bound [of 16 "int c"] by simp
  finally have "16 dvd c + (16 - c mod 16) mod 16"
    by (simp add: mod_eq_0_iff_dvd)
  then show ?thesis
    by (metis add.assoc dvd_add dvd_refl)
qed

lemma fresh_padding:
  fixes cur :: u64
  defines "pad0 \<equiv> (16 - cur mod 16) mod 16"
  defines "hp \<equiv> (if pad0 < HEADER then pad0 + 16 else pad0)"
  shows "16 \<le> unat hp \<and> unat hp \<le> 31 \<and> 16 dvd (unat cur + unat hp)"
proof -
  have m: "unat (cur mod 16) = unat cur mod 16" by (simp add: unat_mod_distrib)
  then have "unat (16 - cur mod 16) = 16 - unat cur mod 16"
    by (subst unat_diff_le) (simp_all add: word_le_nat_alt)
  then have p: "unat pad0 = (16 - unat cur mod 16) mod 16"
    by (simp add: pad0_def unat_mod_distrib)
  then have "pad0 < HEADER" by (simp add: HEADER_def word_less_nat_alt)
  then have "unat hp = (16 - unat cur mod 16) mod 16 + 16"
    using p by (simp add: hp_def unat_add_nowrap)
  then show ?thesis
    using pad_to_16 [of "unat cur"] by (simp add: le_diff_conv2 Suc_le_eq [symmetric])
qed

lemma heap_wf_fresh:
  assumes wf: "heap_wf h L fl" and "reasonable n" and alloc: "fresh_block 16 (n + HEADER) h = (p, h')"
  shows "(p = 0 \<and> h' = h) \<or> (p \<noteq> 0 \<and> L p = None \<and> heap_wf h' (L(p := Some n)) fl)"
proof -
  define cur where "cur = buf_base h + allocator_offset h"
  define pad0 where "pad0 = (16 - cur mod 16) mod 16"
  define hp where "hp = (if pad0 < HEADER then pad0 + 16 else pad0)"
  define a where "a = cur + hp"
  have fb: "fresh_block 16 (n + HEADER) h =
      (if ALLOCATOR_SIZE < allocator_offset h + hp + (n + HEADER) then (0, h)
       else (a + HEADER, h\<lparr>allocator_offset := allocator_offset h + (hp + (n + HEADER)),
               hdr_size := (hdr_size h)(a := n + HEADER)\<rparr>))"
    by (simp only: fresh_block_def Let_def cur_def [symmetric] pad0_def [symmetric]
        hp_def [symmetric] a_def [symmetric])
  have lim: "0 < unat (buf_base h)" "unat (buf_base h) + 524288 < 2 ^ 64"
    "unat (allocator_offset h) \<le> 524288" using wf by (auto simp: heap_wf_def)
  have cur: "unat cur = unat (buf_base h) + unat (allocator_offset h)"
    using lim by (simp add: cur_def unat_add_nowrap)
  have hp: "16 \<le> unat hp" "unat hp \<le> 31" "16 dvd (unat cur + unat hp)"
    using fresh_padding [of cur, folded pad0_def, folded hp_def] by auto
  have n: "unat (n + HEADER) = unat n + 16" "unat n < 2 ^ 62"
    using \<open>reasonable n\<close> by (simp_all add: reasonable_def HEADER_def unat_add_nowrap)
  have tot: "unat (hp + (n + HEADER)) = unat hp + unat n + 16"
    using n hp by (simp add: unat_add_nowrap)
  have sum: "unat (allocator_offset h + (hp + (n + HEADER))) =
      unat (allocator_offset h) + unat hp + unat n + 16"
    using tot n hp lim by (simp add: unat_add_nowrap)
  show ?thesis
  proof (cases "ALLOCATOR_SIZE < allocator_offset h + hp + (n + HEADER)")
    case True
    then show ?thesis
      using alloc by (simp add: fb)
  next
    case False
    then have room: "unat (allocator_offset h) + unat hp + unat n + 16 \<le> 524288"
      using sum by (simp add: ALLOCATOR_SIZE_def word_less_nat_alt add.assoc)
    have a: "unat a = unat cur + unat hp" "16 dvd unat a" "unat (a + HEADER) = unat a + 16"
      using cur hp room lim by (simp_all add: a_def HEADER_def unat_add_nowrap)
    have p: "p = a + HEADER" and h': "h' = h\<lparr>allocator_offset := allocator_offset h + (hp + (n + HEADER)),
        hdr_size := (hdr_size h)(a := n + HEADER)\<rparr>"
      using alloc False by (simp_all add: fb)
    have below: "unat b + unat (hdr_size h b) \<le> unat cur" if "b \<in> headers fl L" for b
      using wf that cur by (auto simp: heap_wf_def block_ok_def)
    have new: "a \<notin> headers fl L"
      using below [of a] a hp by auto
    have L0: "L p = None"
    proof (rule ccontr)
      assume "L p \<noteq> None"
      then have "p - HEADER \<in> headers fl L" by (auto simp: headers_def)
      with new show False by (simp add: p header_of_block)
    qed
    have H: "headers fl (L(p := Some n)) = insert a (headers fl L)"
      using L0 by (auto simp: headers_def p HEADER_def split: if_splits)
    have ok: "block_ok h' b" if "b \<in> insert a (headers fl L)" for b
      using that wf new a cur hp n sum by (auto simp: heap_wf_def block_ok_def h')
    have ap: "apart b (hdr_size h' b) c (hdr_size h' c)"
      if "b \<in> insert a (headers fl L)" "c \<in> insert a (headers fl L)" "b \<noteq> c" for b c
      using that wf new below [of b] below [of c] a hp n by (auto simp: heap_wf_def apart_def h')
    have live: "q - HEADER \<notin> set fl \<and> unat m + 16 \<le> unat (hdr_size h' (q - HEADER))"
      if "(L(p := Some n)) q = Some m" for q m
      using that new heap_wf_liveD [OF wf, of q m] n
      by (auto simp: p h' header_of_block headers_def split: if_splits)
    have "heap_wf h' (L(p := Some n)) fl"
      unfolding heap_wf_def H using ok ap live wf sum room
      by (auto simp: h' heap_wf_def)
    moreover have "p \<noteq> 0" using p a(3) by (metis add_is_0 unat_0 zero_neq_numeral)
    ultimately show ?thesis using L0 by blast
  qed
qed

lemma aligned_alloc_16:
  "aligned_alloc 16 n h = (case find_fit (n + HEADER) Free_list h of
      None \<Rightarrow> None
    | Some (Some l) \<Rightarrow> Some (reuse_block 16 l h)
    | Some None \<Rightarrow> Some (fresh_block 16 (n + HEADER) h))"
  by (simp add: aligned_alloc_def Let_def)

lemma aligned_alloc_inv:
  assumes "heap_inv h L" and "reasonable n"
  shows "\<exists>p h'. aligned_alloc 16 n h = Some (p, h') \<and>
    ((p = 0 \<and> h' = h) \<or> (p \<noteq> 0 \<and> L p = None \<and> heap_inv h' (L(p := Some n))))"
proof -
  obtain fl where wf: "heap_wf h L fl" using assms(1) by (auto simp: heap_inv_def)
  then have "chain (hdr_next h) (get_link Free_list h) fl" by (simp add: heap_wf_def)
  from find_fit_chain [OF this, of "n + HEADER"] show ?thesis
  proof (elim disjE exE conjE)
    assume "find_fit (n + HEADER) Free_list h = Some None"
    then show ?thesis
      using heap_wf_fresh [OF wf assms(2)]
      by (cases "fresh_block 16 (n + HEADER) h") (auto simp: aligned_alloc_16 heap_inv_def)
  next
    fix as x bs l
    assume fl: "fl = as @ x # bs" and find: "find_fit (n + HEADER) Free_list h = Some (Some l)"
      and "get_link l h = x" "n + HEADER \<le> hdr_size h x"
      and "l = (if as = [] then Free_list else Next_free (last as))"
    then obtain h' where "reuse_block 16 l h = (x + HEADER, h')" "x + HEADER \<noteq> 0"
        "L (x + HEADER) = None" "heap_wf h' (L(x + HEADER := Some n)) (as @ bs)"
      using heap_wf_reuse [of h L as x bs n l] wf assms(2) by blast
    with find show ?thesis
      by (intro exI [of _ "x + HEADER"] exI [of _ h']) (auto simp: aligned_alloc_16 heap_inv_def)
  qed
qed

lemma aligned_free_inv:
  assumes "heap_inv h L" and "L p = Some n"
  shows "heap_inv (aligned_free p h) (L(p := None))"
proof -
  obtain fl where wf: "heap_wf h L fl" using assms(1) by (auto simp: heap_inv_def)
  let ?a = "p - HEADER"
  let ?h = "aligned_free p h"
  note live = heap_wf_liveD [OF wf assms(2)]
  have base: "0 < unat (buf_base h)" using wf by (simp add: heap_wf_def)
  then have a0: "?a \<noteq> 0" using live by (auto simp: block_ok_def)
  have "p \<noteq> 0"
  proof
    assume "p = 0"
    then have "unat ?a = 2 ^ 64 - 16" by (simp add: HEADER_def)
    with live wf show False by (auto simp: heap_wf_def block_ok_def)
  qed
  then have h: "hdr_next ?h = (hdr_next h)(?a := free_list h)" "free_list ?h = ?a"
    "hdr_size ?h = hdr_size h" "buf_base ?h = buf_base h" "allocator_offset ?h = allocator_offset h"
    by (simp_all add: aligned_free_def Let_def)
  have inj: "q - HEADER = ?a \<longleftrightarrow> q = p" for q by auto
  have H: "headers (?a # fl) (L(p := None)) = headers fl L"
    using assms(2) by (auto simp: headers_def inj image_iff dom_def)
  have "chain (hdr_next ?h) (free_list ?h) (?a # fl)"
    using wf live a0 by (simp add: heap_wf_def h chain_upd)
  then have "heap_wf ?h (L(p := None)) (?a # fl)"
    using wf live unfolding heap_wf_def H
    by (auto simp: h block_ok_def inj split: if_splits)
  then show ?thesis by (auto simp: heap_inv_def)
qed

lemma heap_inv_live_apart:
  assumes "heap_inv h L" and "L p = Some n" and "L q = Some m" and "p \<noteq> q"
  shows "apart p n q m"
proof -
  obtain fl where wf: "heap_wf h L fl" using assms(1) by (auto simp: heap_inv_def)
  let ?a = "p - HEADER" and ?b = "q - HEADER"
  note a = heap_wf_liveD [OF wf assms(2)] and b = heap_wf_liveD [OF wf assms(3)]
  have "?a \<in> headers fl L" "?b \<in> headers fl L" "?a \<noteq> ?b"
    using assms by (auto simp: headers_def)
  then have "apart ?a (hdr_size h ?a) ?b (hdr_size h ?b)"
    using wf by (auto simp: heap_wf_def)
  moreover have "unat p = unat ?a + 16" "unat q = unat ?b + 16"
    using heap_wf_addr [OF wf] assms by blast+
  ultimately show ?thesis
    using a b by (auto simp: apart_def)
qed

lemma heap_inv_live_range:
  assumes "heap_inv h L" and "L p = Some n"
  shows "unat (buf_base h) < unat p \<and> unat p + unat n \<le> unat (buf_base h) + 524288 \<and> 16 dvd unat p"
proof -
  obtain fl where wf: "heap_wf h L fl" using assms(1) by (auto simp: heap_inv_def)
  let ?a = "p - HEADER"
  note a = heap_wf_liveD [OF wf assms(2)]
  show ?thesis
    using a wf heap_wf_addr [OF wf assms(2)] by (auto simp: heap_wf_def block_ok_def intro: dvd_add)
qed

lemma heap_inv_init:
  "0 < base \<Longrightarrow> unat base + 524288 < 2 ^ 64 \<Longrightarrow> heap_inv (heap_init base) Map.empty"
  by (auto simp: heap_inv_def heap_wf_def heap_init_def headers_def word_less_nat_alt
      intro!: exI [of _ "[]"])

interpretation ha: block_allocator "aligned_alloc 16" aligned_free heap_inv
proof unfold_locales
  show "\<exists>p h'. aligned_alloc 16 n h = Some (p, h')" if "heap_inv h L" "reasonable n" for h L n
    using aligned_alloc_inv [OF that] by blast
  show "heap_inv h' L"
    if "heap_inv h L" "reasonable n" "aligned_alloc 16 n h = Some (0, h')" for h L n h'
    using aligned_alloc_inv [OF that(1,2)] that by auto
  show "L p = None \<and> heap_inv h' (L(p := Some n))"
    if "heap_inv h L" "reasonable n" "aligned_alloc 16 n h = Some (p, h')" "p \<noteq> 0" for h L n p h'
    using aligned_alloc_inv [OF that(1,2)] that by auto
  show "aligned_free 0 h = h" for h by (simp add: aligned_free_def)
  show "heap_inv (aligned_free p h) (L(p := None))" if "heap_inv h L" "L p = Some n" for h L p n
    using that by (rule aligned_free_inv)
  show "apart p n q m"
    if "heap_inv h L" "L p = Some n" "L q = Some m" "p \<noteq> q" for h L p n q m
    using that by (rule heap_inv_live_apart)
  show "p \<noteq> 0" if "heap_inv h L" "L p = Some n" for h L p n
    using heap_inv_live_range [OF that] by (metis not_less_zero unat_0)
qed

section \<open>Runs of the allocator\<close>

text \<open>
  Every state that a sequence of 16-byte aligned allocations and frees of live blocks can reach
  from the initial one, with the blocks that are live in it.
\<close>

inductive heap_run :: "u64 \<Rightarrow> heap \<Rightarrow> (u64 \<Rightarrow> u64 option) \<Rightarrow> bool" for base where
  start: "heap_run base (heap_init base) Map.empty"
| alloc: "heap_run base h L \<Longrightarrow> reasonable n \<Longrightarrow> aligned_alloc 16 n h = Some (p, h') \<Longrightarrow>
    heap_run base h' (if p = 0 then L else L(p := Some n))"
| free: "heap_run base h L \<Longrightarrow> L p = Some n \<Longrightarrow> heap_run base (aligned_free p h) (L(p := None))"
| free_null: "heap_run base h L \<Longrightarrow> heap_run base (aligned_free 0 h) L"

inductive_cases heap_run_initE: "heap_run base h Map.empty"

lemma heap_run_inv:
  assumes "heap_run base h L" and "0 < base" and "unat base + 524288 < 2 ^ 64"
  shows "heap_inv h L \<and> buf_base h = base"
  using assms(1)
proof (induction rule: heap_run.induct)
  case start
  show ?case using assms(2,3) by (simp add: heap_inv_init) (simp add: heap_init_def)
next
  case (alloc h L n p h')
  then have "buf_base h' = base"
    by (auto simp: aligned_alloc_16 reuse_block_def fresh_block_def Let_def
        split: option.splits if_splits)
  with alloc show ?case
    using ha.alloc_null [of h L n h'] ha.alloc_new [of h L n p h']
    by (cases "p = 0") (auto simp: fun_upd_def)
next
  case (free h L p n)
  then show ?case
    using ha.dealloc_live [of h L p n] by (auto simp: aligned_free_def Let_def fun_upd_def)
qed (simp add: ha.dealloc_null)

lemma pad_dvd:
  fixes c al :: nat
  assumes "0 < al"
  shows "al dvd c + (al - c mod al) mod al"
proof -
  have "(c + (al - c mod al) mod al) mod al = (c mod al + (al - c mod al)) mod al"
    by (simp only: mod_add_left_eq mod_add_right_eq)
  also have "c mod al + (al - c mod al) = al"
    using assms mod_less_divisor [of al c] by linarith
  finally show ?thesis by (simp add: mod_eq_0_iff_dvd)
qed

lemma find_fit_empty: "free_list h = 0 \<Longrightarrow> find_fit t Free_list h = Some None"
  by (subst find_fit.simps) simp

text \<open>On a one-element cycle whose block is too small the search never ends.\<close>

lemma find_fit_cycle:
  assumes "a \<noteq> 0" and "hdr_next h a = a" and "hdr_size h a < t" and "get_link l h = a"
  shows "find_fit t l h = None"
proof (rule ccontr)
  assume "find_fit t l h \<noteq> None"
  then obtain r where r: "find_fit t l h = Some r" by blast
  have "get_link l h \<noteq> a \<or> t \<le> hdr_size h a \<or> a = 0 \<or> hdr_next h a \<noteq> a"
  proof (rule find_fit.raw_induct [where P = "\<lambda>t l h r. get_link l h \<noteq> a \<or> t \<le> hdr_size h a \<or> a = 0 \<or>
        hdr_next h a \<noteq> a", OF _ r])
    fix f :: "u64 \<Rightarrow> link \<Rightarrow> heap \<Rightarrow> link option option" and t l h r
    assume IH: "\<And>t l h r. f t l h = Some r \<Longrightarrow> get_link l h \<noteq> a \<or> t \<le> hdr_size h a \<or> a = 0 \<or> hdr_next h a \<noteq> a"
      and eq: "(if get_link l h = 0 then Some None
        else if t \<le> hdr_size h (get_link l h) then Some (Some l) else f t (Next_free (get_link l h)) h) = Some r"
    show "get_link l h \<noteq> a \<or> t \<le> hdr_size h a \<or> a = 0 \<or> hdr_next h a \<noteq> a"
      using eq IH [of t "Next_free (get_link l h)" h r] by (auto split: if_splits)
  qed
  with assms show False by auto
qed

section \<open>Properties\<close>

text \<open>
  C1. Safety of the allocator: in every state reachable by 16-byte aligned allocations and frees,
  each live block lies inside \<open>allocator_buffer\<close>, is 16-byte aligned, and no two live blocks
  overlap.
\<close>

theorem allocator_blocks_safe:
  assumes "heap_run base h L" and "0 < base" and "unat base + 524288 < 2 ^ 64"
    and "L p = Some n"
  shows "unat base < unat p \<and> unat p + unat n \<le> unat base + 524288 \<and> 16 dvd unat p \<and>
    (\<forall>q m. L q = Some m \<and> q \<noteq> p \<longrightarrow> apart p n q m)"
proof -
  have inv: "heap_inv h L" and base: "buf_base h = base"
    using heap_run_inv [OF assms(1-3)] by auto
  show ?thesis
    using heap_inv_live_range [OF inv assms(4)] ha.live_apart [OF inv assms(4)] base by auto
qed

lemma first_alloc:
  "aligned_alloc 16 32 (heap_init 0x1000) =
     Some (0x1020, \<lparr>buf_base = 0x1000, allocator_offset = 64, free_list = 0,
       hdr_size = (\<lambda>_. 0)(0x1010 := 48), hdr_next = (\<lambda>_. 0)\<rparr>)"
  by (simp add: aligned_alloc_16 find_fit_empty heap_init_def fresh_block_def Let_def HEADER_def
      ALLOCATOR_SIZE_def)

theorem allocator_blocks_safe_witness:
  "\<exists>h. heap_run 0x1000 h [0x1020 \<mapsto> 32] \<and> unat (0x1000 :: u64) < unat (0x1020 :: u64) \<and>
    unat (0x1020 :: u64) + unat (32 :: u64) \<le> unat (0x1000 :: u64) + 524288"
proof -
  let ?h = "\<lparr>buf_base = 0x1000, allocator_offset = 64, free_list = 0,
       hdr_size = (\<lambda>_. 0)(0x1010 := 48), hdr_next = (\<lambda>_. 0)\<rparr> :: heap"
  have "heap_run 0x1000 ?h (if (0x1020 :: u64) = 0 then Map.empty else [0x1020 \<mapsto> 32])"
    by (rule heap_run.alloc [OF heap_run.start _ first_alloc]) (simp add: reasonable_def)
  then have run: "heap_run 0x1000 ?h [0x1020 \<mapsto> 32]" by simp
  show ?thesis
    using run allocator_blocks_safe [OF run, of "0x1020" 32] by auto
qed

text \<open>
  C25. A freed block is the first candidate for reuse: allocating no more than its size right
  after freeing it returns the same block, and the allocator state stays consistent.
\<close>

theorem free_then_alloc_reuses:
  assumes "heap_inv h L" and "L p = Some n" and "reasonable m" and "m \<le> n"
  shows "\<exists>h'. aligned_alloc 16 m (aligned_free p h) = Some (p, h') \<and> heap_inv h' (L(p := Some m))"
proof -
  obtain fl where wf: "heap_wf h L fl" using assms(1) by (auto simp: heap_inv_def)
  let ?h = "aligned_free p h"
  note live = heap_wf_liveD [OF wf assms(2)]
  have p0: "p \<noteq> 0" using ha.live_nonnull [OF assms(1,2)] .
  have h: "free_list ?h = p - HEADER" "hdr_size ?h = hdr_size h"
    using p0 by (simp_all add: aligned_free_def Let_def)
  have "p - HEADER \<noteq> 0" using live wf by (auto simp: block_ok_def heap_wf_def)
  moreover have "unat (m + HEADER) = unat m + 16"
    using \<open>reasonable m\<close> by (simp add: reasonable_def HEADER_def unat_add_nowrap)
  then have "m + HEADER \<le> hdr_size h (p - HEADER)"
    using live assms(4) by (simp add: word_le_nat_alt)
  ultimately have "find_fit (m + HEADER) Free_list ?h = Some (Some Free_list)"
    by (subst find_fit.simps) (simp add: h)
  moreover have "16 dvd unat p" using heap_inv_live_range [OF assms(1,2)] by simp
  then have "fst (reuse_block 16 Free_list ?h) = p"
    using align16_id [of p] by (simp add: reuse_block_def Let_def h header_of_block)
  ultimately obtain h' where a: "aligned_alloc 16 m ?h = Some (p, h')"
    by (cases "reuse_block 16 Free_list ?h") (auto simp: aligned_alloc_16)
  have "heap_inv ?h (L(p := None))" using assms by (intro ha.dealloc_live)
  from ha.alloc_new [OF this \<open>reasonable m\<close> a p0] a show ?thesis by simp
qed

theorem free_then_alloc_reuses_witness:
  "\<exists>h h'. heap_inv h [0x1020 \<mapsto> 32] \<and>
     aligned_alloc 16 8 (aligned_free 0x1020 h) = Some (0x1020, h') \<and> heap_inv h' [0x1020 \<mapsto> 8]"
proof -
  let ?h = "\<lparr>buf_base = 0x1000, allocator_offset = 64, free_list = 0,
       hdr_size = (\<lambda>_. 0)(0x1010 := 48), hdr_next = (\<lambda>_. 0)\<rparr> :: heap"
  have "heap_inv (heap_init 0x1000) Map.empty" by (rule heap_inv_init) simp_all
  then have inv: "heap_inv ?h [0x1020 \<mapsto> 32]"
    using ha.alloc_new [OF _ _ first_alloc] by (simp add: reasonable_def)
  show ?thesis
    using inv free_then_alloc_reuses [OF inv, of "0x1020" 32 8] by (auto simp: reasonable_def)
qed



text \<open>
  C27. Freeing a block twice makes the free list a cycle, and the next request that is larger than
  that block never returns.
\<close>

theorem double_free_diverges:
  assumes "p \<noteq> 0" and "p \<noteq> HEADER" and "hdr_size h (p - HEADER) < n + HEADER"
  shows "aligned_alloc 16 n (aligned_free p (aligned_free p h)) = None"
proof -
  let ?h = "aligned_free p (aligned_free p h)"
  have h: "free_list ?h = p - HEADER" "hdr_next ?h (p - HEADER) = p - HEADER" "hdr_size ?h = hdr_size h"
    using assms(1) by (simp_all add: aligned_free_def Let_def)
  have "find_fit (n + HEADER) Free_list ?h = None"
    using assms h by (intro find_fit_cycle [of "p - HEADER"]) simp_all
  then show ?thesis by (simp add: aligned_alloc_16)
qed

theorem double_free_diverges_witness:
  "aligned_alloc 16 64 (aligned_free 0x1020 (aligned_free 0x1020 (heap_init 0x1000))) = None"
  by (rule double_free_diverges) (simp_all add: heap_init_def HEADER_def)

text \<open>
  \<open>memory_copy\<close> is a correct move whenever the destination does not start inside the source
  area above its start: the destination receives the old source bytes and every other byte keeps
  its value.
\<close>

theorem memory_copy_correct:
  assumes "d \<le> s \<or> s + n \<le> d"
  shows "memory_copy d s n m = store m d (fetch m s n)"
proof
  fix i
  show "memory_copy d s n m i = store m d (fetch m s n) i"
  proof (cases "d \<le> i \<and> i < d + n")
    case True
    then have "i - d < n" "d + (i - d) = i" by auto
    with True show ?thesis
      using memory_copy_inside [OF assms, of "i - d" m] by (simp add: store_inside)
  next
    case False
    then show ?thesis by (subst memory_copy_outside) (auto simp: store_def)
  qed
qed

theorem memory_copy_correct_witness:
  "memory_copy 0 2 3 (\<lambda>i. of_nat i :: u8) = store (\<lambda>i. of_nat i) 0 [2, 3, 4]"
  using memory_copy_correct [of 0 2 3 "\<lambda>i. of_nat i :: u8"] by (simp add: fetch_def upt_conv_Cons)

text \<open>
  \<open>kmalloc\<close> with page alignment: above the first page the address is page aligned and lies
  strictly above the old mark, even when that was page aligned already (a whole page is then
  skipped), and the new mark is past the block when no wrap-around occurs.
\<close>

theorem kmalloc_page_aligned:
  assumes "0x1000 \<le> unat addr" and "unat addr + 0x1000 + unat sz < 2 ^ 32"
    and "kmalloc sz 1 True addr = (ret, phys, addr')"
  shows "unat ret = (unat addr div 4096 + 1) * 4096 \<and> phys = Some ret \<and> unat addr < unat ret \<and>
    unat addr' = unat ret + unat sz"
proof -
  have "4096 \<le> unat addr div 4096 * 4096" "unat addr div 4096 * 4096 \<le> unat addr"
    using assms(1) div_le_mono [of 4096 "unat addr" 4096] by simp_all
  then have "addr AND 0xFFFFF000 \<noteq> 0"
    using unat_page_base [of addr] by (metis not_numeral_le_zero unat_0)
  then have r: "ret = (addr AND 0xFFFFF000) + 0x1000" "phys = Some ret" "addr' = ucast (ucast ret + sz)"
    using assms(3) by (auto simp: kmalloc_def Let_def)
  have ret: "unat ret = (unat addr div 4096 + 1) * 4096"
    using assms(2) \<open>unat addr div 4096 * 4096 \<le> unat addr\<close>
    by (simp add: r unat_add_nowrap unat_page_base)
  then have "unat ret \<le> unat addr + 4096" using \<open>unat addr div 4096 * 4096 \<le> unat addr\<close> by simp
  then have "unat (ucast ret + sz :: u64) = unat ret + unat sz"
    using assms(2) by (subst unat_add_nowrap) (simp_all add: unsigned_ucast_eq take_bit_nat_eq_self)
  then have "unat addr' = unat ret + unat sz"
    using assms(2) \<open>unat ret \<le> unat addr + 4096\<close>
    by (simp add: r(3) unsigned_ucast_eq take_bit_nat_eq_self)
  moreover have "unat addr < unat ret"
    using ret mod_less_divisor [of 4096 "unat addr"] div_mult_mod_eq [of "unat addr" 4096] by simp
  ultimately show ?thesis using r ret by simp
qed

theorem kmalloc_page_aligned_witness:
  "unat (0x11000 :: u32) = (unat (0x10000 :: u32) div 4096 + 1) * 4096 \<and>
   kmalloc 8 1 True free_mem_addr_init = (0x11000, Some 0x11000, 0x11008)"
proof -
  have k: "kmalloc 8 1 True 0x10000 = (0x11000, Some 0x11000, 0x11008)"
    by (simp add: kmalloc_def Let_def)
  show ?thesis
    using k kmalloc_page_aligned [OF _ _ k] by (simp add: free_mem_addr_init_def)
qed

end
