(* ===== verification/Cstring.thy ===== *)
theory Cstring
  imports Prelude
begin

text \<open>
  \<^verbatim>\<open>src/libc/string.c\<close>: number-to-text conversions and the NUL-terminated string
  helpers, on byte memories (\<open>char str[]\<close> is the memory that starts at \<open>str\<close>).

  A loop that walks to a terminator is a \<open>partial_function\<close> whose value \<open>None\<close> means that the
  loop never stops; the lemmas show that it stops on every memory that holds a C string.
  The conversions are compared with \<open>radix_rev\<close>, the digits of a number in a given base with
  the least significant first: what each routine leaves in the caller's buffer is the reversal
  of that list, the terminator, and no other change outside the buffer.
\<close>

section \<open>Reference: positional notation\<close>

function radix_rev :: "nat \<Rightarrow> (nat \<Rightarrow> u8) \<Rightarrow> nat \<Rightarrow> u8 list" where
  "radix_rev b f n =
     f (n mod b) # (if 1 < b \<and> 0 < n div b then radix_rev b f (n div b) else [])"
  by pat_completeness auto
termination
  by (relation "measure (\<lambda>(b, f, n). n)") (auto simp: div_less_dividend div_greater_zero_iff)

declare radix_rev.simps [simp del]

definition radix_val :: "nat \<Rightarrow> (u8 \<Rightarrow> nat) \<Rightarrow> u8 list \<Rightarrow> nat" where
  "radix_val b g xs = foldr (\<lambda>d acc. g d + b * acc) xs 0"

definition dec_char :: "nat \<Rightarrow> u8" where
  "dec_char d = of_nat (d + 48)"

definition dec_value :: "u8 \<Rightarrow> nat" where
  "dec_value c = unat c - 48"

definition hex_digits :: "u8 list" where
  "hex_digits = lit ''0123456789ABCDEF''"

definition hex_char :: "nat \<Rightarrow> u8" where
  "hex_char d = hex_digits ! d"

definition hex_value :: "u8 \<Rightarrow> nat" where
  "hex_value c = (if c < 58 then unat c - 48 else unat c - 55)"

text \<open>Decimal text of a signed number, and the number a decimal text denotes.\<close>

definition decimal :: "int \<Rightarrow> u8 list" where
  "decimal n = (if n < 0 then 45 # rev (radix_rev 10 dec_char (nat (- n)))
     else rev (radix_rev 10 dec_char (nat n)))"

definition parse_decimal :: "u8 list \<Rightarrow> int" where
  "parse_decimal xs = (if xs \<noteq> [] \<and> hd xs = 45 then - int (radix_val 10 dec_value (rev (tl xs)))
     else int (radix_val 10 dec_value (rev xs)))"

section \<open>Walking a string\<close>

partial_function (option) strlen_from :: "bytemem \<Rightarrow> nat \<Rightarrow> nat option" where
  "strlen_from s i = (if s i \<noteq> 0 then strlen_from s (Suc i) else Some i)"

definition strlen :: "bytemem \<Rightarrow> nat option" where
  "strlen s = strlen_from s 0"

text \<open>The loop of \<open>reverse\<close>: swap \<open>s[i]\<close> and \<open>s[j]\<close> while \<open>i < j\<close>.\<close>

function reverse_loop :: "bytemem \<Rightarrow> int \<Rightarrow> int \<Rightarrow> bytemem" where
  "reverse_loop s i j =
     (if i < j
      then (let c = s (nat i); s1 = s(nat i := s (nat j)); s2 = s1(nat j := c)
            in reverse_loop s2 (i + 1) (j - 1))
      else s)"
  by pat_completeness auto
termination
  by (relation "measure (\<lambda>(s, i, j). nat (j - i))") auto

declare reverse_loop.simps [simp del]

definition reverse :: "bytemem \<Rightarrow> bytemem option" where
  "reverse s = (case strlen s of None \<Rightarrow> None | Some n \<Rightarrow> Some (reverse_loop s 0 (int n - 1)))"

definition append_c :: "bytemem \<Rightarrow> u8 \<Rightarrow> bytemem option" where
  "append_c s n = (case strlen s of None \<Rightarrow> None
     | Some len \<Rightarrow> Some ((s(len := n))(len + 1 := 0)))"

text \<open>
  \<open>backspace\<close> writes \<open>s[len-1]\<close>; on the empty string that is the byte before the buffer, which
  the result records as an out-of-bounds store.
\<close>

datatype str_error = Diverges | Store_before_buffer

definition backspace :: "bytemem \<Rightarrow> str_error + bytemem" where
  "backspace s = (case strlen s of None \<Rightarrow> Inl Diverges
     | Some len \<Rightarrow> if len = 0 then Inl Store_before_buffer else Inr (s(len - 1 := 0)))"

partial_function (option) strcmp_from :: "bytemem \<Rightarrow> bytemem \<Rightarrow> nat \<Rightarrow> int option" where
  "strcmp_from s1 s2 i =
     (if s1 i = s2 i then (if s1 i = 0 then Some 0 else strcmp_from s1 s2 (Suc i))
      else Some (sint (s1 i) - sint (s2 i)))"

definition strcmp :: "bytemem \<Rightarrow> bytemem \<Rightarrow> int option" where
  "strcmp s1 s2 = strcmp_from s1 s2 0"

section \<open>Number conversions\<close>

text \<open>
  \<open>int_to_ascii\<close>: the do-while loop stores the digits of \<open>n\<close>, least significant first.  The
  negation \<open>n = -n\<close> is taken at 32 bits (two's complement), so \<open>INT_MIN\<close> stays negative.
\<close>

definition neg32 :: "int \<Rightarrow> int" where
  "neg32 n = signed_take_bit 31 (- n)"

function itoa_loop :: "int \<Rightarrow> nat \<Rightarrow> bytemem \<Rightarrow> bytemem \<times> nat" where
  "itoa_loop n i str =
     (let str1 = str(i := word_of_int (cmod n 10 + 48)); n1 = cdiv n 10
      in if 0 < n1 then itoa_loop n1 (Suc i) str1 else (str1, Suc i))"
  by pat_completeness auto
termination
  by (relation "measure (\<lambda>(n, i, str). nat n)") (auto simp: cdiv_def split: if_splits)

declare itoa_loop.simps [simp del]

definition int_to_ascii :: "int \<Rightarrow> bytemem \<Rightarrow> bytemem option" where
  "int_to_ascii n str =
     (let sign = n; n1 = (if sign < 0 then neg32 n else n);
          (str1, i) = itoa_loop n1 0 str;
          (str2, i2) = (if sign < 0 then (str1(i := 45), Suc i) else (str1, i));
          str3 = str2(i2 := 0)
      in reverse str3)"

text \<open>\<open>uint_to_ascii\<close>: digits into \<open>temp\<close>, then copied back in reverse order.\<close>

function utoa_loop :: "u32 \<Rightarrow> nat \<Rightarrow> bytemem \<Rightarrow> bytemem \<times> nat" where
  "utoa_loop v i temp =
     (if 0 < v then utoa_loop (v div 10) (Suc i) (temp(i := 48 + ucast (v mod 10))) else (temp, i))"
  by pat_completeness auto
termination
proof (relation "measure (\<lambda>(v, i, temp). unat v)", simp, simp)
  fix v :: u32
  assume "0 < v"
  then show "unat (v div 10) < unat v"
    by (simp add: unat_div_distrib word_less_nat_alt)
qed

declare utoa_loop.simps [simp del]

primrec utoa_copy :: "nat \<Rightarrow> nat \<Rightarrow> bytemem \<Rightarrow> bytemem \<Rightarrow> bytemem \<times> nat" where
  "utoa_copy 0 j temp str = (str, j)"
| "utoa_copy (Suc i) j temp str = utoa_copy i (Suc j) temp (str(j := temp i))"

definition uint_to_ascii :: "u32 \<Rightarrow> bytemem \<Rightarrow> bytemem \<Rightarrow> bytemem" where
  "uint_to_ascii v temp str =
     (if v = 0 then (str(0 := 48))(1 := 0)
      else let (temp1, i) = utoa_loop v 0 temp; (str1, j) = utoa_copy i 0 temp1 str
           in str1(j := 0))"

text \<open>\<open>hex_to_string\<close>: sixteen digits, filled from the right (\<open>i\<close> counts down from 15).\<close>

primrec hex_fill :: "nat \<Rightarrow> u64 \<Rightarrow> bytemem \<Rightarrow> bytemem" where
  "hex_fill 0 v buf = buf"
| "hex_fill (Suc i) v buf =
     hex_fill i (drop_bit 4 v) (buf(i := hex_digits ! unat (v AND 15)))"

definition hex_to_string :: "u64 \<Rightarrow> bytemem \<Rightarrow> bytemem" where
  "hex_to_string v buf = (hex_fill 16 v buf)(16 := 0)"

text \<open>
  \<open>hex_to_string_trimmed\<close>: the same digits until the value is exhausted, then moved to the
  front of the buffer.  \<open>i\<close> may reach \<open>-1\<close>, so it is an \<open>int\<close>.
\<close>

function hext_fill :: "u64 \<Rightarrow> int \<Rightarrow> bytemem \<Rightarrow> bytemem \<times> int" where
  "hext_fill v i buf =
     (if 0 < v \<or> i = 15
      then hext_fill (drop_bit 4 v) (i - 1) (buf(nat i := hex_digits ! unat (v AND 15)))
      else (buf, i))"
  by pat_completeness auto
termination
proof (relation "measures [\<lambda>(v, i, buf). unat v, \<lambda>(v, i, buf). if i = 15 then 1 else 0]", simp)
  fix v :: u64 and i :: int and buf :: bytemem
  assume "0 < v \<or> i = 15"
  then show "((drop_bit 4 v, i - 1, buf(nat i := hex_digits ! unat (v AND 15))), v, i, buf)
    \<in> measures [\<lambda>(v, i, buf). unat v, \<lambda>(v, i, buf). if i = 15 then 1 else 0]"
    using unat_drop_bit_less [of v 4] by (cases "v = 0") auto
qed

declare hext_fill.simps [simp del]

function hext_move :: "int \<Rightarrow> nat \<Rightarrow> bytemem \<Rightarrow> bytemem \<times> nat" where
  "hext_move i start buf =
     (if i < 16 then hext_move (i + 1) (Suc start) (buf(start := buf (nat i))) else (buf, start))"
  by pat_completeness auto
termination
  by (relation "measure (\<lambda>(i, start, buf). nat (16 - i))") auto

declare hext_move.simps [simp del]

definition hex_to_string_trimmed :: "u64 \<Rightarrow> bytemem \<Rightarrow> bytemem" where
  "hex_to_string_trimmed v buf =
     (let (buf1, i) = hext_fill v 15 buf; (buf2, start) = hext_move (i + 1) 0 buf1
      in buf2(start := 0))"

section \<open>Positional notation: lemmas\<close>

lemma radix_rev_nonempty [simp]: "radix_rev b f n \<noteq> []"
  by (simp add: radix_rev.simps [of b f n])

lemma radix_rev_small: "n < b \<Longrightarrow> radix_rev b f n = [f n]"
  by (simp add: radix_rev.simps [of b f n])

lemma radix_rev_step: "1 < b \<Longrightarrow> b \<le> n \<Longrightarrow> radix_rev b f n = f (n mod b) # radix_rev b f (n div b)"
  by (simp add: radix_rev.simps [of b f n] div_greater_zero_iff)

lemma radix_rev_set:
  assumes "1 < b"
  shows "set (radix_rev b f n) \<subseteq> f ` {..<b}"
  using assms
proof (induction b f n rule: radix_rev.induct)
  case (1 b f n)
  then show ?case
    by (subst radix_rev.simps) (auto intro!: imageI)
qed

lemma radix_rev_length:
  assumes "1 < b" and "n < b ^ k" and "0 < k"
  shows "length (radix_rev b f n) \<le> k"
  using assms(2,3)
proof (induction k arbitrary: n)
  case (Suc k)
  show ?case
  proof (cases "n < b")
    case False
    with Suc.prems assms(1) have "n div b < b ^ k" and "0 < k"
      by (auto simp: div_less_iff_less_mult mult.commute intro: gr0I)
    with Suc.IH False assms(1) show ?thesis by (simp add: radix_rev_step)
  qed (simp add: radix_rev_small)
qed simp

lemma radix_val_rev:
  assumes "1 < b" and "\<And>d. d < b \<Longrightarrow> g (f d) = d"
  shows "radix_val b g (radix_rev b f n) = n"
proof (induction n rule: less_induct)
  case (less n)
  show ?case
  proof (cases "n < b")
    case False
    with assms(1) have "n div b < n" by (simp add: div_less_dividend)
    with less False assms show ?thesis
      by (simp add: radix_rev_step radix_val_def)
  qed (use assms in \<open>simp add: radix_rev_small radix_val_def\<close>)
qed

lemma radix_rev_nth:
  assumes "1 < b" and "k < length (radix_rev b f n)"
  shows "radix_rev b f n ! k = f (n div b ^ k mod b)"
  using assms(2)
proof (induction k arbitrary: n)
  case 0
  then show ?case by (simp add: radix_rev.simps [of b f n])
next
  case (Suc k)
  show ?case
  proof (cases "n < b")
    case False
    with Suc assms(1) show ?thesis by (simp add: radix_rev_step div_mult2_eq)
  qed (use Suc.prems in \<open>simp add: radix_rev_small\<close>)
qed

lemma radix_rev_beyond:
  assumes "1 < b" and "length (radix_rev b f n) \<le> k"
  shows "n div b ^ k = 0"
  using assms(2)
proof (induction k arbitrary: n)
  case (Suc k)
  show ?case
  proof (cases "n < b")
    case True
    then show ?thesis using assms(1) by (simp add: div_mult2_eq)
  next
    case False
    with Suc assms(1) show ?thesis by (simp add: radix_rev_step div_mult2_eq)
  qed
qed simp

lemma dec_value_char: "d < 10 \<Longrightarrow> dec_value (dec_char d) = d"
  by (simp add: dec_value_def dec_char_def unat_of_nat del: of_nat_add)

lemma dec_char_bounds: "d < 10 \<Longrightarrow> 48 \<le> unat (dec_char d) \<and> unat (dec_char d) \<le> 57"
  by (simp add: dec_char_def unat_of_nat del: of_nat_add)

lemma dec_char_nonzero: "d < 10 \<Longrightarrow> dec_char d \<noteq> 0"
  using dec_char_bounds [of d] by auto

lemma less16_cases:
  fixes d :: nat
  assumes "d < 16"
  shows "d \<in> {0, 1, 2, 3, 4, 5, 6, 7, 8, 9, 10, 11, 12, 13, 14, 15}"
  using assms by (simp only: insert_iff empty_iff) arith

lemma hex_char_values:
  "d < 16 \<Longrightarrow> hex_char d = (if d < 10 then of_nat (d + 48) else of_nat (d + 55))"
  using less16_cases [of d] by (auto simp: hex_char_def hex_digits_def lit_def of_char_def)

lemma hex_value_char: "d < 16 \<Longrightarrow> hex_value (hex_char d) = d"
  using less16_cases [of d] by (auto simp: hex_char_values hex_value_def)

lemma hex_char_nonzero: "d < 16 \<Longrightarrow> hex_char d \<noteq> 0"
  using less16_cases [of d] by (auto simp: hex_char_values)

lemma dec_no_nul: "0 \<notin> set (radix_rev 10 dec_char n)"
  using radix_rev_set [of 10 dec_char n] dec_char_nonzero by (auto simp: image_iff)

lemma hex_no_nul: "0 \<notin> set (radix_rev 16 hex_char n)"
  using radix_rev_set [of 16 hex_char n] hex_char_nonzero by (auto simp: image_iff)

section \<open>Strings: lemmas\<close>

lemma strlen_from_cstring:
  assumes "cstring m xs" and "i \<le> length xs"
  shows "strlen_from m i = Some (length xs)"
  using assms(2)
proof (induction "length xs - i" arbitrary: i)
  case 0
  then have "i = length xs" by simp
  with assms(1) show ?case by (subst strlen_from.simps) (simp add: cstring_end)
next
  case (Suc k)
  with assms(1) show ?case
    by (subst strlen_from.simps) (simp add: cstring_nth_nonzero)
qed

lemma strlen_cstring: "cstring m xs \<Longrightarrow> strlen m = Some (length xs)"
  by (simp add: strlen_def strlen_from_cstring)

lemma reverse_loop_eq:
  assumes "0 \<le> i"
  shows "reverse_loop s i j k =
    (if i \<le> int k \<and> int k \<le> j then s (nat (i + j - int k)) else s k)"
  using assms
proof (induction s i j rule: reverse_loop.induct)
  case (1 s i j)
  show ?case
  proof (cases "i < j")
    case True
    let ?s = "s(nat i := s (nat j), nat j := s (nat i))"
    have step: "reverse_loop s i j = reverse_loop ?s (i + 1) (j - 1)"
      using True by (subst reverse_loop.simps) (simp add: Let_def)
    have "reverse_loop ?s (i + 1) (j - 1) k =
      (if i + 1 \<le> int k \<and> int k \<le> j - 1 then ?s (nat (i + 1 + (j - 1) - int k)) else ?s k)"
      by (rule "1.IH" [OF True refl refl refl]) (use "1.prems" in simp)
    then show ?thesis
      unfolding step using True "1.prems" by (auto simp: nat_eq_iff)
  next
    case False
    then have "i \<le> int k \<and> int k \<le> j \<Longrightarrow> nat (i + j - int k) = k" by auto
    with False show ?thesis
      by (subst reverse_loop.simps) auto
  qed
qed

lemma reverse_cstring:
  assumes "cstring m xs"
  shows "\<exists>m'. reverse m = Some m' \<and> cstring m' (rev xs) \<and> (\<forall>k \<ge> length xs. m' k = m k)"
proof -
  let ?m' = "reverse_loop m 0 (int (length xs) - 1)"
  have *: "?m' k = (if k < length xs then m (length xs - 1 - k) else m k)" for k
    by (auto simp: reverse_loop_eq nat_diff_distrib' intro!: arg_cong [where f = m])
  have "cstring ?m' (rev xs)"
    using assms by (auto simp: cstring_def * rev_nth)
  moreover have "reverse m = Some ?m'"
    by (simp add: reverse_def strlen_cstring [OF assms])
  ultimately show ?thesis using * by auto
qed

lemma append_c_cstring:
  assumes "cstring m xs" and "c \<noteq> 0"
  shows "\<exists>m'. append_c m c = Some m' \<and> cstring m' (xs @ [c]) \<and> (\<forall>k \<ge> length xs + 2. m' k = m k)"
  using assms by (auto simp: append_c_def strlen_cstring cstring_def nth_append)

lemma backspace_cstring:
  assumes "cstring m xs"
  shows "backspace m = (if xs = [] then Inl Store_before_buffer else Inr (m(length xs - 1 := 0)))"
  using assms by (simp add: backspace_def strlen_cstring)

text \<open>\<open>strcmp\<close> compares the terminated strings byte by byte as signed characters.\<close>

lemma strcmp_from_cstring:
  assumes "cstring m1 xs" and "cstring m2 ys"
    and "take i xs = take i ys" and "i \<le> length xs" and "i \<le> length ys"
  shows "\<exists>r. strcmp_from m1 m2 i = Some r \<and> (r = 0 \<longleftrightarrow> xs = ys) \<and>
    (r < 0 \<longleftrightarrow> (map sint (drop i xs) @ [0], map sint (drop i ys) @ [0]) \<in> lexord {(a, b). a < b})"
  using assms(3-5)
proof (induction "length xs - i" arbitrary: i)
  case 0
  then have i: "i = length xs" by simp
  show ?case
  proof (cases "i = length ys")
    case True
    have "xs = ys"
      using "0.prems"(1) i True by (metis order_refl take_all)
    moreover have "m1 i = 0" "m2 i = 0"
      using i True assms(1,2) by (metis cstring_end)+
    ultimately show ?thesis
      using i by (subst strcmp_from.simps) simp
  next
    case False
    with "0.prems"(3) have i2: "i < length ys" by simp
    then have "m1 i = 0" and "m2 i = ys ! i" and "ys ! i \<noteq> 0"
      using i assms(1,2) cstring_end cstring_nth cstring_nth_nonzero by metis+
    moreover have "drop i ys = ys ! i # drop (Suc i) ys" and "xs \<noteq> ys"
      using i2 i by (auto simp: Cons_nth_drop_Suc)
    ultimately show ?thesis
      using i by (subst strcmp_from.simps) auto
  qed
next
  case (Suc k)
  then have i: "i < length xs" by simp
  then have x: "m1 i = xs ! i" "xs ! i \<noteq> 0" "drop i xs = xs ! i # drop (Suc i) xs"
    using cstring_nth [OF assms(1)] cstring_nth_nonzero [OF assms(1)]
    by (auto simp: Cons_nth_drop_Suc)
  show ?case
  proof (cases "i < length ys \<and> ys ! i = xs ! i")
    case True
    then have y: "m2 i = xs ! i" "drop i ys = xs ! i # drop (Suc i) ys"
      using cstring_nth [OF assms(2)] Cons_nth_drop_Suc [of i ys] by auto
    have "take (Suc i) xs = take (Suc i) ys"
      using Suc.prems i True by (simp add: take_Suc_conv_app_nth)
    with Suc(1) [of "Suc i"] Suc(2) i True x y show ?thesis
      by (subst strcmp_from.simps) simp
  next
    case False
    define b where "b = m2 i"
    have b: "b \<noteq> xs ! i" and d: "\<exists>zs. map sint (drop i ys) @ [0 :: int] = sint b # zs"
      using False Suc.prems assms(2) x
      by (cases "i = length ys"; auto simp: b_def cstring_def Cons_nth_drop_Suc [symmetric])+
    have "sint b \<noteq> sint (xs ! i)"
      using b word_eq_iff_signed [of b "xs ! i", where ?'a = int] by simp
    moreover have "xs \<noteq> ys" using False i by auto
    ultimately show ?thesis
      using b d x by (subst strcmp_from.simps) (auto simp: b_def [symmetric])
  qed
qed

section \<open>Conversions: lemmas\<close>

lemma itoa_loop_eq:
  "itoa_loop (int k) i str =
     (store str i (radix_rev 10 dec_char k), i + length (radix_rev 10 dec_char k))"
proof (induction k arbitrary: i str rule: less_induct)
  case (less k)
  have d: "word_of_int (cmod (int k) 10) + 48 = dec_char (k mod 10)"
  proof -
    have "cmod (int k) 10 = int (k mod 10)" by (simp add: cmod_nonneg zmod_int)
    then show ?thesis by (simp add: dec_char_def)
  qed
  have q: "cdiv (int k) 10 = int (k div 10)"
    by (simp add: cdiv_nonneg zdiv_int)
  show ?case
  proof (cases "k < 10")
    case True
    then show ?thesis
      by (subst itoa_loop.simps) (simp add: d q radix_rev_small store_Cons)
  next
    case False
    then have "k div 10 < k" and "0 < int (k div 10)" by simp_all
    then have "itoa_loop (int k) i str =
        itoa_loop (int (k div 10)) (Suc i) (str(i := dec_char (k mod 10)))"
      by (subst itoa_loop.simps) (simp only: d q Let_def if_True of_int_add of_int_numeral)
    also have "\<dots> = (store (str(i := dec_char (k mod 10))) (Suc i) (radix_rev 10 dec_char (k div 10)),
        Suc i + length (radix_rev 10 dec_char (k div 10)))"
      using \<open>k div 10 < k\<close> by (rule less.IH)
    finally show ?thesis
      using False by (simp add: radix_rev_step store_Cons)
  qed
qed

lemma utoa_loop_eq:
  assumes "0 < v"
  shows "utoa_loop v i temp =
    (store temp i (radix_rev 10 dec_char (unat v)), i + length (radix_rev 10 dec_char (unat v)))"
  using assms
proof (induction "unat v" arbitrary: v i temp rule: less_induct)
  case (less v)
  have d: "48 + ucast (v mod 10) = dec_char (unat v mod 10)"
    using of_nat_unat [of "v mod 10", where ?'a = u8] by (simp add: dec_char_def unat_mod_distrib)
  have q: "unat (v div 10) = unat v div 10" by (simp add: unat_div_distrib)
  show ?case
  proof (cases "unat v < 10")
    case True
    then have "v div 10 = 0" using q by (simp add: unat_eq_zero)
    then show ?thesis
      using less.prems True
      by (simp add: utoa_loop.simps [of v] utoa_loop.simps [of 0] d radix_rev_small store_Cons)
  next
    case False
    then have "0 < v div 10" and "unat (v div 10) < unat v"
      using q by (simp_all add: word_less_nat_alt)
    then show ?thesis
      using less.hyps less.prems False
      by (simp add: utoa_loop.simps [of v] d q radix_rev_step store_Cons)
  qed
qed

lemma utoa_copy_eq: "utoa_copy i j temp str = (store str j (rev (fetch temp 0 i)), j + i)"
  by (induction i arbitrary: j str) (simp_all add: store_Cons fetch_def)

lemma hex_fill_eq:
  "hex_fill i v buf k = (if k < i then hex_char (unat v div 16 ^ (i - 1 - k) mod 16) else buf k)"
proof (induction i arbitrary: v buf)
  case (Suc i)
  have m: "unat (v AND 15) = unat v mod 16"
    using unat_and_mask [of v 4] by (simp add: mask_eq_exp_minus_1)
  have d: "unat (drop_bit 4 v) div 16 ^ n = unat v div 16 ^ Suc n" for n
    by (simp add: unat_drop_bit div_mult2_eq)
  show ?case
  proof (cases "k < i")
    case True
    then have "Suc (i - 1 - k) = i - k" by simp
    with True show ?thesis using Suc.IH d [of "i - 1 - k"] by simp
  qed (use Suc.IH m in \<open>auto simp: hex_char_def less_Suc_eq\<close>)
qed simp

lemma hext_fill_eq:
  assumes "v \<noteq> 0 \<or> i = 15" and "length (radix_rev 16 hex_char (unat v)) \<le> nat (i + 1)" and "i \<le> 15"
  shows "hext_fill v i buf =
    (store buf (nat (i + 1) - length (radix_rev 16 hex_char (unat v)))
       (rev (radix_rev 16 hex_char (unat v))),
     i - int (length (radix_rev 16 hex_char (unat v))))"
  using assms
proof (induction "unat v" arbitrary: v i buf rule: less_induct)
  case (less v)
  let ?v = "drop_bit 4 v"
  let ?b = "buf(nat i := hex_char (unat v mod 16))"
  have m: "hex_digits ! unat (v AND 15) = hex_char (unat v mod 16)"
    using unat_and_mask [of v 4] by (simp add: mask_eq_exp_minus_1 hex_char_def)
  have q: "unat ?v = unat v div 16"
    by (simp add: unat_drop_bit)
  have i0: "0 \<le> i"
    using less.prems(2) by (cases "0 \<le> i") auto
  have step: "hext_fill v i buf = hext_fill ?v (i - 1) ?b"
    using less.prems(1) m by (auto simp: hext_fill.simps [of v i] word_neq_0_conv)
  show ?case
  proof (cases "unat v < 16")
    case True
    then have "?v = 0" using q by (simp add: unat_eq_zero)
    with True i0 show ?thesis
      using less.prems(3) step
      by (simp add: hext_fill.simps [of 0] radix_rev_small store_Cons nat_add_distrib)
  next
    case False
    let ?r = "radix_rev 16 hex_char (unat v div 16)"
    have v: "?v \<noteq> 0" "unat ?v < unat v" using q False by auto
    have r: "radix_rev 16 hex_char (unat v) = hex_char (unat v mod 16) # ?r"
      using False by (simp add: radix_rev_step)
    have "hext_fill ?v (i - 1) ?b = (store ?b (nat i - length ?r) (rev ?r), i - 1 - int (length ?r))"
      using less.hyps [of ?v "i - 1" ?b] v less.prems r q i0 by simp
    moreover have "store ?b (nat i - length ?r) (rev ?r) =
        store buf (nat (i + 1) - Suc (length ?r)) (rev ?r @ [hex_char (unat v mod 16)])"
    proof -
      have "nat (i + 1) = Suc (nat i)" and "length ?r \<le> nat i"
        using less.prems(2) r i0 by (simp_all add: nat_add_distrib)
      then show ?thesis by (simp add: store_snoc store_upd_outside)
    qed
    ultimately show ?thesis using step r i0 by simp
  qed
qed

lemma hext_move_eq:
  assumes "int start \<le> i" and "i \<le> 16"
  shows "hext_move i start buf =
    ((\<lambda>k. if start \<le> k \<and> k < start + nat (16 - i) then buf (k - start + nat i) else buf k),
     start + nat (16 - i))"
  using assms
proof (induction "nat (16 - i)" arbitrary: i start buf)
  case 0
  then show ?case by (subst hext_move.simps) (auto simp: fun_eq_iff)
next
  case (Suc n)
  then have "i < 16" by simp
  then have "hext_move i start buf = hext_move (i + 1) (Suc start) (buf(start := buf (nat i)))"
    by (subst hext_move.simps) simp
  also have "\<dots> = ((\<lambda>k. if Suc start \<le> k \<and> k < Suc start + nat (16 - (i + 1))
      then (buf(start := buf (nat i))) (k - Suc start + nat (i + 1))
      else (buf(start := buf (nat i))) k), Suc start + nat (16 - (i + 1)))"
    using Suc by (intro Suc.hyps(1)) auto
  also have "\<dots> = ((\<lambda>k. if start \<le> k \<and> k < start + nat (16 - i) then buf (k - start + nat i) else buf k),
     start + nat (16 - i))"
    using Suc.prems \<open>i < 16\<close>
    by (auto simp: fun_eq_iff nat_add_distrib intro!: arg_cong [where f = buf])
  finally show ?case .
qed

lemma store_terminated:
  "0 \<notin> set xs \<Longrightarrow> cstring ((store m 0 xs)(length xs := 0)) xs"
  by (auto simp: cstring_def store_inside)

lemma decimal_no_nul: "0 \<notin> set (decimal n)"
  by (simp add: decimal_def dec_no_nul)

lemma decimal_length: "\<bar>n\<bar> < 10 ^ 10 \<Longrightarrow> length (decimal n) \<le> 11"
  using radix_rev_length [of 10 "nat n" 10 dec_char] radix_rev_length [of 10 "nat (- n)" 10 dec_char]
  by (auto simp: decimal_def nat_less_iff)

lemma parse_decimal_decimal: "parse_decimal (decimal n) = n"
proof (cases "n < 0")
  case True
  then show ?thesis
    by (simp add: parse_decimal_def decimal_def radix_val_rev dec_value_char)
next
  case False
  let ?r = "radix_rev 10 dec_char (nat n)"
  have "hd (rev ?r) \<in> set ?r"
    using hd_in_set [of "rev ?r"] by simp
  then obtain d where "d < 10" "hd (rev ?r) = dec_char d"
    using radix_rev_set [of 10 dec_char "nat n"] by auto
  then have "hd (rev ?r) \<noteq> 45"
    using dec_char_bounds [of d] by auto
  with False show ?thesis
    by (simp add: parse_decimal_def decimal_def radix_val_rev dec_value_char)
qed

lemma int_to_ascii_decimal:
  assumes "- (2 ^ 31) < n" and "n < 2 ^ 31"
  shows "\<exists>m. int_to_ascii n str = Some m \<and> cstring m (decimal n) \<and>
    (\<forall>k > length (decimal n). m k = str k)"
proof -
  have neg: "n < 0 \<Longrightarrow> neg32 n = int (nat (- n))"
    using assms(1) unfolding neg32_def by (subst signed_take_bit_int_eq_self) auto
  let ?r = "radix_rev 10 dec_char (nat \<bar>n\<bar>)"
  let ?xs = "?r @ (if n < 0 then [45] else [])"
  let ?m = "(store str 0 ?xs)(length ?xs := 0)"
  have "int_to_ascii n str = reverse ?m"
    using itoa_loop_eq [of "nat \<bar>n\<bar>" 0 str] neg
    by (cases "n < 0") (simp_all add: int_to_ascii_def Let_def store_snoc)
  moreover have "cstring ?m ?xs"
    by (rule store_terminated) (simp add: dec_no_nul)
  moreover have "rev ?xs = decimal n" and "length ?xs = length (decimal n)"
    by (auto simp: decimal_def)
  moreover have "\<forall>k > length ?xs. ?m k = str k"
    by (auto simp: store_outside)
  ultimately show ?thesis
    using reverse_cstring [of ?m ?xs] by fastforce
qed

lemma uint_to_ascii_decimal:
  "cstring (uint_to_ascii v temp str) (decimal (uint v)) \<and>
   (\<forall>k > length (decimal (uint v)). uint_to_ascii v temp str k = str k)"
proof (cases "v = 0")
  case True
  then show ?thesis
    by (auto simp: uint_to_ascii_def decimal_def radix_rev_small dec_char_def cstring_def less_Suc_eq)
next
  case False
  let ?r = "radix_rev 10 dec_char (unat v)"
  have "fetch (store temp 0 ?r) 0 (length ?r) = ?r" by (rule fetch_store_same)
  moreover have "0 < v" using False by (simp add: word_neq_0_conv)
  ultimately have "uint_to_ascii v temp str = (store str 0 (rev ?r))(length (rev ?r) := 0)"
    using False by (simp add: uint_to_ascii_def utoa_loop_eq utoa_copy_eq)
  moreover have "decimal (uint v) = rev ?r"
    by (simp add: decimal_def)
  ultimately show ?thesis
    using store_terminated [of "rev ?r" str] by (simp add: dec_no_nul store_outside)
qed

lemma hex_digits_bound: "length (radix_rev 16 hex_char (unat (v :: u64))) \<le> 16"
  by (rule radix_rev_length) simp_all

lemma hex_to_string_padded:
  "cstring (hex_to_string v buf)
     (replicate (16 - length (radix_rev 16 hex_char (unat v))) 48 @ rev (radix_rev 16 hex_char (unat v)))"
proof -
  let ?r = "radix_rev 16 hex_char (unat v)"
  have z: "hex_char 0 = 48" by (simp add: hex_char_values)
  have "(replicate (16 - length ?r) 48 @ rev ?r) ! k = hex_char (unat v div 16 ^ (15 - k) mod 16)"
    if "k < 16" for k
  proof (cases "k < 16 - length ?r")
    case True
    then have "unat v div 16 ^ (15 - k) = 0"
      by (intro radix_rev_beyond [where f = hex_char]) auto
    with True z show ?thesis by (simp add: nth_append)
  next
    case False
    then have "15 - k < length ?r" "length ?r - Suc (k - (16 - length ?r)) = 15 - k"
      using that hex_digits_bound [of v] by auto
    with False that show ?thesis
      using hex_digits_bound [of v] by (simp add: nth_append rev_nth radix_rev_nth)
  qed
  then show ?thesis
    using hex_digits_bound [of v] hex_no_nul [of "unat v"]
    by (auto simp: cstring_def hex_to_string_def hex_fill_eq)
qed

lemma hex_to_string_trimmed_eq:
  "cstring (hex_to_string_trimmed v buf) (rev (radix_rev 16 hex_char (unat v))) \<and>
   (\<forall>k \<ge> 17. hex_to_string_trimmed v buf k = buf k)"
proof -
  let ?r = "radix_rev 16 hex_char (unat v)"
  let ?n = "length ?r"
  have n: "?n \<le> 16" "0 < ?n" using hex_digits_bound [of v] by auto
  have fill: "hext_fill v 15 buf = (store buf (16 - ?n) (rev ?r), 15 - int ?n)"
    using hext_fill_eq [of v 15 buf] n by simp
  define m where "m = store buf (16 - ?n) (rev ?r)"
  have "hex_to_string_trimmed v buf =
      (\<lambda>k. if k < ?n then m (k + (16 - ?n)) else m k)(?n := 0)"
    using n hext_move_eq [of 0 "16 - int ?n" m]
    by (simp add: hex_to_string_trimmed_def fill m_def [symmetric] nat_diff_distrib' cong: if_cong)
  moreover have "m (k + (16 - ?n)) = rev ?r ! k" if "k < ?n" for k
    using that n by (simp add: m_def store_inside)
  moreover have "m k = buf k" if "17 \<le> k" for k
    using that n by (simp add: m_def store_outside)
  ultimately show ?thesis
    using n hex_no_nul [of "unat v"] by (auto simp: cstring_def)
qed

section \<open>Properties\<close>

text \<open>
  C28. Round trip of \<open>int_to_ascii\<close>: for every 32-bit value except \<open>INT_MIN\<close> the routine
  returns, the caller's buffer holds a NUL-terminated decimal text of at most eleven characters
  that reads back as the number, and no byte after the terminator changes.
\<close>

theorem int_to_ascii_roundtrip:
  assumes "- (2 ^ 31) < n" and "n < 2 ^ 31"
  shows "\<exists>m xs. int_to_ascii n str = Some m \<and> cstring m xs \<and> parse_decimal xs = n \<and>
    length xs \<le> 11 \<and> (\<forall>k \<ge> 12. m k = str k)"
proof -
  obtain m where "int_to_ascii n str = Some m" "cstring m (decimal n)"
    "\<forall>k > length (decimal n). m k = str k"
    using int_to_ascii_decimal [OF assms] by blast
  moreover have "length (decimal n) \<le> 11"
    using assms by (intro decimal_length) simp
  ultimately show ?thesis
    by (intro exI [of _ m] exI [of _ "decimal n"]) (auto simp: parse_decimal_decimal)
qed

theorem int_to_ascii_roundtrip_witness:
  "\<exists>m xs. int_to_ascii (-42) (\<lambda>_. 7) = Some m \<and> cstring m xs \<and> parse_decimal xs = -42 \<and>
    length xs \<le> 11 \<and> m 12 = 7"
  using int_to_ascii_roundtrip [of "-42" "\<lambda>_. 7"] by auto



text \<open>
  C30. \<open>strcmp\<close> returns on every pair of C strings; its result is zero exactly for equal strings
  and negative exactly when the first terminated string precedes the second in the
  lexicographic order of signed characters.
\<close>

theorem strcmp_correct:
  assumes "cstring m1 xs" and "cstring m2 ys"
  shows "\<exists>r. strcmp m1 m2 = Some r \<and> (r = 0 \<longleftrightarrow> xs = ys) \<and>
    (r < 0 \<longleftrightarrow> (map sint xs @ [0], map sint ys @ [0]) \<in> lexord {(a, b). a < b})"
  using strcmp_from_cstring [OF assms, of 0] by (simp add: strcmp_def)

theorem strcmp_correct_witness:
  "\<exists>r. strcmp ((\<lambda>_. 0)(0 := 97)) ((\<lambda>_. 0)(0 := 98)) = Some r \<and>
     (r = 0 \<longleftrightarrow> [97 :: u8] = [98]) \<and>
     (r < 0 \<longleftrightarrow> (map sint [97 :: u8] @ [0 :: int], map sint [98 :: u8] @ [0]) \<in> lexord {(a, b). a < b})"
  by (rule strcmp_correct) (simp_all add: cstring_def)

end
