(* ===== verification/Screen.thy ===== *)
theory Screen
  imports Framebuffer Machine Mem Cstring
begin

text \<open>
  \<^verbatim>\<open>src/drivers/screen/screen.c\<close>: the text console, in VGA text mode and on the framebuffer.

  \<open>console\<close> is the state behind the file: the display of theory \<open>Framebuffer\<close>, the static
  \<open>fb_console_state\<close>, the flag \<open>screen_auto_cursor\<close>, the VGA text buffer (byte memory by physical
  address, the screen starting at \<open>VIDEO_ADDRESS\<close>) and the machine whose ports hold the VGA
  cursor.  \<open>ub\<close> is set when \<open>printf\<close> writes past its 256-byte stack buffer or consumes an
  argument that was not passed; C gives no meaning to what follows.

  A C string argument is the list of its bytes up to the terminator; a zero byte inside the list
  ends it, as it does in the C loop.  A C \<open>int\<close> is a HOL \<open>int\<close>, and \<open>(int)\<close> of a \<open>uint32_t\<close> is \<open>sint\<close>.
\<close>

section \<open>State\<close>

record fb_console_state =
  active :: bool
  cell_width :: u32
  cell_height :: u32
  cols :: u32
  rows :: u32
  cursor_col :: u32
  cursor_row :: u32
  fg_color :: u32
  bg_color :: u32

record console =
  disp :: display
  fbs :: fb_console_state
  screen_auto_cursor :: bool
  vram :: bytemem
  mach :: machine
  ub :: bool

definition fb_console_state_init :: fb_console_state where
  "fb_console_state_init = \<lparr>active = False, cell_width = 0, cell_height = 0, cols = 0, rows = 0,
     cursor_col = 0, cursor_row = 0, fg_color = 0x00FFFFFF, bg_color = 0x00000000\<rparr>"

definition VIDEO_ADDRESS :: int where "VIDEO_ADDRESS = 0xb8000"
definition MAX_ROWS :: int where "MAX_ROWS = 25"
definition MAX_COLS :: int where "MAX_COLS = 80"
definition WHITE_ON_BLACK :: u8 where "WHITE_ON_BLACK = 0x0f"
definition RED_ON_WHITE :: u8 where "RED_ON_WHITE = 0xf4"
definition REG_SCREEN_CTRL :: u16 where "REG_SCREEN_CTRL = 0x3d4"
definition REG_SCREEN_DATA :: u16 where "REG_SCREEN_DATA = 0x3d5"

text \<open>The byte at an offset from the start of the text buffer.\<close>

definition vaddr :: "int \<Rightarrow> nat" where
  "vaddr offset = nat (VIDEO_ADDRESS + offset)"

abbreviation ready :: "console \<Rightarrow> bool" where
  "ready c \<equiv> framebuffer_console_is_ready (disp c)"

section \<open>Flags and rectangles\<close>

definition con_set_available :: "bool \<Rightarrow> console \<Rightarrow> console" where
  "con_set_available available c = c\<lparr>disp := screen_set_available available (disp c)\<rparr>"

definition screen_is_available :: "console \<Rightarrow> bool" where
  "screen_is_available c \<longleftrightarrow> screen_available (disp c) \<or> ready c"

definition screen_draw_rect :: "u32 \<Rightarrow> u32 \<Rightarrow> u32 \<Rightarrow> u32 \<Rightarrow> u32 \<Rightarrow> console \<Rightarrow> bool \<times> console" where
  "screen_draw_rect x y width height color c =
     (case framebuffer_console_info (disp c) of
        None \<Rightarrow> (False, c)
      | Some fb \<Rightarrow>
          let max_x = (if fbc_width fb < x + width then fbc_width fb else x + width);
              max_y = (if fbc_height fb < y + height then fbc_height fb else y + height);
              mem = fold (\<lambda>row m. write_line (unat (of_nat row * fbc_stride fb) + unat x)
                            (\<lambda>_. color) (unat max_x - unat x) m)
                      [unat y..<unat max_y] (fbmem (disp c))
          in (True, c\<lparr>disp := (disp c)\<lparr>fbmem := mem\<rparr>\<rparr>))"

definition set_auto_cursor :: "bool \<Rightarrow> console \<Rightarrow> console" where
  "set_auto_cursor auto_cursor c = c\<lparr>screen_auto_cursor := auto_cursor\<rparr>"

definition get_auto_cursor :: "console \<Rightarrow> bool" where
  "get_auto_cursor c = screen_auto_cursor c"

section \<open>The framebuffer text console\<close>

definition fb_console_use :: "console \<Rightarrow> bool \<times> console" where
  "fb_console_use c =
     (let inactive = c\<lparr>fbs := (fbs c)\<lparr>active := False\<rparr>\<rparr> in
      if \<not> ready c then (False, inactive)
      else case framebuffer_console_info (disp c) of
        None \<Rightarrow> (False, inactive)
      | Some fb \<Rightarrow>
          let glyph_w = glyph_width fb; glyph_h = glyph_height fb in
          if glyph_w = 0 \<or> glyph_h = 0 then (False, inactive)
          else let cw = glyph_w + 1; ch = glyph_h; cs = fbc_width fb div cw; rs = fbc_height fb div ch in
          if cs = 0 \<or> rs = 0 then (False, inactive)
          else let s = fbs c;
                   s1 = (if \<not> active s
                         then s\<lparr>cursor_col := 0, cursor_row := 0, fg_color := 0x00FFFFFF,
                                bg_color := 0x00000000\<rparr>
                         else s\<lparr>cursor_col := (if cs \<le> cursor_col s then cs - 1 else cursor_col s),
                                cursor_row := (if rs \<le> cursor_row s then rs - 1 else cursor_row s)\<rparr>)
               in (True, c\<lparr>fbs := s1\<lparr>cell_width := cw, cell_height := ch, cols := cs, rows := rs,
                                      active := True\<rparr>\<rparr>))"

text \<open>The test \<open>framebuffer_console_is_ready() && fb_console_use()\<close> every routine starts with.\<close>

definition fb_mode :: "console \<Rightarrow> bool \<times> console" where
  "fb_mode c = (if ready c then fb_console_use c else (False, c))"

definition fb_console_fill_rect :: "u32 \<Rightarrow> u32 \<Rightarrow> u32 \<Rightarrow> u32 \<Rightarrow> u32 \<Rightarrow> console \<Rightarrow> console" where
  "fb_console_fill_rect x y width height color c =
     (case framebuffer_console_info (disp c) of
        None \<Rightarrow> c
      | Some fb \<Rightarrow>
          if width = 0 \<or> height = 0 then c
          else if fbc_width fb \<le> x \<or> fbc_height fb \<le> y then c
          else let w = (if fbc_width fb < x + width then fbc_width fb - x else width);
                   h = (if fbc_height fb < y + height then fbc_height fb - y else height);
                   mem = fold (\<lambda>row m. write_line (unat ((y + of_nat row) * fbc_stride fb) + unat x)
                                 (\<lambda>_. color) (unat w) m)
                           [0..<unat h] (fbmem (disp c))
               in c\<lparr>disp := (disp c)\<lparr>fbmem := mem\<rparr>\<rparr>)"

definition fb_console_clear :: "console \<Rightarrow> console" where
  "fb_console_clear c =
     (let (use, c1) = fb_console_use c in
      if \<not> use then c1
      else let width = cols (fbs c1) * cell_width (fbs c1);
               height = rows (fbs c1) * cell_height (fbs c1);
               c2 = fb_console_fill_rect 0 0 width height (bg_color (fbs c1)) c1
           in c2\<lparr>fbs := (fbs c2)\<lparr>cursor_col := 0, cursor_row := 0\<rparr>\<rparr>)"

definition copy_lines :: "u32 \<Rightarrow> u32 \<Rightarrow> nat \<Rightarrow> nat \<Rightarrow> (nat \<Rightarrow> u32) \<Rightarrow> (nat \<Rightarrow> u32)" where
  "copy_lines stride step n w mem =
     fold (\<lambda>y m. memory_copy (unat (of_nat y * stride)) (unat ((of_nat y + step) * stride)) w m)
       [0..<n] mem"

definition fb_console_scroll :: "console \<Rightarrow> console" where
  "fb_console_scroll c =
     (let (use, c1) = fb_console_use c in
      if \<not> use then c1
      else case framebuffer_console_info (disp c1) of
        None \<Rightarrow> c1
      | Some fb \<Rightarrow>
          let cs = cols (fbs c1); rs = rows (fbs c1) in
          if cs = 0 \<or> rs = 0 then c1
          else let active_width = cs * cell_width (fbs c1); step = cell_height (fbs c1) in
          if active_width = 0 \<or> step = 0 then c1
          else let copy_height = (rs - 1) * step;
                   m1 = copy_lines (fbc_stride fb) step (unat copy_height) (unat active_width)
                          (fbmem (disp c1));
                   m2 = fold (\<lambda>y m. write_line (unat (of_nat y * fbc_stride fb))
                                (\<lambda>_. bg_color (fbs c1)) (unat active_width) m)
                          [unat copy_height..<min (unat (copy_height + step)) (unat (fbc_height fb))] m1
               in c1\<lparr>disp := (disp c1)\<lparr>fbmem := m2\<rparr>,
                     fbs := (fbs c1)\<lparr>cursor_row := rs - 1, cursor_col := 0\<rparr>\<rparr>)"

text \<open>The three parts of \<open>fb_console_print_char\<close>: draw the cell, then wrap, scroll and move the cursor.\<close>

definition fb_console_draw_cell :: "u8 \<Rightarrow> int \<Rightarrow> int \<Rightarrow> framebuffer_console \<Rightarrow> console \<Rightarrow> console" where
  "fb_console_draw_cell ch col row fb c =
     (let px = word_of_int col * cell_width (fbs c);
          py = word_of_int row * cell_height (fbs c);
          glyph = (if ch = 0 then 32 else ch);
          c1 = c\<lparr>disp := snd (framebuffer_console_draw_glyph glyph px py (fg_color (fbs c))
                                (bg_color (fbs c)) (disp c))\<rparr>
      in if glyph_width fb < cell_width (fbs c)
         then fb_console_fill_rect (px + glyph_width fb) py (cell_width (fbs c) - glyph_width fb)
                (cell_height (fbs c)) (bg_color (fbs c)) c1
         else c1)"

definition fb_console_finish :: "int \<Rightarrow> int \<Rightarrow> int \<Rightarrow> int \<Rightarrow> console \<Rightarrow> int \<times> console" where
  "fb_console_finish cs rs col row c =
     (let (c1, row) = (if rs \<le> row then (fb_console_scroll c, rs - 1) else (c, row))
      in (2 * (row * cs + col),
          c1\<lparr>fbs := (fbs c1)\<lparr>cursor_col := (if col < 0 then 0 else word_of_int col),
                             cursor_row := (if row < 0 then 0 else word_of_int row)\<rparr>\<rparr>))"

definition fb_console_print_char :: "u8 \<Rightarrow> int \<Rightarrow> int \<Rightarrow> console \<Rightarrow> int \<times> console" where
  "fb_console_print_char ch col row c =
     (let (use, c1) = fb_console_use c in
      if \<not> use then (0, c1)
      else let (col, row) = (if col < 0 \<or> row < 0
                             then (sint (cursor_col (fbs c1)), sint (cursor_row (fbs c1)))
                             else (col, row));
               cs = sint (cols (fbs c1)); rs = sint (rows (fbs c1)) in
      if cs \<le> 0 \<or> rs \<le> 0 then (0, c1)
      else case framebuffer_console_info (disp c1) of
        None \<Rightarrow> (0, c1)
      | Some fb \<Rightarrow>
          let (c2, col, row) =
                (if ch = 10 then (c1, 0, row + 1)
                 else (fb_console_draw_cell ch col row fb c1, col + 1, row));
              (col, row) = (if cs \<le> col then (0, row + 1) else (col, row))
          in fb_console_finish cs rs col row c2)"

section \<open>Offsets and the cursor\<close>

definition get_offset :: "int \<Rightarrow> int \<Rightarrow> console \<Rightarrow> int \<times> console" where
  "get_offset col row c =
     (let (use, c1) = fb_mode c in
      if use
      then let col = (if col < 0 then 0 else col); row = (if row < 0 then 0 else row);
               cs = sint (cols (fbs c1)); rs = sint (rows (fbs c1)) in
           if cs \<le> 0 \<or> rs \<le> 0 then (0, c1)
           else let col = (if cs \<le> col then cs - 1 else col); row = (if rs \<le> row then rs - 1 else row)
                in (2 * (row * cs + col), c1)
      else (2 * (row * MAX_COLS + col), c1))"

definition get_vga_offset_row :: "int \<Rightarrow> console \<Rightarrow> int \<times> console" where
  "get_vga_offset_row offset c =
     (let (use, c1) = fb_mode c in
      if use
      then let cs = sint (cols (fbs c1)) in
           if cs \<le> 0 then (0, c1) else (cdiv (cdiv offset 2) cs, c1)
      else (cdiv offset (2 * MAX_COLS), c1))"

definition get_vga_offset_col :: "int \<Rightarrow> console \<Rightarrow> int \<times> console" where
  "get_vga_offset_col offset c =
     (let (use, c1) = fb_mode c in
      if use
      then let cs = sint (cols (fbs c1)) in
           if cs \<le> 0 then (0, c1) else (cmod (cdiv offset 2) cs, c1)
      else let (r, c2) = get_vga_offset_row offset c1
           in (cdiv (offset - r * 2 * MAX_COLS) 2, c2))"

definition get_cursor_offset :: "console \<Rightarrow> int \<times> console" where
  "get_cursor_offset c =
     (let (use, c1) = fb_mode c in
      if use
      then let cs = sint (cols (fbs c1)) in
           if cs \<le> 0 then (0, c1)
           else (sint (cursor_row (fbs c1) * cols (fbs c1) + cursor_col (fbs c1)) * 2, c1)
      else if \<not> screen_available (disp c1) then (0, c1)
      else let m1 = port_byte_out REG_SCREEN_CTRL 14 (mach c1);
               (hi, m2) = port_byte_in REG_SCREEN_DATA m1;
               m3 = port_byte_out REG_SCREEN_CTRL 15 m2;
               (lo, m4) = port_byte_in REG_SCREEN_DATA m3
           in ((uint hi * 256 + uint lo) * 2, c1\<lparr>mach := m4\<rparr>))"

definition set_cursor_offset :: "int \<Rightarrow> console \<Rightarrow> console" where
  "set_cursor_offset offset c =
     (let (use, c1) = fb_mode c in
      if use
      then let offset = (if offset < 0 then 0 else offset); cs = sint (cols (fbs c1)) in
           if cs \<le> 0 then c1
           else let index = cdiv offset 2; row = cdiv index cs; col = cmod index cs;
                    row = (if row < 0 then 0 else row); col = (if col < 0 then 0 else col);
                    row = (if sint (rows (fbs c1)) \<le> row then sint (rows (fbs c1)) - 1 else row);
                    col = (if cs \<le> col then cs - 1 else col)
                in c1\<lparr>fbs := (fbs c1)\<lparr>cursor_row := word_of_int row, cursor_col := word_of_int col\<rparr>\<rparr>
      else if \<not> screen_available (disp c1) then c1
      else let pos = cdiv offset 2;
               m1 = port_byte_out REG_SCREEN_CTRL 14 (mach c1);
               m2 = port_byte_out REG_SCREEN_DATA (word_of_int (pos div 256)) m1;
               m3 = port_byte_out REG_SCREEN_CTRL 15 m2;
               m4 = port_byte_out REG_SCREEN_DATA (word_of_int (pos mod 256)) m3
           in c1\<lparr>mach := m4\<rparr>)"

section \<open>Printing\<close>

definition vga_scroll :: "bytemem \<Rightarrow> bytemem" where
  "vga_scroll v =
     (let v1 = fold (\<lambda>i m. memory_copy (vaddr (2 * (int i - 1) * MAX_COLS)) (vaddr (2 * int i * MAX_COLS))
                       (nat (MAX_COLS * 2)) m)
                 [1..<nat MAX_ROWS] v
      in fold (\<lambda>i m. m(vaddr (2 * (MAX_ROWS - 1) * MAX_COLS + int i) := 0)) [0..<nat (MAX_COLS * 2)] v1)"

text \<open>The end of \<open>print_char\<close>: scroll when the new offset is past the screen, then move the cursor.\<close>

definition print_char_end :: "int \<Rightarrow> console \<Rightarrow> int \<times> console" where
  "print_char_end offset c =
     (let (offset, c1) =
            (if MAX_ROWS * MAX_COLS * 2 \<le> offset
             then (offset - 2 * MAX_COLS, c\<lparr>vram := vga_scroll (vram c)\<rparr>)
             else (offset, c))
      in (offset, if screen_auto_cursor c1 then set_cursor_offset offset c1 else c1))"

definition print_char :: "u8 \<Rightarrow> int \<Rightarrow> int \<Rightarrow> u8 \<Rightarrow> console \<Rightarrow> int \<times> console" where
  "print_char ch col row attr c =
     (let (use, c1) = fb_mode c in
      if use
      then let (offset, c2) = fb_console_print_char ch col row c1
           in (offset, if screen_auto_cursor c2 then set_cursor_offset offset c2 else c2)
      else if \<not> screen_available (disp c1) then get_offset col row c1
      else let attr = (if attr = 0 then WHITE_ON_BLACK else attr) in
      if MAX_COLS \<le> col \<or> MAX_ROWS \<le> row
      then get_offset col row
             (c1\<lparr>vram := (vram c1)(vaddr (2 * MAX_COLS * MAX_ROWS - 2) := 69,
                                   vaddr (2 * MAX_COLS * MAX_ROWS - 1) := RED_ON_WHITE)\<rparr>)
      else let (offset, c2) = (if 0 \<le> col \<and> 0 \<le> row then get_offset col row c1
                               else get_cursor_offset c1);
               (offset, c3) =
                 (if ch = 10
                  then let (row, c) = get_vga_offset_row offset c2 in get_offset 0 (row + 1) c
                  else (offset + 2, c2\<lparr>vram := (vram c2)(vaddr offset := ch, vaddr (offset + 1) := attr)\<rparr>))
           in print_char_end offset c3)"

primrec print_string :: "u8 list \<Rightarrow> int \<Rightarrow> int \<Rightarrow> console \<Rightarrow> console" where
  "print_string [] col row c = c"
| "print_string (ch # message) col row c =
     (if ch = 0 then c
      else let (offset, c1) = print_char ch col row WHITE_ON_BLACK c;
               (row, c2) = get_vga_offset_row offset c1;
               (col, c3) = get_vga_offset_col offset c2
           in print_string message col row c3)"

definition kprint_at :: "u8 list \<Rightarrow> int \<Rightarrow> int \<Rightarrow> console \<Rightarrow> console" where
  "kprint_at message col row c =
     (if \<not> screen_available (disp c) \<and> \<not> ready c then c
      else if 0 \<le> col \<and> 0 \<le> row
      then let (offset, c1) = get_offset col row c in print_string message col row c1
      else let (offset, c1) = get_cursor_offset c;
               (row, c2) = get_vga_offset_row offset c1;
               (col, c3) = get_vga_offset_col offset c2
           in print_string message col row c3)"

definition kprint :: "u8 list \<Rightarrow> console \<Rightarrow> console" where
  "kprint message c =
     (if \<not> screen_available (disp c) \<and> \<not> ready c then c else kprint_at message (-1) (-1) c)"

definition kprint_backspace :: "console \<Rightarrow> console" where
  "kprint_backspace c =
     (if \<not> screen_available (disp c) \<and> \<not> ready c then c
      else let (cursor, c1) = get_cursor_offset c; offset = cursor - 2;
               (row, c2) = get_vga_offset_row offset c1;
               (col, c3) = get_vga_offset_col offset c2;
               (_, c4) = print_char 0 col row WHITE_ON_BLACK c3
           in set_cursor_offset offset c4)"

definition clear_screen :: "console \<Rightarrow> console" where
  "clear_screen c =
     (let (use, c1) = fb_mode c in
      if use then fb_console_clear c1
      else if \<not> screen_available (disp c1) then c1
      else let screen_size = MAX_COLS * MAX_ROWS;
               v = fold (\<lambda>i m. m(vaddr (int i * 2) := 32, vaddr (int i * 2 + 1) := WHITE_ON_BLACK))
                     [0..<nat screen_size] (vram c1);
               (home, c2) = get_offset 0 0 (c1\<lparr>vram := v\<rparr>)
           in set_cursor_offset home c2)"

definition get_screen_framebuffer_cols :: "console \<Rightarrow> u32 \<times> console" where
  "get_screen_framebuffer_cols c =
     (let (use, c1) = fb_console_use c in (if use then cols (fbs c1) else word_of_int MAX_COLS, c1))"

definition get_screen_framebuffer_rows :: "console \<Rightarrow> u32 \<times> console" where
  "get_screen_framebuffer_rows c =
     (let (use, c1) = fb_console_use c in (if use then rows (fbs c1) else word_of_int MAX_ROWS, c1))"

section \<open>What a text console promises\<close>

text \<open>
  The specification of the console is a list of cells, row after row, and a position in it:
  printing a character overwrites the cell at the position or moves to the next line, and a
  position past the end scrolls everything up by one line.  \<open>mk\<close> is the cell a character becomes,
  \<open>blank\<close> the cell of a fresh line.
\<close>

definition tty_put ::
  "nat \<Rightarrow> nat \<Rightarrow> (u8 \<Rightarrow> 'cell) \<Rightarrow> 'cell \<Rightarrow> u8 \<Rightarrow> 'cell list \<times> nat \<Rightarrow> 'cell list \<times> nat" where
  "tty_put cs rs mk blank ch t =
     (let (cells, p) = t;
          (cells, p) = (if ch = 10 then (cells, (p div cs + 1) * cs) else (cells[p := mk ch], p + 1))
      in if cs * rs \<le> p then (drop cs cells @ replicate cs blank, p - cs) else (cells, p))"

definition tty_print ::
  "nat \<Rightarrow> nat \<Rightarrow> (u8 \<Rightarrow> 'cell) \<Rightarrow> 'cell \<Rightarrow> u8 list \<Rightarrow> 'cell list \<times> nat \<Rightarrow> 'cell list \<times> nat" where
  "tty_print cs rs mk blank message t = fold (tty_put cs rs mk blank) (takeWhile (\<lambda>ch. ch \<noteq> 0) message) t"

definition tty_backspace :: "(u8 \<Rightarrow> 'cell) \<Rightarrow> 'cell list \<times> nat \<Rightarrow> 'cell list \<times> nat" where
  "tty_backspace mk t = (let (cells, p) = t in (cells[p - 1 := mk 0], p - 1))"

definition tty_ok :: "nat \<Rightarrow> nat \<Rightarrow> 'cell list \<times> nat \<Rightarrow> bool" where
  "tty_ok cs rs t \<longleftrightarrow> 0 < cs \<and> 0 < rs \<and> length (fst t) = cs * rs \<and> snd t < cs * rs"

lemma next_line_bounds:
  fixes p cs rs :: nat
  assumes "0 < cs" and "p < cs * rs"
  shows "(p div cs + 1) * cs \<le> cs * rs" and "p < (p div cs + 1) * cs"
proof -
  have "p div cs < rs" using assms by (simp add: less_mult_imp_div_less mult.commute)
  then show "(p div cs + 1) * cs \<le> cs * rs" by (metis Suc_eq_plus1 Suc_leI mult.commute mult_le_mono1)
  show "p < (p div cs + 1) * cs" using dividend_less_div_times [OF assms(1)] by simp
qed

lemma tty_put_ok:
  assumes "tty_ok cs rs t"
  shows "tty_ok cs rs (tty_put cs rs mk blank ch t)"
proof -
  obtain cells p where t: "t = (cells, p)" by (cases t)
  have cs: "0 < cs" "0 < rs" "length cells = cs * rs" "p < cs * rs"
    using assms t by (simp_all add: tty_ok_def)
  then have "cs \<le> cs * rs" by simp
  have scroll: "tty_ok cs rs (if cs * rs \<le> n then (drop cs xs @ replicate cs blank, n - cs) else (xs, n))"
    if "n \<le> cs * rs" "length xs = cs * rs" for n xs
    using that cs \<open>cs \<le> cs * rs\<close> by (auto simp: tty_ok_def simp del: mult_is_0)
  have "(p div cs + 1) * cs \<le> cs * rs" "p + 1 \<le> cs * rs"
    using next_line_bounds [OF cs(1,4)] cs(4) by simp_all
  then show ?thesis
    using scroll [of "(p div cs + 1) * cs" cells] scroll [of "p + 1" "cells[p := mk ch]"] cs(3)
    by (cases "ch = 10") (simp_all only: t tty_put_def Let_def if_True if_False refl prod.case length_list_update)
qed

lemma tty_print_ok: "tty_ok cs rs t \<Longrightarrow> tty_ok cs rs (tty_print cs rs mk blank message t)"
  unfolding tty_print_def
  by (induction "takeWhile (\<lambda>ch. ch \<noteq> 0) message" arbitrary: t message)
    (auto simp: tty_put_ok fold_invariant [where P = "tty_ok cs rs" and Q = "\<lambda>_. True"])

text \<open>
  A display mode implements that specification when \<open>displays c t\<close> relates the console state to a
  text screen and the three routines below respect it.  \<open>kprint\<close>, \<open>kprint_at\<close> and
  \<open>kprint_backspace\<close> are then correct in that mode.
\<close>

locale text_mode =
  fixes displays :: "console \<Rightarrow> 'cell list \<times> nat \<Rightarrow> bool"
    and cs rs :: nat
    and mk :: "u8 \<Rightarrow> 'cell"
    and blank :: 'cell
  assumes displays_on: "displays c t \<Longrightarrow> screen_is_available c"
    and displays_ok: "displays c t \<Longrightarrow> tty_ok cs rs t"
    and displays_row: "displays c t \<Longrightarrow> get_vga_offset_row (2 * int q) c = (int (q div cs), c)"
    and displays_col: "displays c t \<Longrightarrow> get_vga_offset_col (2 * int q) c = (int (q mod cs), c)"
    and displays_cursor: "displays c (cells, p) \<Longrightarrow>
          \<exists>c'. get_cursor_offset c = (2 * int p, c') \<and> displays c' (cells, p)"
    and displays_set_cursor: "displays c (cells, p) \<Longrightarrow> q < cs * rs \<Longrightarrow>
          displays (set_cursor_offset (2 * int q) c) (cells, q)"
    and displays_offset: "displays c t \<Longrightarrow> q < cs * rs \<Longrightarrow>
          get_offset (int (q mod cs)) (int (q div cs)) c = (2 * int q, c)"
    and displays_put: "displays c (cells, p) \<Longrightarrow> q < cs * rs \<Longrightarrow>
          \<exists>c'. print_char ch (int (q mod cs)) (int (q div cs)) WHITE_ON_BLACK c =
               (2 * int (snd (tty_put cs rs mk blank ch (cells, q))), c') \<and>
             displays c' (tty_put cs rs mk blank ch (cells, q))"
begin

lemma print_string_displays:
  assumes "displays c (cells, p)" and "q < cs * rs"
  shows "displays (print_string message (int (q mod cs)) (int (q div cs)) c)
           (if takeWhile (\<lambda>ch. ch \<noteq> 0) message = [] then (cells, p)
            else tty_print cs rs mk blank message (cells, q))"
  using assms
proof (induction message arbitrary: c cells p q)
  case (Cons ch message)
  show ?case
  proof (cases "ch = 0")
    case False
    obtain cells' q' where t': "tty_put cs rs mk blank ch (cells, q) = (cells', q')"
      by fastforce
    obtain c' where c': "print_char ch (int (q mod cs)) (int (q div cs)) WHITE_ON_BLACK c = (2 * int q', c')"
        "displays c' (cells', q')"
      using displays_put [OF Cons.prems, of ch] t' by auto
    have q': "q' < cs * rs" using displays_ok [OF c'(2)] by (simp add: tty_ok_def)
    have "displays (print_string message (int (q' mod cs)) (int (q' div cs)) c')
            (tty_print cs rs mk blank message (cells', q'))"
      using Cons.IH [OF c'(2) q'] by (auto simp: tty_print_def split: if_splits)
    moreover have "tty_print cs rs mk blank (ch # message) (cells, q) =
        tty_print cs rs mk blank message (cells', q')"
      using False t' by (simp add: tty_print_def)
    ultimately show ?thesis
      using False c' by (simp add: displays_row [OF c'(2)] displays_col [OF c'(2)])
  qed (use Cons.prems in simp)
qed simp

lemma kprint_displays:
  assumes "displays c t"
  shows "displays (kprint message c) (tty_print cs rs mk blank message t)"
proof -
  obtain cells p where t: "t = (cells, p)" by (cases t)
  obtain c' where c': "get_cursor_offset c = (2 * int p, c')" "displays c' (cells, p)"
    using displays_cursor assms t by blast
  have p: "p < cs * rs" using displays_ok [OF c'(2)] by (simp add: tty_ok_def)
  have "displays (print_string message (int (p mod cs)) (int (p div cs)) c')
          (tty_print cs rs mk blank message (cells, p))"
    using print_string_displays [OF c'(2) p, of message] by (auto simp: tty_print_def split: if_splits)
  then show ?thesis
    using displays_on [OF assms] c' t
    by (auto simp: kprint_def kprint_at_def screen_is_available_def displays_row [OF c'(2)] displays_col [OF c'(2)])
qed

lemma kprint_at_displays:
  assumes "displays c (cells, p)" and "q < cs * rs" and "message \<noteq> []" and "hd message \<noteq> 0"
  shows "displays (kprint_at message (int (q mod cs)) (int (q div cs)) c)
           (tty_print cs rs mk blank message (cells, q))"
  using print_string_displays [OF assms(1,2), of message] displays_on [OF assms(1)] assms(3,4)
  by (cases message)
    (auto simp: kprint_at_def screen_is_available_def displays_offset [OF assms(1,2)] split: if_splits)

lemma backspace_displays:
  assumes "displays c (cells, p)" and "0 < p"
  shows "displays (kprint_backspace c) (tty_backspace mk (cells, p))"
proof -
  obtain c' where c': "get_cursor_offset c = (2 * int p, c')" "displays c' (cells, p)"
    using displays_cursor assms(1) by blast
  have p: "p < cs * rs" using displays_ok [OF c'(2)] by (simp add: tty_ok_def)
  then have p1: "p - 1 < cs * rs" by simp
  have off: "2 * int p - 2 = 2 * int (p - 1)" using assms(2) by simp
  have put: "tty_put cs rs mk blank 0 (cells, p - 1) = (cells[p - 1 := mk 0], p)"
    using p assms(2) by (simp add: tty_put_def)
  obtain c2 where c2: "print_char 0 (int ((p - 1) mod cs)) (int ((p - 1) div cs)) WHITE_ON_BLACK c' =
        (2 * int p, c2)" "displays c2 (cells[p - 1 := mk 0], p)"
    using displays_put [OF c'(2) p1, of 0] put by auto
  have "kprint_backspace c = set_cursor_offset (2 * int (p - 1)) c2"
    using displays_on [OF assms(1)] c'(1) c2(1) displays_row [OF c'(2), of "p - 1"] displays_col [OF c'(2), of "p - 1"]
    by (auto simp: kprint_backspace_def screen_is_available_def off)
  then show ?thesis
    using displays_set_cursor [OF c2(2) p1] by (simp add: tty_backspace_def)
qed

text \<open>Text that fits in front of the end of the screen is stored cell by cell.\<close>

lemma tty_print_fits:
  assumes "0 \<notin> set message" and "10 \<notin> set message" and "p + length message < cs * rs"
    and "length cells = cs * rs"
  shows "tty_print cs rs mk blank message (cells, p) =
    (take p cells @ map mk message @ drop (p + length message) cells, p + length message)"
  using assms
proof (induction message arbitrary: p cells)
  case (Cons ch message)
  have "tty_print cs rs mk blank (ch # message) (cells, p) =
      tty_print cs rs mk blank message (cells[p := mk ch], Suc p)"
    using Cons.prems by (auto simp: tty_print_def tty_put_def)
  moreover have "take (Suc p) (cells[p := mk ch]) = take p cells @ [mk ch]"
    using Cons.prems by (simp add: take_Suc_conv_app_nth)
  ultimately show ?case
    using Cons.IH [of "Suc p" "cells[p := mk ch]"] Cons.prems by simp
qed (simp add: tty_print_def)

end

section \<open>VGA text mode\<close>

text \<open>
  The VGA controller keeps its registers: a read of the data port returns what was last written
  to the register the index port selects.  Registers start at zero.  Only the cursor registers
  14 and 15 matter here.
\<close>

primrec crtc_index :: "io_event list \<Rightarrow> u8" where
  "crtc_index [] = 0"
| "crtc_index (e # tr) =
     (case e of Out8 p v \<Rightarrow> (if p = REG_SCREEN_CTRL then v else crtc_index tr) | _ \<Rightarrow> crtc_index tr)"

primrec crtc_reg :: "io_event list \<Rightarrow> u8 \<Rightarrow> u8" where
  "crtc_reg [] r = 0"
| "crtc_reg (e # tr) r =
     (case e of Out8 p v \<Rightarrow> (if p = REG_SCREEN_DATA \<and> crtc_index tr = r then v else crtc_reg tr r)
      | _ \<Rightarrow> crtc_reg tr r)"

definition crtc_pos :: "io_event list \<Rightarrow> nat" where
  "crtc_pos tr = unat (crtc_reg tr 14) * 256 + unat (crtc_reg tr 15)"

definition crtc_keeps_cursor :: "(io_event list \<Rightarrow> io_width \<Rightarrow> u16 \<Rightarrow> u32) \<Rightarrow> bool" where
  "crtc_keeps_cursor e \<longleftrightarrow>
     (\<forall>tr. crtc_index tr = 14 \<or> crtc_index tr = 15 \<longrightarrow>
       ucast (e tr W8 REG_SCREEN_DATA) = crtc_reg tr (crtc_index tr))"

definition vga_mode :: "console \<Rightarrow> bool" where
  "vga_mode c \<longleftrightarrow> screen_available (disp c) \<and> \<not> ready c \<and> screen_auto_cursor c \<and>
     crtc_keeps_cursor (env (mach c))"

definition vga_cells :: "bytemem \<Rightarrow> (u8 \<times> u8) list" where
  "vga_cells v = map (\<lambda>i. (v (0xb8000 + 2 * i), v (0xb8000 + 2 * i + 1))) [0..<2000]"

definition vga_displays :: "bytemem \<Rightarrow> console \<Rightarrow> (u8 \<times> u8) list \<times> nat \<Rightarrow> bool" where
  "vga_displays v0 c t \<longleftrightarrow> vga_mode c \<and> t = (vga_cells (vram c), crtc_pos (trace (mach c))) \<and> snd t < 2000 \<and>
     (\<forall>a. a < 0xb8000 \<or> 0xb8000 + 4000 \<le> a \<longrightarrow> vram c a = v0 a)"

lemmas vga_consts = VIDEO_ADDRESS_def MAX_ROWS_def MAX_COLS_def REG_SCREEN_CTRL_def REG_SCREEN_DATA_def

lemma vga_fb_mode [simp]: "vga_mode c \<Longrightarrow> fb_mode c = (False, c)"
  by (simp add: vga_mode_def fb_mode_def)

lemma vga_mode_upd [simp]:
  "vga_mode (c\<lparr>vram := v\<rparr>) = vga_mode c"
  "env m = env (mach c) \<Longrightarrow> vga_mode (c\<lparr>mach := m\<rparr>) = vga_mode c"
  by (simp_all add: vga_mode_def)

lemma vga_get_offset: "vga_mode c \<Longrightarrow> get_offset col row c = (2 * (row * 80 + col), c)"
  by (simp add: get_offset_def MAX_COLS_def)

lemma vga_get_offset_nat:
  "vga_mode c \<Longrightarrow> get_offset (int (q mod 80)) (int (q div 80)) c = (2 * int q, c)"
proof -
  assume "vga_mode c"
  moreover have "int q = int (q div 80) * 80 + int (q mod 80)"
    by (metis div_mult_mod_eq of_nat_add of_nat_mult of_nat_numeral)
  ultimately show ?thesis by (simp add: vga_get_offset)
qed

lemma vga_get_row: "vga_mode c \<Longrightarrow> get_vga_offset_row offset c = (cdiv offset 160, c)"
  by (simp add: get_vga_offset_row_def MAX_COLS_def)

lemma vga_get_row_nat: "vga_mode c \<Longrightarrow> get_vga_offset_row (2 * int q) c = (int (q div 80), c)"
  by (simp add: vga_get_row cdiv_nonneg zdiv_int)

lemma vga_get_col_nat: "vga_mode c \<Longrightarrow> get_vga_offset_col (2 * int q) c = (int (q mod 80), c)"
proof -
  assume c: "vga_mode c"
  have "2 * int q - int (q div 80) * 2 * 80 = 2 * int (q mod 80)"
    using div_mult_mod_eq [of q 80] by linarith
  then show ?thesis
    using c by (simp add: get_vga_offset_col_def vga_get_row_nat MAX_COLS_def cdiv_nonneg)
qed

lemma crtc_ports [simp]: "REG_SCREEN_DATA \<noteq> REG_SCREEN_CTRL" "REG_SCREEN_CTRL \<noteq> REG_SCREEN_DATA"
  by (simp_all add: vga_consts)

lemma crtc_read:
  assumes "crtc_keeps_cursor (env m)" and "crtc_index (trace m) = 14 \<or> crtc_index (trace m) = 15"
  shows "port_byte_in REG_SCREEN_DATA m =
    (crtc_reg (trace m) (crtc_index (trace m)),
     log_event (In8 REG_SCREEN_DATA (crtc_reg (trace m) (crtc_index (trace m)))) m)"
  using assms by (auto simp: crtc_keeps_cursor_def port_byte_in_def Let_def)

lemma vga_get_cursor:
  assumes "vga_mode c"
  shows "\<exists>m. get_cursor_offset c = (2 * int (crtc_pos (trace (mach c))), c\<lparr>mach := m\<rparr>) \<and>
    env m = env (mach c) \<and> crtc_pos (trace m) = crtc_pos (trace (mach c))"
proof -
  have e: "crtc_keeps_cursor (env (mach c))" and a: "screen_available (disp c)"
    using assms by (simp_all add: vga_mode_def)
  let ?m1 = "port_byte_out REG_SCREEN_CTRL 14 (mach c)"
  let ?hi = "crtc_reg (trace (mach c)) 14" and ?lo = "crtc_reg (trace (mach c)) 15"
  let ?m2 = "log_event (In8 REG_SCREEN_DATA ?hi) ?m1"
  let ?m3 = "port_byte_out REG_SCREEN_CTRL 15 ?m2"
  have 1: "port_byte_in REG_SCREEN_DATA ?m1 = (?hi, ?m2)"
    using e by (subst crtc_read) simp_all
  have 2: "port_byte_in REG_SCREEN_DATA ?m3 = (?lo, log_event (In8 REG_SCREEN_DATA ?lo) ?m3)"
    using e by (subst crtc_read) simp_all
  show ?thesis
    using assms a by (simp add: get_cursor_offset_def Let_def 1 2 crtc_pos_def)
      (rule exI, rule conjI, rule refl, simp)
qed

lemma vga_set_cursor:
  assumes "vga_mode c"
  shows "\<exists>m. set_cursor_offset offset c = c\<lparr>mach := m\<rparr> \<and> env m = env (mach c) \<and>
    crtc_pos (trace m) = nat (cdiv offset 2 mod 65536)"
proof -
  have a: "screen_available (disp c)" using assms by (simp add: vga_mode_def)
  let ?p = "cdiv offset 2"
  have "nat (?p div 256 mod 256) * 256 + nat (?p mod 256 mod 256) = nat (?p mod 65536)"
    using zmod_zmult2_eq [of 256 ?p 256] by (simp add: nat_add_distrib nat_mult_distrib)
  moreover have "unat (word_of_int k :: u8) = nat (k mod 256)" for k
    by (simp add: unsigned_of_int take_bit_eq_mod)
  ultimately have pos: "unat (word_of_int (?p div 256) :: u8) * 256 + unat (word_of_int (?p mod 256) :: u8) =
      nat (?p mod 65536)"
    by (simp only:)
  let ?m = "port_byte_out REG_SCREEN_DATA (word_of_int (?p mod 256))
    (port_byte_out REG_SCREEN_CTRL 15 (port_byte_out REG_SCREEN_DATA (word_of_int (?p div 256))
      (port_byte_out REG_SCREEN_CTRL 14 (mach c))))"
  have "set_cursor_offset offset c = c\<lparr>mach := ?m\<rparr>"
    using assms a by (simp add: set_cursor_offset_def Let_def)
  moreover have "crtc_pos (trace ?m) = nat (?p mod 65536)"
    unfolding crtc_pos_def pos [symmetric] by simp
  ultimately show ?thesis by (intro exI [of _ ?m]) simp
qed

lemma vaddr_nat [simp]: "vaddr (int k) = 0xb8000 + k" "vaddr (int k + 1) = 0xb8000 + k + 1"
  by (simp_all add: vaddr_def VIDEO_ADDRESS_def nat_add_distrib)

lemma vga_cells_length [simp]: "length (vga_cells v) = 2000"
  by (simp add: vga_cells_def)

lemma vga_cells_update:
  assumes "q < 2000"
  shows "vga_cells (v(0xb8000 + 2 * q := ch, 0xb8000 + 2 * q + 1 := a)) = (vga_cells v)[q := (ch, a)]"
  using assms
  by (intro nth_equalityI) (simp_all add: vga_cells_def nth_list_update, presburger?)

text \<open>Moving lines up by one, whatever their width.\<close>

lemma copy_lines_up:
  fixes b w :: nat
  shows "fold (\<lambda>i m. memory_copy (b + i * w) (b + (i + 1) * w) w m) [0..<n] m a =
    (if b \<le> a \<and> a < b + n * w then m (a + w) else m a)"
proof (induction n arbitrary: a)
  case (Suc n)
  let ?m = "fold (\<lambda>i m. memory_copy (b + i * w) (b + (i + 1) * w) w m) [0..<n] m"
  show ?case
  proof (cases "b + n * w \<le> a \<and> a < b + n * w + w")
    case True
    then have "memory_copy (b + n * w) (b + (n + 1) * w) w ?m (b + n * w + (a - (b + n * w))) =
        ?m (b + (n + 1) * w + (a - (b + n * w)))"
      by (intro memory_copy_inside) auto
    then show ?thesis using True Suc by (simp add: algebra_simps)
  next
    case False
    then have "memory_copy (b + n * w) (b + (n + 1) * w) w ?m a = ?m a"
      by (intro memory_copy_outside) auto
    then show ?thesis using False Suc by (auto simp: algebra_simps)
  qed
qed auto

lemma vga_scroll_eq:
  "vga_scroll v a = (if 0xb8000 \<le> a \<and> a < 0xb8000 + 3840 then v (a + 160)
     else if 0xb8000 + 3840 \<le> a \<and> a < 0xb8000 + 4000 then 0 else v a)"
proof -
  have up: "fold (\<lambda>i m. memory_copy (vaddr (2 * (int i - 1) * MAX_COLS)) (vaddr (2 * int i * MAX_COLS))
          (nat (MAX_COLS * 2)) m) [1..<nat MAX_ROWS] v =
      fold (\<lambda>i m. memory_copy (0xb8000 + i * 160) (0xb8000 + (i + 1) * 160) 160 m) [0..<24] v"
  proof -
    have "[1..<nat MAX_ROWS] = map Suc [0..<24]"
      by (simp add: MAX_ROWS_def map_Suc_upt)
    then show ?thesis
      by (simp add: fold_map comp_def vaddr_def vga_consts nat_add_distrib nat_mult_distrib algebra_simps)
  qed
  have clear: "fold (\<lambda>i m. m(vaddr (2 * (MAX_ROWS - 1) * MAX_COLS + int i) := 0)) [0..<nat (MAX_COLS * 2)] m =
      store m (0xb8000 + 3840) (replicate 160 0)" for m :: bytemem
  proof -
    have "vaddr (2 * (MAX_ROWS - 1) * MAX_COLS + int i) = 0xb8000 + 3840 + i" for i
      by (simp add: vaddr_def vga_consts)
    then show ?thesis
      using fold_upd_store [of "0xb8000 + 3840" "\<lambda>_. 0" 160 m]
      by (simp only:) (simp add: MAX_COLS_def map_replicate_const)
  qed
  show ?thesis
    unfolding vga_scroll_def Let_def up clear
    using copy_lines_up [of "0xb8000" 160 24 v a] by (auto simp: store_def)
qed

lemma vga_cells_scroll: "vga_cells (vga_scroll v) = drop 80 (vga_cells v) @ replicate 80 (0, 0)"
proof (rule nth_equalityI)
  fix i assume "i < length (vga_cells (vga_scroll v))"
  then show "vga_cells (vga_scroll v) ! i = (drop 80 (vga_cells v) @ replicate 80 (0, 0)) ! i"
    by (cases "i < 1920") (simp_all add: vga_cells_def vga_scroll_eq nth_append)
qed simp

definition vga_frame :: "bytemem \<Rightarrow> bytemem \<Rightarrow> bool" where
  "vga_frame v0 v \<longleftrightarrow> (\<forall>a. a < 0xb8000 \<or> 0xb8000 + 4000 \<le> a \<longrightarrow> v a = v0 a)"

lemma vga_displays_iff:
  "vga_displays v0 c (cells, p) \<longleftrightarrow> vga_mode c \<and> cells = vga_cells (vram c) \<and>
     p = crtc_pos (trace (mach c)) \<and> p < 2000 \<and> vga_frame v0 (vram c)"
  by (auto simp: vga_displays_def vga_frame_def)

lemma vga_frame_upd:
  assumes "vga_frame v0 v"
  shows "vga_frame v0 (vga_scroll v)"
    and "q < 2000 \<Longrightarrow> vga_frame v0 (v(0xb8000 + 2 * q := ch, 0xb8000 + 2 * q + 1 := a))"
  using assms by (auto simp: vga_frame_def vga_scroll_eq)

lemma vga_displays_set_cursor:
  assumes "vga_mode c" and "vga_frame v0 (vram c)" and "q < 2000"
  shows "vga_displays v0 (set_cursor_offset (2 * int q) c) (vga_cells (vram c), q)"
proof -
  obtain m where m: "set_cursor_offset (2 * int q) c = c\<lparr>mach := m\<rparr>" "env m = env (mach c)"
      "crtc_pos (trace m) = nat (cdiv (2 * int q) 2 mod 65536)"
    using vga_set_cursor [OF assms(1)] by blast
  have "crtc_pos (trace m) = q" using m(3) assms(3) by (simp add: cdiv_nonneg)
  then show ?thesis using m assms by (simp add: vga_displays_iff)
qed

lemma vga_advance:
  assumes "vga_mode c" and "vga_frame v0 (vram c)" and "n \<le> 2000"
  defines "t \<equiv> if 2000 \<le> n then (drop 80 (vga_cells (vram c)) @ replicate 80 (0, 0), n - 80)
    else (vga_cells (vram c), n)"
  shows "\<exists>c'. print_char_end (2 * int n) c = (2 * int (snd t), c') \<and> vga_displays v0 c' t"
proof -
  have auto_cursor: "screen_auto_cursor c" using assms(1) by (simp add: vga_mode_def)
  show ?thesis
  proof (cases "2000 \<le> n")
    case True
    then have "n = 2000" using assms(3) by simp
    then show ?thesis
      using vga_displays_set_cursor [of "c\<lparr>vram := vga_scroll (vram c)\<rparr>" v0 1920] assms(1,2) auto_cursor
      by (simp add: t_def print_char_end_def vga_consts vga_frame_upd vga_cells_scroll)
  next
    case False
    then show ?thesis
      using vga_displays_set_cursor [of c v0 n] assms(1,2) auto_cursor
      by (simp add: t_def print_char_end_def vga_consts)
  qed
qed

abbreviation vga_cell :: "u8 \<Rightarrow> u8 \<times> u8" where
  "vga_cell ch \<equiv> (ch, WHITE_ON_BLACK)"

lemma vga_put:
  assumes "vga_displays v0 c (cells, p)" and "q < 2000"
  shows "\<exists>c'. print_char ch (int (q mod 80)) (int (q div 80)) WHITE_ON_BLACK c =
      (2 * int (snd (tty_put 80 25 vga_cell (0, 0) ch (cells, q))), c') \<and>
    vga_displays v0 c' (tty_put 80 25 vga_cell (0, 0) ch (cells, q))"
proof -
  have c: "vga_mode c" "cells = vga_cells (vram c)" "vga_frame v0 (vram c)" "screen_available (disp c)"
    using assms(1) by (simp_all add: vga_displays_iff vga_mode_def)
  have guard: "\<not> (MAX_COLS \<le> int (q mod 80) \<or> MAX_ROWS \<le> int (q div 80))"
    using assms(2) by (simp add: vga_consts not_le less_mult_imp_div_less)
  have off: "get_offset (int (q mod 80)) (int (q div 80)) c = (2 * int q, c)"
    using c(1) by (rule vga_get_offset_nat)
  have attr: "WHITE_ON_BLACK \<noteq> 0" by (simp add: WHITE_ON_BLACK_def)
  show ?thesis
  proof (cases "ch = 10")
    case True
    let ?n = "(q div 80 + 1) * 80"
    have "?n \<le> 2000" using next_line_bounds [of 80 q 25] assms(2) by simp
    have "get_offset 0 (int (q div 80) + 1) c = (2 * int ?n, c)"
      using c(1) by (simp add: vga_get_offset)
    then have "print_char ch (int (q mod 80)) (int (q div 80)) WHITE_ON_BLACK c =
        print_char_end (2 * int ?n) c"
      using c guard off True attr by (simp add: print_char_def vga_get_row_nat)
    moreover have "tty_put 80 25 vga_cell (0, 0) ch (cells, q) =
        (if 2000 \<le> ?n then (drop 80 (vga_cells (vram c)) @ replicate 80 (0, 0), ?n - 80)
         else (vga_cells (vram c), ?n))"
      using True c(2) by (simp add: tty_put_def)
    ultimately show ?thesis using vga_advance [OF c(1,3) \<open>?n \<le> 2000\<close>] by (simp only:)
  next
    case False
    let ?c = "c\<lparr>vram := (vram c)(0xb8000 + 2 * q := ch, 0xb8000 + 2 * q + 1 := WHITE_ON_BLACK)\<rparr>"
    have v: "vaddr (2 * int q) = 0xb8000 + 2 * q" "vaddr (2 * int q + 1) = 0xb8000 + 2 * q + 1"
      using vaddr_nat [of "2 * q"] by simp_all
    have n: "2 * int q + 2 = 2 * int (q + 1)" by simp
    have "print_char ch (int (q mod 80)) (int (q div 80)) WHITE_ON_BLACK c = print_char_end (2 * int (q + 1)) ?c"
      using c guard off False attr by (simp add: print_char_def v add.commute [of 2])
    moreover have "tty_put 80 25 vga_cell (0, 0) ch (cells, q) =
        (if 2000 \<le> q + 1 then (drop 80 (vga_cells (vram ?c)) @ replicate 80 (0, 0), q + 1 - 80)
         else (vga_cells (vram ?c), q + 1))"
      using False vga_cells_update [OF assms(2), of "vram c"] c(2) by (simp add: tty_put_def)
    moreover have "vga_mode ?c" "vga_frame v0 (vram ?c)" "q + 1 \<le> 2000"
      using c(1) vga_frame_upd(2) [OF c(3) assms(2), of ch WHITE_ON_BLACK] assms(2) by simp_all
    ultimately show ?thesis using vga_advance [of ?c v0 "q + 1"] by (simp only:)
  qed
qed

interpretation vga: text_mode "vga_displays v0" 80 25 vga_cell "(0, 0)" for v0
proof
  fix c :: console and t :: "(u8 \<times> u8) list \<times> nat" and q :: nat
  assume "vga_displays v0 c t"
  then have c: "vga_mode c" "length (fst t) = 2000" "snd t < 2000"
    by (auto simp: vga_displays_def)
  then show "screen_is_available c" by (simp add: screen_is_available_def vga_mode_def)
  show "tty_ok 80 25 t" using c by (simp add: tty_ok_def)
  show "get_vga_offset_row (2 * int q) c = (int (q div 80), c)" using c(1) by (rule vga_get_row_nat)
  show "get_vga_offset_col (2 * int q) c = (int (q mod 80), c)" using c(1) by (rule vga_get_col_nat)
  show "get_offset (int (q mod 80)) (int (q div 80)) c = (2 * int q, c)"
    using c(1) by (rule vga_get_offset_nat)
next
  fix c cells p
  assume "vga_displays v0 c (cells, p)"
  then show "\<exists>c'. get_cursor_offset c = (2 * int p, c') \<and> vga_displays v0 c' (cells, p)"
    using vga_get_cursor [of c] by (auto simp: vga_displays_iff)
next
  fix c cells p q
  assume "vga_displays v0 c (cells, p)" "q < 80 * (25 :: nat)"
  then show "vga_displays v0 (set_cursor_offset (2 * int q) c) (cells, q)"
    using vga_displays_set_cursor [of c v0 q] by (simp add: vga_displays_iff)
next
  fix c cells p q ch
  assume "vga_displays v0 c (cells, p)" "q < 80 * (25 :: nat)"
  then show "\<exists>c'. print_char ch (int (q mod 80)) (int (q div 80)) WHITE_ON_BLACK c =
        (2 * int (snd (tty_put 80 25 vga_cell (0, 0) ch (cells, q))), c') \<and>
      vga_displays v0 c' (tty_put 80 25 vga_cell (0, 0) ch (cells, q))"
    using vga_put by simp
qed

section \<open>Framebuffer text mode\<close>

text \<open>
  A text cell is 9 by 16 pixels: the 8 columns of the glyph and one gap column of background.
  \<open>render\<close> is the picture of a text screen on a memory \<open>m0\<close>: the pixels of the text area come from
  the cells, every other pixel is the one of \<open>m0\<close>.
\<close>

definition cell_pixel :: "u32 \<Rightarrow> u32 \<Rightarrow> u8 \<Rightarrow> nat \<Rightarrow> nat \<Rightarrow> u32" where
  "cell_pixel fg bg ch dy dx = (if dx < 8 then glyph_pixel ch fg bg dy dx else bg)"

definition render ::
  "nat \<Rightarrow> nat \<Rightarrow> nat \<Rightarrow> u32 \<Rightarrow> u32 \<Rightarrow> (nat \<Rightarrow> u32) \<Rightarrow> u8 list \<Rightarrow> (nat \<Rightarrow> u32)" where
  "render S cs rs fg bg m0 cells =
     (\<lambda>i. if in_rect S 0 0 (cs * 9) (rs * 16) i
          then cell_pixel fg bg (cells ! (i div S div 16 * cs + i mod S div 9)) (i div S mod 16) (i mod S mod 9)
          else m0 i)"

definition fb_text :: "nat \<Rightarrow> nat \<Rightarrow> console \<Rightarrow> bool" where
  "fb_text cs rs c \<longleftrightarrow> fb_sound (disp c) \<and> fbc_bpp (fb_console (disp c)) = 32 \<and> active (fbs c) \<and>
     cell_width (fbs c) = 9 \<and> cell_height (fbs c) = 16 \<and>
     cols (fbs c) = fbc_width (fb_console (disp c)) div 9 \<and>
     rows (fbs c) = fbc_height (fb_console (disp c)) div 16 \<and>
     unat (cols (fbs c)) = cs \<and> unat (rows (fbs c)) = rs \<and> 0 < cs \<and> 0 < rs \<and>
     unat (cursor_col (fbs c)) < cs \<and> unat (cursor_row (fbs c)) < rs"

definition fb_displays :: "nat \<Rightarrow> nat \<Rightarrow> (nat \<Rightarrow> u32) \<Rightarrow> console \<Rightarrow> u8 list \<times> nat \<Rightarrow> bool" where
  "fb_displays cs rs m0 c t \<longleftrightarrow> fb_text cs rs c \<and> length (fst t) = cs * rs \<and>
     snd t = unat (cursor_row (fbs c)) * cs + unat (cursor_col (fbs c)) \<and>
     fbmem (disp c) = render (unat (fbc_stride (fb_console (disp c)))) cs rs (fg_color (fbs c))
       (bg_color (fbs c)) m0 (fst t)"

lemma in_cell_iff:
  "in_rect S (k * 9) (r * 16) 9 16 i \<longleftrightarrow> i div S div 16 = r \<and> i mod S div 9 = k"
proof -
  have "y div d = n \<longleftrightarrow> n * d \<le> y \<and> y < n * d + d" if "0 < d" for y d n :: nat
    using that by (metis add.commute div_nat_eqI dividend_less_div_times div_times_less_eq_dividend
        mult.commute mult_Suc_right)
  then show ?thesis by (auto simp: in_rect_def)
qed

lemma cell_index_less:
  fixes r k cs rs :: nat
  assumes "r < rs" and "k < cs"
  shows "r * cs + k < cs * rs"
proof -
  have "r * cs + k < (r + 1) * cs" using assms(2) by simp
  also have "\<dots> \<le> rs * cs" using assms(1) by (intro mult_le_mono1) simp
  finally show ?thesis by (simp add: mult.commute)
qed

lemma cell_index_inject:
  fixes r k cs :: nat
  assumes "k < cs" and "k' < cs"
  shows "r * cs + k = r' * cs + k' \<longleftrightarrow> r = r' \<and> k = k'"
proof
  assume eq: "r * cs + k = r' * cs + k'"
  have "(r * cs + k) div cs = r" "(r' * cs + k') div cs = r'" using assms by simp_all
  then show "r = r' \<and> k = k'" using eq by simp
qed simp

lemma in_text_iff:
  "in_rect S 0 0 (cs * 9) (rs * 16) i \<longleftrightarrow> i div S div 16 < rs \<and> i mod S div 9 < cs"
  by (simp add: in_rect_def less_mult_imp_div_less div_less_iff_less_mult)

lemma render_put:
  assumes "k < cs" and "r < rs" and "length cells = cs * rs"
  shows "paint S (k * 9) (r * 16) 9 16 (cell_pixel fg bg ch) (render S cs rs fg bg m0 cells) =
    render S cs rs fg bg m0 (cells[r * cs + k := ch])"
proof
  fix i
  let ?R = "i div S div 16" and ?K = "i mod S div 9"
  show "paint S (k * 9) (r * 16) 9 16 (cell_pixel fg bg ch) (render S cs rs fg bg m0 cells) i =
    render S cs rs fg bg m0 (cells[r * cs + k := ch]) i"
  proof (cases "?R = r \<and> ?K = k")
    case True
    then have "i div S - r * 16 = i div S mod 16" "i mod S - k * 9 = i mod S mod 9"
      by (metis minus_div_mult_eq_mod)+
    then show ?thesis
      using True assms cell_index_less [OF assms(2,1)]
      by (simp add: paint_def in_cell_iff render_def in_text_iff)
  next
    case False
    then have "\<not> in_rect S (k * 9) (r * 16) 9 16 i" by (simp add: in_cell_iff)
    moreover have "r * cs + k \<noteq> ?R * cs + ?K" if "?K < cs"
      using False cell_index_inject [OF assms(1) that] by auto
    ultimately show ?thesis
      by (auto simp: paint_def render_def in_text_iff nth_list_update)
  qed
qed

lemma paint_split:
  "paint S (k * 9 + 8) y 1 h (\<lambda>_ _. bg) (paint S (k * 9) y 8 h (glyph_pixel ch fg bg) mem) =
   paint S (k * 9) y 9 h (cell_pixel fg bg ch) mem"
  by (rule ext) (auto simp: paint_def in_rect_def cell_pixel_def)

text \<open>The glyph of the space character is empty, so background and space look alike.\<close>

lemma space_pixel: "dy < 16 \<Longrightarrow> cell_pixel fg bg 32 dy dx = bg"
proof -
  assume "dy < 16"
  have "framebuffer_font_get_glyph 32 = replicate 16 0"
    by code_simp
  then show ?thesis using \<open>dy < 16\<close> by (simp add: cell_pixel_def glyph_pixel_def)
qed

lemma render_blank:
  "paint S 0 0 (cs * 9) (rs * 16) (\<lambda>_ _. bg) m0 = render S cs rs fg bg m0 (replicate (cs * rs) 32)"
  by (rule ext)
    (auto simp: paint_def render_def in_text_iff space_pixel cell_index_less)

lemma copy_rows_up:
  fixes S w k :: nat
  assumes "w \<le> S" and "0 < S" and "0 < k"
  shows "fold (\<lambda>y m. memory_copy (y * S) ((y + k) * S) w m) [0..<n] mem i =
    (if in_rect S 0 0 w n i then mem (i + k * S) else mem i)"
proof (induction n arbitrary: i)
  case (Suc n)
  let ?M = "fold (\<lambda>y m. memory_copy (y * S) ((y + k) * S) w m) [0..<n] mem"
  have row: "n * S \<le> j \<and> j < n * S + w \<longleftrightarrow> j div S = n \<and> j mod S < w" for j
    using pixel_in_row [of 0 w S n j] assms by simp
  show ?case
  proof (cases "i div S = n \<and> i mod S < w")
    case True
    then have i: "n * S \<le> i" "i < n * S + w" using row by blast+
    have "n * S \<le> (n + k) * S" by simp
    then have "memory_copy (n * S) ((n + k) * S) w ?M (n * S + (i - n * S)) = ?M ((n + k) * S + (i - n * S))"
      using i by (intro memory_copy_inside) auto
    moreover have "(n + k) * S + (i - n * S) = i + k * S" using i by (simp add: algebra_simps)
    moreover have "(i + k * S) div S = n + k" using True assms(2) by simp
    ultimately show ?thesis
      using True i Suc [of "i + k * S"] assms(3) by (simp add: in_rect_def)
  next
    case False
    then have "memory_copy (n * S) ((n + k) * S) w ?M i = ?M i"
      using row [of i] by (intro memory_copy_outside) linarith
    then show ?thesis using False Suc by (auto simp: in_rect_def)
  qed
qed (simp add: in_rect_def)

lemma render_scroll:
  assumes "cs * 9 \<le> S" and "0 < cs" and "0 < rs" and "length cells = cs * rs"
  shows "paint S 0 ((rs - 1) * 16) (cs * 9) 16 (\<lambda>_ _. bg)
      (fold (\<lambda>y m. memory_copy (y * S) ((y + 16) * S) (cs * 9) m) [0..<(rs - 1) * 16]
         (render S cs rs fg bg m0 cells)) =
    render S cs rs fg bg m0 (drop cs cells @ replicate cs 32)"
proof
  fix i
  let ?R = "i div S div 16" and ?K = "i mod S div 9"
  have S: "0 < S" using assms(1,2) by linarith
  have "cs \<le> length cells" using assms(3,4) by simp
  note up = copy_rows_up [OF assms(1) S, of 16 "(rs - 1) * 16" "render S cs rs fg bg m0 cells" i, simplified]
  have down: "(i + 16 * S) div S div 16 = ?R + 1" "(i + 16 * S) mod S = i mod S"
      "(i + 16 * S) div S mod 16 = i div S mod 16"
    using S by simp_all
  have upper: "in_rect S 0 0 (cs * 9) ((rs - 1) * 16) i \<longleftrightarrow> ?R < rs - 1 \<and> ?K < cs"
    by (rule in_text_iff)
  have last: "in_rect S 0 ((rs - 1) * 16) (cs * 9) 16 i \<longleftrightarrow> ?R = rs - 1 \<and> ?K < cs"
    using in_text_iff [of S cs rs i] upper assms(3)
    by (auto simp: in_rect_def div_less_iff_less_mult algebra_simps)
  consider "?R < rs - 1 \<and> ?K < cs" | "?R = rs - 1 \<and> ?K < cs" | "\<not> (?R < rs \<and> ?K < cs)"
    by linarith
  then show "paint S 0 ((rs - 1) * 16) (cs * 9) 16 (\<lambda>_ _. bg)
      (fold (\<lambda>y m. memory_copy (y * S) ((y + 16) * S) (cs * 9) m) [0..<(rs - 1) * 16]
         (render S cs rs fg bg m0 cells)) i =
    render S cs rs fg bg m0 (drop cs cells @ replicate cs 32) i"
  proof cases
    case 1
    then have "?R * cs + ?K < cs * (rs - 1)" by (intro cell_index_less) simp_all
    then have "(drop cs cells @ replicate cs 32) ! (?R * cs + ?K) = cells ! ((?R + 1) * cs + ?K)"
      using assms(4) \<open>cs \<le> length cells\<close> by (simp add: nth_append diff_mult_distrib2 algebra_simps)
    moreover have "?R + 1 < rs" using 1 by linarith
    ultimately show ?thesis
      using 1 up upper last down by (simp add: paint_def render_def in_text_iff)
  next
    case 2
    then have "cs * (rs - 1) \<le> ?R * cs + ?K" "?R * cs + ?K < cs * rs"
      using cell_index_less [of ?R rs ?K cs] assms(3) by simp_all
    then have "(drop cs cells @ replicate cs 32) ! (?R * cs + ?K) = 32"
      using assms(4) by (simp add: nth_append diff_mult_distrib2)
    then show ?thesis
      using 2 last assms(3) by (simp add: paint_def render_def in_text_iff space_pixel)
  next
    case 3
    then have "\<not> in_rect S 0 0 (cs * 9) ((rs - 1) * 16) i" "\<not> in_rect S 0 ((rs - 1) * 16) (cs * 9) 16 i"
      using upper last assms(3) by auto
    then show ?thesis using 3 up unfolding paint_def by (auto simp: render_def in_text_iff)
  qed
qed

lemma fb_text_ready [simp]: "fb_text cs rs c \<Longrightarrow> ready c"
  by (simp add: fb_text_def fb_sound_def framebuffer_console_is_ready_def)

lemma fb_text_info [simp]:
  "fb_text cs rs c \<Longrightarrow> framebuffer_console_info (disp c) = Some (fb_console (disp c))"
  by (simp add: fb_text_def fb_sound_def framebuffer_console_info_def)

lemma fb_text_use [simp]:
  assumes "fb_text cs rs c"
  shows "fb_console_use c = (True, c)"
proof -
  have "cols (fbs c) \<noteq> 0" "rows (fbs c) \<noteq> 0" "\<not> cols (fbs c) \<le> cursor_col (fbs c)"
      "\<not> rows (fbs c) \<le> cursor_row (fbs c)"
    using assms by (auto simp: fb_text_def word_le_nat_alt)
  moreover have "glyph_width (fb_console (disp c)) = 8" "glyph_height (fb_console (disp c)) = 16"
    using assms by (simp_all add: fb_text_def fb_sound_def)
  moreover have a: "active (fbs c)" "cell_width (fbs c) = 9" "cell_height (fbs c) = 16"
      "fbc_width (fb_console (disp c)) div 9 = cols (fbs c)"
      "fbc_height (fb_console (disp c)) div 16 = rows (fbs c)"
    using assms by (simp_all add: fb_text_def)
  ultimately have "fb_console_use c = (True, c\<lparr>fbs := (fbs c)\<lparr>cursor_col := cursor_col (fbs c),
      cursor_row := cursor_row (fbs c), cell_width := 9, cell_height := 16, cols := cols (fbs c),
      rows := rows (fbs c), active := True\<rparr>\<rparr>)"
    using assms by (simp add: fb_console_use_def)
  then show ?thesis using a(1-3) by (cases c; cases "fbs c") simp
qed

lemma fb_text_mode [simp]: "fb_text cs rs c \<Longrightarrow> fb_mode c = (True, c)"
  by (simp add: fb_mode_def)

lemma fb_text_bounds:
  assumes "fb_text cs rs c"
  shows "cs * 9 \<le> unat (fbc_width (fb_console (disp c)))"
    and "rs * 16 \<le> unat (fbc_height (fb_console (disp c)))"
    and "cs * 9 \<le> unat (fbc_stride (fb_console (disp c)))"
    and "cs * rs < 2 ^ 31" and "cs < 2 ^ 31" and "rs < 2 ^ 31"
proof -
  let ?W = "unat (fbc_width (fb_console (disp c)))" and ?H = "unat (fbc_height (fb_console (disp c)))"
  have cs: "cs = ?W div 9" and rs: "rs = ?H div 16"
    using assms by (auto simp: fb_text_def unat_div)
  then show W: "cs * 9 \<le> ?W" and H: "rs * 16 \<le> ?H" by simp_all
  have s: "?W \<le> unat (fbc_stride (fb_console (disp c)))" "?W < 2 ^ 31" "?H < 2 ^ 31"
      "?H * unat (fbc_stride (fb_console (disp c))) < 2 ^ 32"
    using assms by (simp_all add: fb_text_def fb_sound_def)
  then show "cs * 9 \<le> unat (fbc_stride (fb_console (disp c)))" "cs < 2 ^ 31" "rs < 2 ^ 31"
    using W H by linarith+
  have "(rs * 16) * (cs * 9) \<le> ?H * unat (fbc_stride (fb_console (disp c)))"
    using W H s(1) by (intro mult_le_mono) linarith+
  then show "cs * rs < 2 ^ 31" using s(4) by (simp add: algebra_simps)
qed

lemma sint_eq_unat:
  assumes "unat (w :: u32) < 2 ^ 31"
  shows "sint w = int (unat w)"
proof -
  have "uint w < 2 ^ 31"
    using assms by (metis of_nat_less_iff of_nat_numeral of_nat_power uint_nat)
  moreover have "(0 :: int) \<le> uint w" by simp
  ultimately have "signed_take_bit 31 (uint w) = uint w"
    by (intro signed_take_bit_int_eq_self) linarith+
  then show ?thesis using sint_uint [of w] by (simp add: uint_nat [symmetric])
qed

lemma fb_fill_rect:
  assumes "fb_sound (disp c)" and "0 < unat w" and "0 < unat h"
    and "unat x + unat w \<le> unat (fbc_width (fb_console (disp c)))"
    and "unat y + unat h \<le> unat (fbc_height (fb_console (disp c)))"
  shows "fb_console_fill_rect x y w h color c =
    c\<lparr>disp := (disp c)\<lparr>fbmem := paint (unat (fbc_stride (fb_console (disp c)))) (unat x) (unat y)
        (unat w) (unat h) (\<lambda>_ _. color) (fbmem (disp c))\<rparr>\<rparr>"
proof -
  let ?W = "fbc_width (fb_console (disp c))" and ?H = "fbc_height (fb_console (disp c))"
    and ?S = "fbc_stride (fb_console (disp c))"
  have nz: "w \<noteq> 0" "h \<noteq> 0" using assms(2,3) by auto
  have in_range: "\<not> (?W \<le> x \<or> ?H \<le> y)" using assms(2-5) by (simp add: word_le_nat_alt)
  have noclip: "\<not> ?W < x + w" "\<not> ?H < y + h"
    using unat_add_le [OF assms(4)] unat_add_le [OF assms(5)] assms(4,5) by (simp_all add: word_less_nat_alt)
  have "fold (\<lambda>row m. write_line (unat ((y + of_nat row) * ?S) + unat x) ((\<lambda>_ _. color) row) (unat w) m)
      [0..<unat h] (fbmem (disp c)) =
    paint (unat ?S) (unat x) (unat y) (unat w) (unat h) (\<lambda>_ _. color) (fbmem (disp c))"
    using assms by (intro write_rows_paint [where H = "unat ?H"]) (auto simp: fb_sound_def)
  then show ?thesis
    using assms(1) nz in_range noclip
    by (simp add: fb_console_fill_rect_def framebuffer_console_info_def fb_sound_def)
qed

lemma unat_row_word:
  fixes S :: u32
  assumes "y < H" and "H * unat S < 2 ^ 32" and "H < 2 ^ 32"
  shows "unat (of_nat y * S) = y * unat S"
proof -
  have "y * unat S \<le> H * unat S" using assms(1) by (intro mult_le_mono1) simp
  then have "y * unat S < 2 ^ 32" using assms(2) by linarith
  then show ?thesis using unat_row_offset [of 0 y S] assms(1,3) by simp
qed

lemma fb_scroll:
  assumes "fb_text cs rs c" and "length cells = cs * rs"
    and "fbmem (disp c) = render (unat (fbc_stride (fb_console (disp c)))) cs rs (fg_color (fbs c))
      (bg_color (fbs c)) m0 cells"
  shows "fb_console_scroll c =
    c\<lparr>disp := (disp c)\<lparr>fbmem := render (unat (fbc_stride (fb_console (disp c)))) cs rs (fg_color (fbs c))
        (bg_color (fbs c)) m0 (drop cs cells @ replicate cs 32)\<rparr>,
      fbs := (fbs c)\<lparr>cursor_row := rows (fbs c) - 1, cursor_col := 0\<rparr>\<rparr>"
proof -
  let ?H = "unat (fbc_height (fb_console (disp c)))" and ?S = "fbc_stride (fb_console (disp c))"
    and ?bg = "bg_color (fbs c)" and ?m = "fbmem (disp c)"
  note b = fb_text_bounds [OF assms(1)]
  have c: "cell_width (fbs c) = 9" "cell_height (fbs c) = 16" "unat (cols (fbs c)) = cs"
      "unat (rows (fbs c)) = rs" "0 < cs" "0 < rs" "?H * unat ?S < 2 ^ 32" "?H < 2 ^ 31"
    using assms(1) by (auto simp: fb_text_def fb_sound_def)
  have nz: "cols (fbs c) \<noteq> 0" "rows (fbs c) \<noteq> 0" using c by auto
  have width: "unat (cols (fbs c) * 9) = cs * 9"
    using b(1) c(3) unat_mult_le [of "cols (fbs c)" 9 "fbc_width (fb_console (disp c))"] by simp
  have "1 \<le> rows (fbs c)" using c(4,6) by (simp add: word_le_nat_alt)
  then have "unat (rows (fbs c) - 1) = rs - 1" using c(4) by (simp add: unat_diff_le)
  then have height: "unat ((rows (fbs c) - 1) * 16) = (rs - 1) * 16"
    using b(2) c(6) unat_mult_le [of "rows (fbs c) - 1" 16 "fbc_height (fb_console (disp c))"] by simp
  have total: "unat ((rows (fbs c) - 1) * 16 + 16) = rs * 16"
    using b(2) c(6) height unat_add_le [of "(rows (fbs c) - 1) * 16" 16 "fbc_height (fb_console (disp c))"]
    by (simp add: diff_mult_distrib)
  have nz': "cols (fbs c) * 9 \<noteq> 0" using width c(5) by (metis mult_is_0 neq0_conv unat_0 zero_neq_numeral)
  have row: "unat (of_nat y * ?S) = y * unat ?S" if "y < ?H" for y
    using that c(7,8) by (intro unat_row_word [of y ?H]) simp_all
  have copied: "copy_lines ?S 16 ((rs - 1) * 16) (cs * 9) ?m =
      fold (\<lambda>y m. memory_copy (y * unat ?S) ((y + 16) * unat ?S) (cs * 9) m) [0..<(rs - 1) * 16] ?m"
    unfolding copy_lines_def
  proof (rule fold_cong)
    fix y assume "y \<in> set [0..<(rs - 1) * 16]"
    then have "y + 16 < ?H" "(of_nat y + 16 :: u32) = of_nat (y + 16)" using b(2) by auto
    then show "memory_copy (unat (of_nat y * ?S)) (unat ((of_nat y + 16) * ?S)) (cs * 9) =
        memory_copy (y * unat ?S) ((y + 16) * unat ?S) (cs * 9)"
      using row [of y] row [of "y + 16"] by (simp only:)
  qed simp_all
  have blanked: "fold (\<lambda>y m. write_line (unat (of_nat y * ?S)) (\<lambda>_. ?bg) (cs * 9) m)
        [(rs - 1) * 16..<min (rs * 16) ?H] m =
      paint (unat ?S) 0 ((rs - 1) * 16) (cs * 9) 16 (\<lambda>_ _. ?bg) m" for m
  proof -
    have "[(rs - 1) * 16..<min (rs * 16) ?H] = map (\<lambda>k. (rs - 1) * 16 + k) [0..<16]"
    proof -
      have "min (rs * 16) ?H = 16 + (rs - 1) * 16" using b(2) c(6) by (cases rs) simp_all
      then show ?thesis using map_add_upt [of "(rs - 1) * 16" 16] by (simp add: add.commute)
    qed
    moreover have "unat (of_nat ((rs - 1) * 16 + k) * ?S) = unat ((of_nat ((rs - 1) * 16) + of_nat k) * ?S) + 0"
      for k by simp
    moreover have "unat (of_nat ((rs - 1) * 16) :: u32) = (rs - 1) * 16"
    proof (rule unat_of_nat_less)
      have "(rs - 1) * 16 \<le> rs * 16" by simp
      then have "(rs - 1) * 16 < 4294967296"
        using b(2) unat_u32_less [of "fbc_height (fb_console (disp c))"] by linarith
      then show "(rs - 1) * 16 < 2 ^ LENGTH(32)" by simp
    qed
    ultimately show ?thesis
      using write_rows_paint [of 0 "cs * 9" ?S "of_nat ((rs - 1) * 16)" 16 ?H "\<lambda>_ _. ?bg" m] b(2,3) c
      by (simp add: fold_map comp_def diff_mult_distrib del: of_nat_mult)
  qed
  have "(16 :: u32) \<noteq> 0" by simp
  then show ?thesis
    by (simp only: fb_console_scroll_def Let_def fb_text_use [OF assms(1)] fb_text_info [OF assms(1)]
        prod.case option.case nz nz' c(1,2) width height total copied blanked if_False simp_thms)
      (simp only: assms(3) render_scroll [OF b(3) c(5,6) assms(2)])
qed

abbreviation put_cursor :: "nat \<Rightarrow> nat \<Rightarrow> console \<Rightarrow> console" where
  "put_cursor r k c \<equiv> c\<lparr>fbs := (fbs c)\<lparr>cursor_row := of_nat r, cursor_col := of_nat k\<rparr>\<rparr>"

abbreviation put_pixels :: "(nat \<Rightarrow> u32) \<Rightarrow> console \<Rightarrow> console" where
  "put_pixels mem c \<equiv> c\<lparr>disp := (disp c)\<lparr>fbmem := mem\<rparr>\<rparr>"

lemma fb_text_pixels [simp]: "fb_text cs rs (put_pixels mem c) = fb_text cs rs c"
  by (simp add: fb_text_def fb_sound_def)

lemma unat_cell:
  assumes "fb_text cs rs c" and "k < cs" and "r < rs"
  shows "unat (of_nat k :: u32) = k" and "unat (of_nat r :: u32) = r"
    and "unat (of_nat k * 9 :: u32) = k * 9" and "unat (of_nat r * 16 :: u32) = r * 16"
proof -
  note b = fb_text_bounds [OF assms(1)]
  have k: "k * 9 < 4294967296" "k < 4294967296"
    using b(1) assms(2) unat_u32_less [of "fbc_width (fb_console (disp c))"] by linarith+
  have r: "r * 16 < 4294967296" "r < 4294967296"
    using b(2) assms(3) unat_u32_less [of "fbc_height (fb_console (disp c))"] by linarith+
  show u: "unat (of_nat k :: u32) = k" "unat (of_nat r :: u32) = r"
    using k r by (simp_all add: unat_of_nat_less)
  show "unat (of_nat k * 9 :: u32) = k * 9" "unat (of_nat r * 16 :: u32) = r * 16"
    using u k r by (simp_all add: unat_mult_nowrap)
qed

lemma fb_text_cursor:
  assumes "fb_text cs rs c" and "k < cs" and "r < rs"
  shows "fb_text cs rs (put_cursor r k c)"
  using assms unat_cell [OF assms] by (auto simp: fb_text_def)

lemma fb_text_sint:
  assumes "fb_text cs rs c"
  shows "sint (cols (fbs c)) = int cs" and "sint (rows (fbs c)) = int rs" and "0 < cs" and "0 < rs"
  using assms fb_text_bounds [OF assms] by (auto simp: sint_eq_unat fb_text_def)

lemma fb_displays_cursor:
  assumes "fb_displays cs rs m0 c (cells, p)" and "q < cs * rs"
  shows "fb_displays cs rs m0 (put_cursor (q div cs) (q mod cs) c) (cells, q)"
proof -
  have t: "fb_text cs rs c" using assms(1) by (simp add: fb_displays_def)
  have "q mod cs < cs" "q div cs < rs"
    using fb_text_sint [OF t] assms(2) by (simp_all add: less_mult_imp_div_less mult.commute)
  then show ?thesis
    using assms fb_text_cursor [OF t] unat_cell [OF t] by (simp add: fb_displays_def)
qed

lemma fb_set_cursor:
  assumes "fb_text cs rs c" and "q < cs * rs"
  shows "set_cursor_offset (2 * int q) c = put_cursor (q div cs) (q mod cs) c"
proof -
  note s = fb_text_sint [OF assms(1)]
  have "q div cs < rs" "\<not> cs \<le> q mod cs"
    using s assms(2) by (simp_all add: less_mult_imp_div_less mult.commute not_le)
  then show ?thesis
    using assms(1) s
    by (simp add: set_cursor_offset_def Let_def cdiv_nonneg cmod_nonneg flip: zdiv_int zmod_int)
qed

lemma fb_cell_coords:
  assumes "fb_text cs rs c"
  shows "get_vga_offset_row (2 * int q) c = (int (q div cs), c)"
    and "get_vga_offset_col (2 * int q) c = (int (q mod cs), c)"
    and "q < cs * rs \<Longrightarrow> get_offset (int (q mod cs)) (int (q div cs)) c = (2 * int q, c)"
proof -
  note s = fb_text_sint [OF assms]
  show "get_vga_offset_row (2 * int q) c = (int (q div cs), c)"
    "get_vga_offset_col (2 * int q) c = (int (q mod cs), c)"
    using assms s
    by (simp_all add: get_vga_offset_row_def get_vga_offset_col_def cdiv_nonneg cmod_nonneg zdiv_int zmod_int)
  assume "q < cs * rs"
  then have "q div cs < rs" "q mod cs < cs"
    using s by (simp_all add: less_mult_imp_div_less mult.commute)
  moreover have "int (q div cs) * int cs + int (q mod cs) = int q"
    by (metis div_mult_mod_eq of_nat_add of_nat_mult)
  ultimately show "get_offset (int (q mod cs)) (int (q div cs)) c = (2 * int q, c)"
    using assms s by (simp add: get_offset_def Let_def not_le)
qed

lemma fb_get_cursor:
  assumes "fb_displays cs rs m0 c (cells, p)"
  shows "get_cursor_offset c = (2 * int p, c)" and "p < cs * rs"
proof -
  have t: "fb_text cs rs c" and p: "p = unat (cursor_row (fbs c)) * cs + unat (cursor_col (fbs c))"
    using assms by (simp_all add: fb_displays_def)
  have cur: "unat (cursor_col (fbs c)) < cs" "unat (cursor_row (fbs c)) < rs" "unat (cols (fbs c)) = cs"
    using t by (auto simp: fb_text_def)
  then show p': "p < cs * rs" unfolding p by (intro cell_index_less)
  have "p < 2 ^ 31" using p' fb_text_bounds(4) [OF t] by linarith
  then have "unat (cursor_row (fbs c) * cols (fbs c)) = unat (cursor_row (fbs c)) * cs"
    using cur p by (subst unat_mult_nowrap) simp_all
  then have "unat (cursor_row (fbs c) * cols (fbs c) + cursor_col (fbs c)) = p"
    using \<open>p < 2 ^ 31\<close> p by (subst unat_add_nowrap) simp_all
  then show "get_cursor_offset c = (2 * int p, c)"
    using t fb_text_sint [OF t] \<open>p < 2 ^ 31\<close> by (simp add: get_cursor_offset_def sint_eq_unat)
qed

abbreviation fb_cell :: "u8 \<Rightarrow> u8" where
  "fb_cell ch \<equiv> (if ch = 0 then 32 else ch)"

abbreviation fb_render :: "nat \<Rightarrow> nat \<Rightarrow> (nat \<Rightarrow> u32) \<Rightarrow> console \<Rightarrow> u8 list \<Rightarrow> (nat \<Rightarrow> u32)" where
  "fb_render cs rs m0 c cells \<equiv> render (unat (fbc_stride (fb_console (disp c)))) cs rs (fg_color (fbs c))
     (bg_color (fbs c)) m0 cells"

lemma fb_draw_cell:
  assumes "fb_text cs rs c" and "k < cs" and "r < rs" and "length cells = cs * rs"
    and "fbmem (disp c) = fb_render cs rs m0 c cells"
  shows "fb_console_draw_cell ch (int k) (int r) (fb_console (disp c)) c =
    put_pixels (fb_render cs rs m0 c (cells[r * cs + k := fb_cell ch])) c"
proof -
  note b = fb_text_bounds [OF assms(1)] and u = unat_cell [OF assms(1-3)]
  define d where "d = snd (framebuffer_console_draw_glyph (fb_cell ch) (of_nat k * 9) (of_nat r * 16)
      (fg_color (fbs c)) (bg_color (fbs c)) (disp c))"
  have sound: "fb_sound (disp c)" "fbc_bpp (fb_console (disp c)) = 32"
      "glyph_width (fb_console (disp c)) = 8" "cell_width (fbs c) = 9" "cell_height (fbs c) = 16"
    using assms(1) by (simp_all add: fb_text_def fb_sound_def)
  have fit: "k * 9 + 9 \<le> unat (fbc_width (fb_console (disp c)))"
      "r * 16 + 16 \<le> unat (fbc_height (fb_console (disp c)))"
    using b(1,2) assms(2,3) by linarith+
  have x: "unat (of_nat k * 9 + 8 :: u32) = k * 9 + 8"
    using fit u unat_add_le [of "of_nat k * 9" 8 "fbc_width (fb_console (disp c))"] by simp
  have d: "d = (disp c)\<lparr>fbmem := paint (unat (fbc_stride (fb_console (disp c)))) (k * 9) (r * 16) 8 16
      (glyph_pixel (fb_cell ch) (fg_color (fbs c)) (bg_color (fbs c))) (fbmem (disp c))\<rparr>"
    using draw_glyph_inside [OF sound(1,2), of "of_nat k * 9" "of_nat r * 16"] fit u by (simp add: d_def)
  then have dm: "fbmem d = paint (unat (fbc_stride (fb_console (disp c)))) (k * 9) (r * 16) 8 16
      (glyph_pixel (fb_cell ch) (fg_color (fbs c)) (bg_color (fbs c))) (fb_render cs rs m0 c cells)"
    by (simp add: assms(5))
  have "fb_sound d" using sound by (simp add: d fb_sound_def)
  then have "fb_console_fill_rect (of_nat k * 9 + 8) (of_nat r * 16) 1 16 (bg_color (fbs c)) (c\<lparr>disp := d\<rparr>) =
      put_pixels (paint (unat (fbc_stride (fb_console (disp c)))) (k * 9 + 8) (r * 16) 1 16
        (\<lambda>_ _. bg_color (fbs c)) (fbmem d)) c"
    using fit u x by (subst fb_fill_rect) (simp_all add: d)
  also have "\<dots> = put_pixels (fb_render cs rs m0 c (cells[r * cs + k := fb_cell ch])) c"
    using render_put [OF assms(2-4)] by (simp only: dm paint_split)
  finally show ?thesis
    by (simp add: fb_console_draw_cell_def Let_def sound(3-5) flip: d_def)
qed

lemma fb_finish:
  assumes "fb_text cs rs c" and "length cells = cs * rs" and "fbmem (disp c) = fb_render cs rs m0 c cells"
    and "r \<le> rs" and "k < cs"
  defines "t \<equiv> if r = rs then (drop cs cells @ replicate cs 32, (rs - 1) * cs + k) else (cells, r * cs + k)"
  shows "\<exists>c'. fb_console_finish (int cs) (int rs) (int k) (int r) c = (2 * int (snd t), c') \<and>
    fb_displays cs rs m0 c' t"
proof (cases "r = rs")
  case True
  obtain n where n: "rs = Suc n" using fb_text_sint [OF assms(1)] gr0_conv_Suc by blast
  let ?c = "put_pixels (fb_render cs rs m0 c (drop cs cells @ replicate cs 32)) c"
  have t: "fb_text cs rs (put_cursor n k ?c)"
    by (rule fb_text_cursor) (use assms n in simp_all)
  have u: "unat (of_nat n :: u32) = n" "unat (of_nat k :: u32) = k"
    using unat_cell [OF assms(1,5), of n] n by simp_all
  have d: "fb_displays cs rs m0 (put_cursor n k ?c) (drop cs cells @ replicate cs 32, n * cs + k)"
    using t u assms(2) n by (simp add: fb_displays_def)
  have "(fb_console_scroll c)\<lparr>fbs := (fbs (fb_console_scroll c))\<lparr>cursor_col := of_nat k, cursor_row := of_nat n\<rparr>\<rparr> =
      put_cursor n k ?c"
    by (simp add: fb_scroll [OF assms(1-3)])
  then show ?thesis using d True n by (simp add: t_def fb_console_finish_def)
next
  case False
  then have r: "r < rs" using assms(4) by simp
  have "fb_displays cs rs m0 (put_cursor r k c) (cells, r * cs + k)"
    using fb_text_cursor [OF assms(1,5) r] unat_cell [OF assms(1,5) r] assms(2,3)
    by (simp add: fb_displays_def)
  moreover have "c\<lparr>fbs := (fbs c)\<lparr>cursor_col := of_nat k, cursor_row := of_nat r\<rparr>\<rparr> = put_cursor r k c"
    by simp
  ultimately have "fb_displays cs rs m0
      (c\<lparr>fbs := (fbs c)\<lparr>cursor_col := of_nat k, cursor_row := of_nat r\<rparr>\<rparr>) (cells, r * cs + k)"
    by (simp only:)
  then show ?thesis using r by (simp add: t_def fb_console_finish_def)
qed

text \<open>The position after a character, in rows and columns as the code keeps it.\<close>

lemma tty_put_newline:
  assumes "0 < cs" and "q < cs * rs"
  shows "tty_put cs rs mk blank 10 (cells, q) =
    (if q div cs + 1 = rs then (drop cs cells @ replicate cs blank, (rs - 1) * cs)
     else (cells, (q div cs + 1) * cs))"
proof -
  have "q div cs < rs" using assms by (simp add: less_mult_imp_div_less mult.commute)
  then have "cs * rs \<le> (q div cs + 1) * cs \<longleftrightarrow> q div cs + 1 = rs"
    using assms(1) by (auto simp: mult.commute [of cs rs] simp del: mult_Suc)
  then show ?thesis by (auto simp: tty_put_def)
qed

lemma tty_put_char:
  assumes "0 < cs" and "q < cs * rs" and "ch \<noteq> 10"
  defines "k \<equiv> if q mod cs + 1 = cs then 0 else q mod cs + 1"
    and "r \<equiv> if q mod cs + 1 = cs then q div cs + 1 else q div cs"
  shows "tty_put cs rs mk blank ch (cells, q) =
      (if r = rs then (drop cs (cells[q := mk ch]) @ replicate cs blank, (rs - 1) * cs + k)
       else (cells[q := mk ch], r * cs + k))"
    and "k < cs" and "r \<le> rs"
proof -
  have m: "q mod cs < cs" "q div cs < rs" "q div cs * cs + q mod cs = q"
    using assms(1,2) by (simp_all add: less_mult_imp_div_less mult.commute)
  then show k: "k < cs" "r \<le> rs" by (auto simp: k_def r_def)
  have n: "r * cs + k = q + 1"
  proof (cases "q mod cs + 1 = cs")
    case True
    then have "r * cs + k = q div cs * cs + cs" by (simp add: k_def r_def)
    then show ?thesis using m(3) True by linarith
  next
    case False
    then have "r * cs + k = q div cs * cs + (q mod cs + 1)" by (simp only: k_def r_def if_False)
    then show ?thesis using m(3) by linarith
  qed
  show "tty_put cs rs mk blank ch (cells, q) =
      (if r = rs then (drop cs (cells[q := mk ch]) @ replicate cs blank, (rs - 1) * cs + k)
       else (cells[q := mk ch], r * cs + k))"
  proof (cases "r = rs")
    case True
    then have "cs * rs \<le> q + 1" "(rs - 1) * cs + k = q + 1 - cs"
      using n m by (auto simp: r_def k_def mult.commute diff_mult_distrib split: if_splits)
    then show ?thesis using True assms(3) by (simp add: tty_put_def)
  next
    case False
    then have "q + 1 < cs * rs" using cell_index_less [of r rs k cs] n k by simp
    then show ?thesis using False assms(3) n by (simp add: tty_put_def)
  qed
qed

lemma fb_print_char:
  assumes "fb_displays cs rs m0 c (cells, p)" and "q < cs * rs"
  shows "\<exists>c'. fb_console_print_char ch (int (q mod cs)) (int (q div cs)) c =
      (2 * int (snd (tty_put cs rs fb_cell 32 ch (cells, q))), c') \<and>
    fb_displays cs rs m0 c' (tty_put cs rs fb_cell 32 ch (cells, q))"
proof -
  let ?k = "q mod cs" and ?r = "q div cs"
  have t: "fb_text cs rs c" "length cells = cs * rs" "fbmem (disp c) = fb_render cs rs m0 c cells"
    using assms(1) by (simp_all add: fb_displays_def)
  note s = fb_text_sint [OF t(1)]
  have k: "?k < cs" and r: "?r < rs"
    using s assms(2) by (simp_all add: less_mult_imp_div_less mult.commute)
  show ?thesis
  proof (cases "ch = 10")
    case True
    have "fb_console_print_char ch (int ?k) (int ?r) c =
        fb_console_finish (int cs) (int rs) (int 0) (int (?r + 1)) c"
      using s t(1) True by (simp add: fb_console_print_char_def add.commute)
    moreover have "tty_put cs rs fb_cell 32 ch (cells, q) =
        (if ?r + 1 = rs then (drop cs cells @ replicate cs 32, (rs - 1) * cs + 0) else (cells, (?r + 1) * cs + 0))"
      using tty_put_newline [OF s(3) assms(2), of fb_cell 32 cells] True by simp
    moreover have "?r + 1 \<le> rs" using r by simp
    ultimately show ?thesis
      using fb_finish [OF t, of "?r + 1" 0] s(3) by (simp only:)
  next
    case False
    let ?k' = "if ?k + 1 = cs then 0 else ?k + 1" and ?r' = "if ?k + 1 = cs then ?r + 1 else ?r"
    let ?c = "put_pixels (fb_render cs rs m0 c (cells[q := fb_cell ch])) c"
    have "fb_console_draw_cell ch (int ?k) (int ?r) (fb_console (disp c)) c = ?c"
      using fb_draw_cell [OF t(1) k r t(2,3)] by simp
    then have "fb_console_print_char ch (int ?k) (int ?r) c =
        fb_console_finish (int cs) (int rs) (int ?k') (int ?r') ?c"
      using s t(1) False k by (auto simp: fb_console_print_char_def add.commute)
    then show ?thesis
      using fb_finish [of cs rs ?c "cells[q := fb_cell ch]" m0 ?r' ?k'] t
        tty_put_char(1) [OF s(3) assms(2) False, of fb_cell 32 cells]
        tty_put_char(2,3) [OF s(3) assms(2) False]
      by (simp only: fb_text_pixels) simp
  qed
qed

interpretation fb: text_mode "fb_displays cs rs m0" cs rs fb_cell 32 for cs rs m0
proof
  fix c :: console and t :: "u8 list \<times> nat" and q :: nat
  assume d: "fb_displays cs rs m0 c t"
  then have c: "fb_text cs rs c" "length (fst t) = cs * rs" by (simp_all add: fb_displays_def)
  then show "screen_is_available c" by (simp add: screen_is_available_def)
  show "tty_ok cs rs t"
    using c fb_text_sint [OF c(1)] fb_get_cursor(2) [of cs rs m0 c "fst t" "snd t"] d
    by (simp add: tty_ok_def)
  show "get_vga_offset_row (2 * int q) c = (int (q div cs), c)"
    "get_vga_offset_col (2 * int q) c = (int (q mod cs), c)"
    "q < cs * rs \<Longrightarrow> get_offset (int (q mod cs)) (int (q div cs)) c = (2 * int q, c)"
    using fb_cell_coords [OF c(1)] by simp_all
next
  fix c cells p
  assume "fb_displays cs rs m0 c (cells, p)"
  then show "\<exists>c'. get_cursor_offset c = (2 * int p, c') \<and> fb_displays cs rs m0 c' (cells, p)"
    using fb_get_cursor by auto
next
  fix c cells p q
  assume d: "fb_displays cs rs m0 c (cells, p)" "q < cs * rs"
  then have "fb_text cs rs c" by (simp add: fb_displays_def)
  then show "fb_displays cs rs m0 (set_cursor_offset (2 * int q) c) (cells, q)"
    using fb_displays_cursor [OF d] fb_set_cursor d(2) by simp
next
  fix c cells p q ch
  let ?t = "tty_put cs rs fb_cell 32 ch (cells, q)"
  assume d: "fb_displays cs rs m0 c (cells, p)" "q < cs * rs"
  then obtain c' where c': "fb_console_print_char ch (int (q mod cs)) (int (q div cs)) c = (2 * int (snd ?t), c')"
      "fb_displays cs rs m0 c' (fst ?t, snd ?t)"
    using fb_print_char by fastforce
  have t: "fb_text cs rs c" "fb_text cs rs c'" using d c' by (simp_all add: fb_displays_def)
  have p: "snd ?t < cs * rs" using fb_get_cursor(2) [OF c'(2)] .
  then have "fb_displays cs rs m0 (set_cursor_offset (2 * int (snd ?t)) c') (fst ?t, snd ?t)"
    using fb_displays_cursor [OF c'(2) p] fb_set_cursor [OF t(2) p] by (simp only:)
  then show "\<exists>c'. print_char ch (int (q mod cs)) (int (q div cs)) WHITE_ON_BLACK c = (2 * int (snd ?t), c') \<and>
      fb_displays cs rs m0 c' ?t"
    using c' t(1) by (simp add: print_char_def)
qed

section \<open>Clearing the screen and starting up\<close>

lemma vga_clear_memory:
  "fold (\<lambda>i m. m(vaddr (int i * 2) := 32, vaddr (int i * 2 + 1) := WHITE_ON_BLACK)) [0..<n] v a =
   (if 0xb8000 \<le> a \<and> a < 0xb8000 + 2 * n then (if even a then 32 else WHITE_ON_BLACK) else v a)"
proof (induction n arbitrary: a)
  case (Suc n)
  have "vaddr (int n * 2) = 0xb8000 + 2 * n" "vaddr (int n * 2 + 1) = 0xb8000 + 2 * n + 1"
    using vaddr_nat [of "2 * n"] by (simp_all add: mult.commute)
  then show ?case using Suc by auto
qed auto

lemma vga_clear:
  assumes "vga_mode c" and "vga_frame v0 (vram c)"
  shows "vga_displays v0 (clear_screen c) (replicate 2000 (vga_cell 32), 0)"
proof -
  let ?v = "fold (\<lambda>i m. m(vaddr (int i * 2) := 32, vaddr (int i * 2 + 1) := WHITE_ON_BLACK)) [0..<2000] (vram c)"
  have v: "?v a = (if 0xb8000 \<le> a \<and> a < 0xb8000 + 4000 then (if even a then 32 else WHITE_ON_BLACK) else vram c a)" for a
    using vga_clear_memory [of 2000 "vram c" a] by simp
  have "vga_cells ?v = replicate 2000 (vga_cell 32)"
    by (rule nth_equalityI) (simp_all add: vga_cells_def v)
  moreover have "vga_frame v0 ?v" using assms(2) by (simp add: vga_frame_def v)
  moreover have "clear_screen c = set_cursor_offset (2 * int 0) (c\<lparr>vram := ?v\<rparr>)"
    using assms(1) by (simp add: clear_screen_def vga_get_offset MAX_COLS_def MAX_ROWS_def vga_mode_def)
  ultimately show ?thesis
    using vga_displays_set_cursor [of "c\<lparr>vram := ?v\<rparr>" v0 0] assms(1) by simp
qed

lemma fb_clear:
  assumes "fb_text cs rs c"
  shows "fb_displays cs rs (fbmem (disp c)) (clear_screen c) (replicate (cs * rs) 32, 0)"
proof -
  note b = fb_text_bounds [OF assms]
  let ?S = "unat (fbc_stride (fb_console (disp c)))" and ?bg = "bg_color (fbs c)"
  have c: "fb_sound (disp c)" "cell_width (fbs c) = 9" "cell_height (fbs c) = 16" "0 < cs" "0 < rs"
      "unat (cols (fbs c)) = cs" "unat (rows (fbs c)) = rs"
    using assms by (auto simp: fb_text_def)
  have u: "unat (cols (fbs c) * 9) = cs * 9" "unat (rows (fbs c) * 16) = rs * 16"
    using b(1,2) c(6,7) unat_mult_le [of "cols (fbs c)" 9 "fbc_width (fb_console (disp c))"]
      unat_mult_le [of "rows (fbs c)" 16 "fbc_height (fb_console (disp c))"] by simp_all
  have "fb_console_fill_rect 0 0 (cols (fbs c) * 9) (rows (fbs c) * 16) ?bg c =
      put_pixels (paint ?S 0 0 (cs * 9) (rs * 16) (\<lambda>_ _. ?bg) (fbmem (disp c))) c"
    using c(1,4,5) u b(1,2) by (subst fb_fill_rect) simp_all
  then have "clear_screen c = put_cursor 0 0 (put_pixels (fb_render cs rs (fbmem (disp c)) c (replicate (cs * rs) 32)) c)"
    using assms c(2,3) render_blank [of ?S cs rs ?bg "fbmem (disp c)" "fg_color (fbs c)"]
    by (simp add: clear_screen_def fb_console_clear_def)
  moreover have "fb_text cs rs (put_cursor 0 0 (put_pixels (fb_render cs rs (fbmem (disp c)) c (replicate (cs * rs) 32)) c))"
    using assms c(4,5) by (intro fb_text_cursor) simp_all
  ultimately show ?thesis by (simp add: fb_displays_def)
qed

text \<open>
  A boot-information block describes a usable framebuffer: flagged, non-null, at least one text
  cell large, lines at least as long as the visible part, and every pixel index within 32 bits.
\<close>

definition usable_framebuffer :: "bootinfo \<Rightarrow> bool" where
  "usable_framebuffer b \<longleftrightarrow> flags b AND KERNEL_BOOTINFO_FLAG_FRAMEBUFFER \<noteq> 0 \<and> fb_base b \<noteq> 0 \<and>
     fb_bpp b = 32 \<and> 9 \<le> unat (fb_width b) \<and> 16 \<le> unat (fb_height b) \<and>
     unat (fb_width b) \<le> unat (fb_stride b) \<and> unat (fb_height b) * unat (fb_stride b) < 2 ^ 32 \<and>
     unat (fb_width b) < 2 ^ 31 \<and> unat (fb_height b) < 2 ^ 31"

lemma fb_console_use_text:
  assumes "fb_sound (disp c)" and "fbc_bpp (fb_console (disp c)) = 32"
    and "9 \<le> unat (fbc_width (fb_console (disp c)))" and "16 \<le> unat (fbc_height (fb_console (disp c)))"
  shows "\<exists>s. fb_console_use c = (True, c\<lparr>fbs := s\<rparr>) \<and>
    fb_text (unat (fbc_width (fb_console (disp c))) div 9) (unat (fbc_height (fb_console (disp c))) div 16)
      (c\<lparr>fbs := s\<rparr>)"
proof -
  let ?W = "fbc_width (fb_console (disp c))" and ?H = "fbc_height (fb_console (disp c))"
  have u: "unat (?W div 9) = unat ?W div 9" "unat (?H div 16) = unat ?H div 16" by (simp_all add: unat_div)
  then have pos: "0 < unat (?W div 9)" "0 < unat (?H div 16)"
    using assms(3,4) by (simp_all add: div_greater_zero_iff)
  then have one: "unat (?W div 9 - 1) < unat (?W div 9)" "unat (?H div 16 - 1) < unat (?H div 16)"
    by (metis diff_less measure_unat unat_gt_0 word_neq_0_conv zero_less_one)+
  have nz: "?W div 9 \<noteq> 0" "?H div 16 \<noteq> 0" using pos by auto
  have g: "glyph_width (fb_console (disp c)) = 8" "glyph_height (fb_console (disp c)) = 16" "ready c"
      "framebuffer_console_info (disp c) = Some (fb_console (disp c))"
    using assms(1) by (simp_all add: fb_sound_def framebuffer_console_is_ready_def framebuffer_console_info_def)
  define s where "s = (if \<not> active (fbs c)
      then (fbs c)\<lparr>cursor_col := 0, cursor_row := 0, fg_color := 0x00FFFFFF, bg_color := 0x00000000\<rparr>
      else (fbs c)\<lparr>cursor_col := (if ?W div 9 \<le> cursor_col (fbs c) then ?W div 9 - 1 else cursor_col (fbs c)),
                   cursor_row := (if ?H div 16 \<le> cursor_row (fbs c) then ?H div 16 - 1 else cursor_row (fbs c))\<rparr>)"
  let ?s = "s\<lparr>cell_width := 9, cell_height := 16, cols := ?W div 9, rows := ?H div 16, active := True\<rparr>"
  have "fb_console_use c = (True, c\<lparr>fbs := ?s\<rparr>)"
    using nz by (simp add: fb_console_use_def g Let_def s_def)
  moreover have "unat (cursor_col s) < unat (?W div 9)" "unat (cursor_row s) < unat (?H div 16)"
    using one pos by (auto simp: s_def word_le_nat_alt)
  then have "fb_text (unat ?W div 9) (unat ?H div 16) (c\<lparr>fbs := ?s\<rparr>)"
    using assms(1,2) pos u by (simp add: fb_text_def)
  ultimately show ?thesis by blast
qed

lemma framebuffer_boot:
  assumes "usable_framebuffer b"
  defines "cs \<equiv> unat (fb_width b) div 9" and "rs \<equiv> unat (fb_height b) div 16"
  shows "fst (framebuffer_console_init (Some b) (disp c))"
    and "fb_displays cs rs (fbmem (disp c)) (clear_screen (c\<lparr>disp := snd (framebuffer_console_init (Some b) (disp c))\<rparr>))
      (replicate (cs * rs) 32, 0)"
proof -
  let ?d = "snd (framebuffer_console_init (Some b) (disp c))"
  let ?c = "c\<lparr>disp := ?d\<rparr>"
  have b: "flags b AND KERNEL_BOOTINFO_FLAG_FRAMEBUFFER \<noteq> 0" "fb_base b \<noteq> 0" "fb_width b \<noteq> 0"
      "fb_height b \<noteq> 0" "fb_stride b \<noteq> 0"
    using assms(1) by (auto simp: usable_framebuffer_def)
  have init: "framebuffer_console_init (Some b) (disp c) = (True, ?d)"
    "fb_console ?d = \<lparr>fbc_base = fb_base b, fbc_size = fb_size b, fbc_width = fb_width b,
       fbc_height = fb_height b, fbc_stride = fb_stride b, fbc_bpp = fb_bpp b, glyph_width = 8, glyph_height = 16\<rparr>"
    "fb_console_ready ?d" "fbmem ?d = fbmem (disp c)"
    using b by (simp_all add: framebuffer_console_init_def screen_set_available_def FRAMEBUFFER_FONT_WIDTH_def
        FRAMEBUFFER_FONT_HEIGHT_def)
  then show "fst (framebuffer_console_init (Some b) (disp c))" by (metis fst_conv)
  have sound: "fb_sound ?d" "fbc_bpp (fb_console ?d) = 32"
    using assms(1) init by (simp_all add: fb_sound_def usable_framebuffer_def)
  obtain s where s: "fb_console_use ?c = (True, ?c\<lparr>fbs := s\<rparr>)" "fb_text cs rs (?c\<lparr>fbs := s\<rparr>)"
    using fb_console_use_text [of ?c] sound init(2) assms(1)
    by (auto simp: cs_def rs_def usable_framebuffer_def)
  have "clear_screen ?c = clear_screen (?c\<lparr>fbs := s\<rparr>)"
    using s init(3) unfolding clear_screen_def
    by (simp add: fb_mode_def framebuffer_console_is_ready_def)
  then show "fb_displays cs rs (fbmem (disp c)) (clear_screen ?c) (replicate (cs * rs) 32, 0)"
    using fb_clear [OF s(2)] init(4) by simp
qed

section \<open>A backspace at the top left corner\<close>

text \<open>
  With the VGA cursor at its home position \<open>kprint_backspace\<close> computes the offset \<open>-2\<close> and writes
  \<open>-1\<close> into the cursor registers.  From then on every character is rejected by the range check.
\<close>

definition vga_lost :: "console \<Rightarrow> bool" where
  "vga_lost c \<longleftrightarrow> vga_mode c \<and> crtc_pos (trace (mach c)) = 65535"

definition only_E :: "bytemem \<Rightarrow> bytemem \<Rightarrow> bool" where
  "only_E v v' \<longleftrightarrow> (\<forall>a. v' a = v a \<or> a = 0xb8000 + 3998 \<and> v' a = 69 \<or> a = 0xb8000 + 3999 \<and> v' a = RED_ON_WHITE)"

lemma lost_print_char:
  assumes "vga_lost c"
  shows "\<exists>v. print_char ch 15 819 WHITE_ON_BLACK c = (131070, c\<lparr>vram := v\<rparr>) \<and> only_E (vram c) v"
proof -
  have c: "vga_mode c" "screen_available (disp c)" using assms by (simp_all add: vga_lost_def vga_mode_def)
  have v: "vaddr (2 * MAX_COLS * MAX_ROWS - 2) = 0xb8000 + 3998" "vaddr (2 * MAX_COLS * MAX_ROWS - 1) = 0xb8000 + 3999"
    by (simp_all add: vaddr_def vga_consts)
  have "print_char ch 15 819 WHITE_ON_BLACK c =
      (131070, c\<lparr>vram := (vram c)(0xb8000 + 3998 := 69, 0xb8000 + 3999 := RED_ON_WHITE)\<rparr>)"
    unfolding print_char_def Let_def v using c by (simp add: vga_get_offset) (simp add: vga_consts)
  moreover have "only_E (vram c) ((vram c)(0xb8000 + 3998 := 69, 0xb8000 + 3999 := RED_ON_WHITE))"
    by (simp add: only_E_def)
  ultimately show ?thesis by blast
qed

lemma lost_print_string:
  "vga_lost c \<Longrightarrow> \<exists>v. print_string message 15 819 c = c\<lparr>vram := v\<rparr> \<and> only_E (vram c) v"
proof (induction message arbitrary: c)
  case Nil
  then show ?case by (intro exI [of _ "vram c"]) (simp add: only_E_def)
next
  case (Cons ch message)
  show ?case
  proof (cases "ch = 0")
    case True
    then show ?thesis by (intro exI [of _ "vram c"]) (simp add: only_E_def)
  next
    case False
    obtain v where v: "print_char ch 15 819 WHITE_ON_BLACK c = (131070, c\<lparr>vram := v\<rparr>)" "only_E (vram c) v"
      using lost_print_char [OF Cons.prems] by blast
    have c': "vga_lost (c\<lparr>vram := v\<rparr>)" "vga_mode (c\<lparr>vram := v\<rparr>)"
      using Cons.prems by (simp_all add: vga_lost_def)
    obtain w where w: "print_string message 15 819 (c\<lparr>vram := v\<rparr>) = c\<lparr>vram := v, vram := w\<rparr>" "only_E v w"
      using Cons.IH [OF c'(1)] by auto
    have "print_string (ch # message) 15 819 c = c\<lparr>vram := w\<rparr>"
      using False v(1) w(1) vga_get_row_nat [OF c'(2), of 65535] vga_get_col_nat [OF c'(2), of 65535] by simp
    moreover have "only_E (vram c) w" using v(2) w(2) by (auto simp: only_E_def) metis+
    ultimately show ?thesis by blast
  qed
qed

lemma lost_kprint:
  assumes "vga_lost c"
  shows "vga_lost (kprint message c) \<and> only_E (vram c) (vram (kprint message c))"
proof -
  have c: "vga_mode c" "screen_available (disp c)" using assms by (simp_all add: vga_lost_def vga_mode_def)
  obtain m where m: "get_cursor_offset c = (2 * int 65535, c\<lparr>mach := m\<rparr>)" "env m = env (mach c)"
      "crtc_pos (trace m) = 65535"
    using vga_get_cursor [OF c(1)] assms by (auto simp: vga_lost_def)
  have l: "vga_lost (c\<lparr>mach := m\<rparr>)" "vga_mode (c\<lparr>mach := m\<rparr>)" using c m by (simp_all add: vga_lost_def)
  obtain v where v: "print_string message 15 819 (c\<lparr>mach := m\<rparr>) = c\<lparr>mach := m, vram := v\<rparr>" "only_E (vram c) v"
    using lost_print_string [OF l(1), of message] by auto
  have "kprint message c = c\<lparr>mach := m, vram := v\<rparr>"
    using c(2) m(1) v(1) vga_get_row_nat [OF l(2), of 65535] vga_get_col_nat [OF l(2), of 65535]
    by (simp add: kprint_def kprint_at_def)
  then show ?thesis using v(2) l by (simp add: vga_lost_def)
qed

lemma backspace_home_lost:
  assumes "vga_displays v0 c (cells, 0)"
  shows "vga_lost (kprint_backspace c)"
proof -
  have c: "vga_mode c" "crtc_pos (trace (mach c)) = 0" "screen_available (disp c)" "vga_frame v0 (vram c)"
    using assms by (simp_all add: vga_displays_iff vga_mode_def)
  obtain m where m: "get_cursor_offset c = (0, c\<lparr>mach := m\<rparr>)" "env m = env (mach c)" "crtc_pos (trace m) = 0"
    using vga_get_cursor [OF c(1)] c(2) by auto
  let ?c = "c\<lparr>mach := m\<rparr>"
  have l: "vga_mode ?c" using c m by simp
  obtain m2 where m2: "get_cursor_offset ?c = (0, c\<lparr>mach := m2\<rparr>)" "env m2 = env (mach c)"
    using vga_get_cursor [OF l] m(2,3) by auto
  have rc: "get_vga_offset_row (- 2) ?c = (0, ?c)" "get_vga_offset_col (- 2) ?c = (- 1, ?c)"
    using l by (simp_all add: vga_get_row get_vga_offset_col_def MAX_COLS_def cdiv_def)
  define c2 where "c2 = snd (print_char 0 (- 1) 0 WHITE_ON_BLACK ?c)"
  have "vga_mode c2"
  proof -
    let ?c3 = "c\<lparr>mach := m2, vram := (vram c)(vaddr 0 := 0, vaddr 1 := WHITE_ON_BLACK)\<rparr>"
    have "print_char 0 (- 1) 0 WHITE_ON_BLACK ?c = print_char_end 2 ?c3"
      using l m2 c(3) by (simp add: print_char_def vga_consts WHITE_ON_BLACK_def)
    moreover have "vga_mode ?c3" using c(1) m2(2) by simp
    then have "vga_mode (snd (print_char_end 2 ?c3))"
      using vga_set_cursor [of ?c3 2] by (auto simp: print_char_end_def vga_consts) (simp add: vga_mode_def)
    ultimately show ?thesis by (simp add: c2_def)
  qed
  moreover have "kprint_backspace c = set_cursor_offset (- 2) c2"
    using c(3) m(1) rc by (simp add: kprint_backspace_def c2_def split: prod.split)
  moreover have "nat (cdiv (- 2) 2 mod 65536) = 65535" by (simp add: cdiv_def)
  ultimately show ?thesis
    using vga_set_cursor [of c2 "- 2"] by (auto simp: vga_lost_def)
qed

section \<open>Properties\<close>

definition crtc_device :: "io_event list \<Rightarrow> io_width \<Rightarrow> u16 \<Rightarrow> u32" where
  "crtc_device tr w p = (if p = REG_SCREEN_DATA then ucast (crtc_reg tr (crtc_index tr)) else 0)"

definition demo_vga :: console where
  "demo_vga = \<lparr>disp = demo_display\<lparr>screen_available := True, fb_console_ready := False\<rparr>,
     fbs = fb_console_state_init, screen_auto_cursor = True, vram = (\<lambda>_. 0),
     mach = \<lparr>trace = [], env = crtc_device\<rparr>, ub = False\<rparr>"

lemma demo_vga_displays: "vga_displays (\<lambda>_. 0) demo_vga (replicate 2000 (0, 0), 0)"
proof -
  have "vga_cells (\<lambda>_. 0) = replicate 2000 (0, 0)"
    by (rule nth_equalityI) (simp_all add: vga_cells_def)
  moreover have "crtc_keeps_cursor crtc_device"
    by (simp add: crtc_keeps_cursor_def crtc_device_def)
  ultimately show ?thesis
    by (simp add: vga_displays_iff vga_mode_def demo_vga_def framebuffer_console_is_ready_def crtc_pos_def
        vga_frame_def)
qed

text \<open>
  C5. In VGA text mode, on a controller that keeps its cursor registers, \<open>kprint\<close> refines the
  text-screen specification: whatever is printed, the 80 by 25 cells of the video memory and the
  hardware cursor become exactly those of the specification (line breaks, wrapping and scrolling
  included), and no byte outside the 4000 bytes of the text buffer changes.
\<close>

theorem vga_kprint_refines:
  assumes "vga_displays v0 c t"
  shows "vga_displays v0 (kprint message c) (tty_print 80 25 vga_cell (0, 0) message t)"
  using assms by (rule vga.kprint_displays)

theorem vga_kprint_refines_witness:
  "vga_displays (\<lambda>_. 0) (kprint [72, 105, 10, 33] demo_vga)
     (tty_print 80 25 vga_cell (0, 0) [72, 105, 10, 33] (replicate 2000 (0, 0), 0))"
  by (rule vga_kprint_refines [OF demo_vga_displays])

text \<open>
  C6. On the framebuffer \<open>kprint\<close> refines the same specification: starting from the boot
  information of a usable framebuffer, \<open>framebuffer_console_init\<close> and \<open>clear_screen\<close> show an empty
  text screen of \<open>width div 9\<close> columns and \<open>height div 16\<close> rows, and printing then keeps every pixel
  of the text area equal to the rendering of the specified cells, while pixels outside the text
  area keep their old colour.
\<close>

theorem fb_kprint_refines:
  assumes "usable_framebuffer b" and "cs = unat (fb_width b) div 9" and "rs = unat (fb_height b) div 16"
    and "c1 = clear_screen (c\<lparr>disp := snd (framebuffer_console_init (Some b) (disp c))\<rparr>)"
  shows "fb_displays cs rs (fbmem (disp c)) (kprint message c1)
           (tty_print cs rs fb_cell 32 message (replicate (cs * rs) 32, 0))"
  unfolding assms(2-4) by (rule fb.kprint_displays) (rule framebuffer_boot(2) [OF assms(1)])

definition demo_bootinfo :: bootinfo where
  "demo_bootinfo = \<lparr>magic = KERNEL_BOOTINFO_MAGIC, uefi_entry = 1, flags = 3, fb_base = 0x80000000,
     fb_size = 0x300000, fb_width = 1024, fb_height = 768, fb_stride = 1024, fb_bpp = 32\<rparr>"

theorem fb_kprint_refines_witness:
  "usable_framebuffer demo_bootinfo \<and>
   fb_displays 113 48 (\<lambda>_. 0)
     (kprint [72, 105] (clear_screen (demo_vga\<lparr>disp := snd (framebuffer_console_init (Some demo_bootinfo) (disp demo_vga))\<rparr>)))
     (tty_print 113 48 fb_cell 32 [72, 105] (replicate (113 * 48) 32, 0))"
proof -
  have u: "usable_framebuffer demo_bootinfo"
    by (simp add: usable_framebuffer_def demo_bootinfo_def KERNEL_BOOTINFO_FLAG_FRAMEBUFFER_def)
  have "fbmem (disp demo_vga) = (\<lambda>_. 0)" by (simp add: demo_vga_def demo_display_def)
  moreover have "unat (fb_width demo_bootinfo) div 9 = 113" "unat (fb_height demo_bootinfo) div 16 = 48"
    by (simp_all add: demo_bootinfo_def)
  ultimately show ?thesis
    using fb_kprint_refines [OF u _ _ refl, of 113 48 demo_vga "[72, 105]"] u by (simp only:)
qed

text \<open>
  C32. \<open>kprint_backspace\<close> away from the home position erases the cell before the cursor and moves
  the cursor onto it, in both display modes; every other cell is unchanged.
\<close>

theorem backspace_erases:
  assumes "0 < p"
  shows "(vga_displays v0 c (cells, p) \<longrightarrow>
      vga_displays v0 (kprint_backspace c) (cells[p - 1 := vga_cell 0], p - 1)) \<and>
    (fb_displays cs rs m0 c (chars, p) \<longrightarrow>
      fb_displays cs rs m0 (kprint_backspace c) (chars[p - 1 := 32], p - 1))"
  using vga.backspace_displays [OF _ assms, of v0 c cells] fb.backspace_displays [OF _ assms, of cs rs m0 c chars]
  by (simp add: tty_backspace_def)

theorem backspace_erases_witness:
  "vga_displays (\<lambda>_. 0) (kprint_backspace (kprint [72] demo_vga)) ((replicate 2000 (0, 0))[0 := (0, 0x0f)], 0)"
proof -
  have "vga_displays (\<lambda>_. 0) (kprint [72] demo_vga) ((replicate 2000 (0, 0))[0 := vga_cell 72], 1)"
    using vga.kprint_displays [OF demo_vga_displays, of "[72]"] by (simp add: tty_print_def tty_put_def)
  then show ?thesis
    using backspace_erases [of 1 "\<lambda>_. 0" "kprint [72] demo_vga"] by (fastforce simp: WHITE_ON_BLACK_def)
qed



end
