(* ===== verification/Printf.thy ===== *)
theory Printf
  imports Screen
begin

text \<open>
  \<open>printf\<close> of \<^verbatim>\<open>src/drivers/screen/screen.c\<close>.

  The variadic arguments are a list: an integer argument is the 64-bit slot it is passed in (an
  \<open>int\<close> or \<open>unsigned int\<close> conversion reads its low 32 bits), a string argument the bytes of the
  C string.  \<open>printf_format\<close> builds what the loop writes into \<open>buffer\<close>; it is \<open>None\<close> when a
  conversion finds no argument of its kind.  \<open>printf\<close> prints that text when it and its
  terminator fit into the 256 bytes of the buffer and records undefined behaviour otherwise.
  The scratch buffers of the conversions are uninitialised in C; they are zero here, and the
  lemmas on the converters show that the text does not depend on it.
\<close>

datatype va_arg = Num u64 | Str "u8 list"

definition cstring_bytes :: "bytemem \<Rightarrow> u8 list option" where
  "cstring_bytes m = (case strlen m of None \<Rightarrow> None | Some n \<Rightarrow> Some (fetch m 0 n))"

text \<open>The loop of \<open>%b\<close> over the bits 31 down to 0.\<close>

primrec binary_loop :: "nat \<Rightarrow> u32 \<Rightarrow> bool \<Rightarrow> u8 list" where
  "binary_loop 0 v started = (if started then [] else [48])"
| "binary_loop (Suc j) v started =
     (let b = (if v AND push_bit j 1 \<noteq> 0 then 49 else 48); started = (started \<or> b = 49)
      in if started then b # binary_loop j v started else binary_loop j v started)"

definition format_spec :: "u8 \<Rightarrow> va_arg list \<Rightarrow> (u8 list \<times> va_arg list) option" where
  "format_spec f args =
     (if f = of_char (CHR ''d'') then
        (case args of Num v # rest \<Rightarrow>
           (case int_to_ascii (sint (ucast v :: u32)) (\<lambda>_. 0) of
              None \<Rightarrow> None
            | Some m \<Rightarrow> map_option (\<lambda>xs. (xs, rest)) (cstring_bytes m))
         | _ \<Rightarrow> None)
      else if f = of_char (CHR ''u'') then
        (case args of Num v # rest \<Rightarrow>
           map_option (\<lambda>xs. (xs, rest)) (cstring_bytes (uint_to_ascii (ucast v) (\<lambda>_. 0) (\<lambda>_. 0)))
         | _ \<Rightarrow> None)
      else if f = of_char (CHR ''x'') then
        (case args of Num v # rest \<Rightarrow>
           map_option (\<lambda>xs. (xs, rest)) (cstring_bytes (hex_to_string_trimmed v (\<lambda>_. 0)))
         | _ \<Rightarrow> None)
      else if f = of_char (CHR ''b'') then
        (case args of Num v # rest \<Rightarrow> Some (binary_loop 32 (ucast v) False, rest) | _ \<Rightarrow> None)
      else if f = of_char (CHR ''s'') then
        (case args of Str xs # rest \<Rightarrow> Some (takeWhile (\<lambda>ch. ch \<noteq> 0) xs, rest) | _ \<Rightarrow> None)
      else if f = of_char (CHR ''c'') then
        (case args of Num v # rest \<Rightarrow> Some ([ucast v], rest) | _ \<Rightarrow> None)
      else if f = 37 then Some ([37], args)
      else Some ([37, f], args))"

function printf_format :: "u8 list \<Rightarrow> va_arg list \<Rightarrow> u8 list option" where
  "printf_format [] args = Some []"
| "printf_format (ch # format) args =
     (if ch = 0 then Some []
      else if ch = 37 \<and> format \<noteq> [] \<and> hd format \<noteq> 0
      then (case format_spec (hd format) args of
              None \<Rightarrow> None
            | Some (out, rest) \<Rightarrow> map_option ((@) out) (printf_format (tl format) rest))
      else map_option ((#) ch) (printf_format format args))"
  by pat_completeness auto
termination
  by (relation "measure (\<lambda>(format, args). length format)") (auto simp: less_Suc_eq)

definition printf :: "u8 list \<Rightarrow> va_arg list \<Rightarrow> console \<Rightarrow> console" where
  "printf format args c =
     (if \<not> screen_available (disp c) \<and> \<not> ready c then c
      else case printf_format format args of
        None \<Rightarrow> c\<lparr>ub := True\<rparr>
      | Some buffer \<Rightarrow> if length buffer < 256 then kprint buffer c else c\<lparr>ub := True\<rparr>)"

section \<open>Lemmas\<close>

definition bin_char :: "nat \<Rightarrow> u8" where
  "bin_char d = of_nat (d + 48)"

lemma cstring_bytes_eq: "cstring m xs \<Longrightarrow> cstring_bytes m = Some xs"
  by (simp add: cstring_bytes_def strlen_cstring cstring_fetch)

lemma radix_rev_digits:
  assumes "1 < b" and "b ^ k \<le> n" and "n < b ^ Suc k"
  shows "radix_rev b f n = map (\<lambda>i. f (n div b ^ i mod b)) [0..<Suc k]"
proof -
  have "length (radix_rev b f n) \<le> Suc k" using assms by (intro radix_rev_length) simp_all
  moreover have "\<not> length (radix_rev b f n) \<le> k"
    using radix_rev_beyond [OF assms(1), of f n k] assms(1,2) by (auto simp: div_eq_0_iff)
  ultimately have "length (radix_rev b f n) = Suc k" by simp
  then show ?thesis
    using assms(1) by (intro nth_equalityI) (simp_all add: radix_rev_nth del: upt_Suc)
qed

lemma binary_loop_started:
  "binary_loop j v True = map (\<lambda>i. bin_char (unat v div 2 ^ i mod 2)) (rev [0..<j])"
proof (induction j)
  case (Suc j)
  have "bin_char (unat v div 2 ^ j mod 2) = (if bit v j then 49 else 48)"
    using bit_unat_digit [of v j] by (cases "unat v div 2 ^ j mod 2 = 1") (auto simp: bin_char_def)
  then show ?case using Suc by (simp add: Let_def)
qed simp

lemma binary_loop_eq:
  assumes "unat v < 2 ^ j"
  shows "binary_loop j v False = rev (radix_rev 2 bin_char (unat v))"
  using assms
proof (induction j)
  case 0
  then show ?case by (simp add: radix_rev_small bin_char_def)
next
  case (Suc j)
  have digit: "unat v div 2 ^ j < 2" using Suc.prems by (simp add: less_mult_imp_div_less)
  show ?case
  proof (cases "bit v j")
    case True
    then have d: "unat v div 2 ^ j mod 2 = 1" by (simp add: bit_unat_digit)
    then have "2 ^ j \<le> unat v" by (metis div_less mod_0 not_le zero_neq_one)
    then have "radix_rev 2 bin_char (unat v) = map (\<lambda>i. bin_char (unat v div 2 ^ i mod 2)) [0..<Suc j]"
      using Suc.prems by (intro radix_rev_digits) simp_all
    then show ?thesis
      using True d by (simp add: Let_def binary_loop_started rev_map bin_char_def [of "Suc 0"])
  next
    case False
    then have "unat v div 2 ^ j = 0" using digit by (auto simp: bit_unat_digit less_2_cases_iff)
    then have "unat v < 2 ^ j" by (simp add: div_eq_0_iff)
    then show ?thesis using Suc.IH False by (simp add: Let_def)
  qed
qed

lemma format_d: "sint (ucast v :: u32) \<noteq> - (2 ^ 31) \<Longrightarrow>
  format_spec (of_char (CHR ''d'')) (Num v # args) = Some (decimal (sint (ucast v :: u32)), args)"
proof -
  let ?n = "sint (ucast v :: u32)"
  assume "?n \<noteq> - (2 ^ 31)"
  moreover have "- (2 ^ 31) \<le> ?n" "?n < 2 ^ 31"
    using sint_greater_eq [of "ucast v :: u32"] sint_less [of "ucast v :: u32"] by simp_all
  ultimately obtain m where "int_to_ascii ?n (\<lambda>_. 0) = Some m" "cstring m (decimal ?n)"
    using int_to_ascii_decimal [of ?n "\<lambda>_. 0"] by fastforce
  then show ?thesis by (simp add: format_spec_def cstring_bytes_eq)
qed

lemma format_numbers:
  "format_spec (of_char (CHR ''u'')) (Num v # args) = Some (decimal (uint (ucast v :: u32)), args)"
  "format_spec (of_char (CHR ''x'')) (Num v # args) = Some (rev (radix_rev 16 hex_char (unat v)), args)"
  "format_spec (of_char (CHR ''b'')) (Num v # args) =
     Some (rev (radix_rev 2 bin_char (unat (ucast v :: u32))), args)"
proof -
  have "cstring_bytes (uint_to_ascii (ucast v) (\<lambda>_. 0) (\<lambda>_. 0)) = Some (decimal (uint (ucast v :: u32)))"
    by (rule cstring_bytes_eq) (simp add: uint_to_ascii_decimal)
  then show "format_spec (of_char (CHR ''u'')) (Num v # args) = Some (decimal (uint (ucast v :: u32)), args)"
    by (simp add: format_spec_def of_char_def)
  have "cstring_bytes (hex_to_string_trimmed v (\<lambda>_. 0)) = Some (rev (radix_rev 16 hex_char (unat v)))"
    by (rule cstring_bytes_eq) (simp add: hex_to_string_trimmed_eq)
  then show "format_spec (of_char (CHR ''x'')) (Num v # args) = Some (rev (radix_rev 16 hex_char (unat v)), args)"
    by (simp add: format_spec_def of_char_def)
  show "format_spec (of_char (CHR ''b'')) (Num v # args) =
     Some (rev (radix_rev 2 bin_char (unat (ucast v :: u32))), args)"
    using binary_loop_eq [of "ucast v" 32] by (simp add: format_spec_def of_char_def)
qed

text \<open>A format with only ordinary characters prints itself, and formats can be cut at such a part.\<close>

lemma printf_format_plain:
  "0 \<notin> set xs \<Longrightarrow> 37 \<notin> set xs \<Longrightarrow>
   printf_format (xs @ format) args = map_option ((@) xs) (printf_format format args)"
proof (induction xs)
  case Nil
  then show ?case by (simp add: map_option.id [unfolded id_def])
next
  case (Cons x xs)
  then show ?case by (auto simp: map_option_case split: option.split)
qed

lemma printf_format_spec:
  "f \<noteq> 0 \<Longrightarrow> format_spec f args = Some (out, rest) \<Longrightarrow>
   printf_format (37 # f # format) args = map_option ((@) out) (printf_format format rest)"
  by simp

section \<open>Properties\<close>

definition bin_value :: "u8 \<Rightarrow> nat" where
  "bin_value c = unat c - 48"

text \<open>
  C34. The number conversions of \<open>printf\<close> print texts that read back as the argument: \<open>%d\<close> the
  signed value of the low 32 bits (for every value but \<open>INT_MIN\<close>), \<open>%u\<close> their unsigned value,
  \<open>%x\<close> all 64 bits in base 16 and \<open>%b\<close> the low 32 bits in base 2; each consumes one argument.
\<close>

theorem printf_numbers_roundtrip:
  assumes "sint (ucast v :: u32) \<noteq> - (2 ^ 31)"
  shows "\<exists>d u x b. printf_format (lit ''%d %u %x %b'') [Num v, Num v, Num v, Num v] =
      Some (d @ [32] @ u @ [32] @ x @ [32] @ b) \<and>
    parse_decimal d = sint (ucast v :: u32) \<and> parse_decimal u = uint (ucast v :: u32) \<and>
    radix_val 16 hex_value (rev x) = unat v \<and>
    radix_val 2 bin_value (rev b) = unat (ucast v :: u32)"
proof -
  let ?d = "decimal (sint (ucast v :: u32))" and ?u = "decimal (uint (ucast v :: u32))"
    and ?x = "rev (radix_rev 16 hex_char (unat v))"
    and ?b = "rev (radix_rev 2 bin_char (unat (ucast v :: u32)))"
  have c: "of_char (CHR ''d'') = (100 :: u8)" "of_char (CHR ''u'') = (117 :: u8)"
    "of_char (CHR ''x'') = (120 :: u8)" "of_char (CHR ''b'') = (98 :: u8)"
    by (simp_all add: of_char_def)
  have fmt: "lit ''%d %u %x %b'' = [37, 100, 32, 37, 117, 32, 37, 120, 32, 37, 98]"
    by (simp add: lit_def of_char_def)
  have "printf_format (lit ''%d %u %x %b'') [Num v, Num v, Num v, Num v] =
      Some (?d @ [32] @ ?u @ [32] @ ?x @ [32] @ ?b)"
    unfolding fmt using format_d [OF assms] format_numbers [of v] by (simp add: c)
  moreover have "radix_val 16 hex_value (rev ?x) = unat v"
    using radix_val_rev [of 16 hex_value hex_char "unat v"] by (simp add: hex_value_char)
  moreover have "bin_value (bin_char d) = d" if "d < 2" for d
    using that by (auto simp: bin_value_def bin_char_def less_2_cases_iff)
  then have "radix_val 2 bin_value (rev ?b) = unat (ucast v :: u32)"
    using radix_val_rev [of 2 bin_value bin_char] by simp
  ultimately show ?thesis using parse_decimal_decimal by blast
qed

theorem printf_numbers_roundtrip_witness:
  "\<exists>d u x b. printf_format (lit ''%d %u %x %b'') [Num 0xFFFFFFD6, Num 0xFFFFFFD6, Num 0xFFFFFFD6, Num 0xFFFFFFD6] =
      Some (d @ [32] @ u @ [32] @ x @ [32] @ b) \<and>
    parse_decimal d = - 42 \<and> parse_decimal u = 0xFFFFFFD6 \<and> radix_val 16 hex_value (rev x) = 0xFFFFFFD6 \<and>
    radix_val 2 bin_value (rev b) = 0xFFFFFFD6"
  using printf_numbers_roundtrip [of "0xFFFFFFD6"] by simp



end
