(* ===== verification/Cpu.thy ===== *)
theory Cpu
  imports Printf
begin

text \<open>
  \<^verbatim>\<open>src/cpu\<close>: the interrupt descriptor table (\<^verbatim>\<open>idt.c\<close>), exception and interrupt dispatch
  (\<^verbatim>\<open>isr.c\<close>), the timer (\<^verbatim>\<open>timer.c\<close>) and the FPU set-up (\<^verbatim>\<open>fpu.c\<close>).

  \<open>cpu\<close> is the state behind these files together with the console.  Later components extend the
  record with their own fields, so every operation here works on \<open>'a cpu_scheme\<close>.  A handler in
  the table \<open>interrupt_handlers\<close> is a function pointer; the three functions the kernel ever
  registers are the constructors of \<open>isr_t\<close>, and \<open>irq_handler\<close> takes what calling one of them does
  as its argument.  The addresses of the assembly entry stubs and of the table itself are set by
  the linker: \<open>stub n\<close> is the address of the stub for vector \<open>n\<close> and \<open>idt_addr\<close> that of \<open>idt\<close>.
\<close>

section \<open>State\<close>

record idt_gate =
  low_offset :: u16
  sel :: u16
  ist :: u8
  type_attr :: u8
  mid_offset :: u16
  high_offset :: u32
  zero_field :: u32

record idt_register =
  limit :: u16
  base :: u64

record registers =
  r15 :: u64
  r14 :: u64
  r13 :: u64
  r12 :: u64
  r11 :: u64
  r10 :: u64
  r9 :: u64
  r8 :: u64
  rbp :: u64
  rdi :: u64
  rsi :: u64
  rdx :: u64
  rcx :: u64
  rbx :: u64
  rax :: u64
  int_no :: u64
  err_code :: u64
  rip :: u64
  cs_reg :: u64
  eflags :: u64
  rsp :: u64
  ss_reg :: u64

datatype isr_t = Timer_callback | Ps2_irq1_handler | Uhci_irq_top

record cpu =
  con :: console
  idt :: "idt_gate list"
  idt_reg :: idt_register
  interrupt_handlers :: "isr_t option list"
  tick :: u64
  frequency :: u32
  cr0 :: u64
  cr4 :: u64

definition IDT_ENTRIES :: nat where "IDT_ENTRIES = 256"
definition KERNEL_CS :: u16 where "KERNEL_CS = 0x08"
definition IRQ0 :: u8 where "IRQ0 = 32"
definition IRQ1 :: u8 where "IRQ1 = 33"

abbreviation on_con :: "(console \<Rightarrow> console) \<Rightarrow> 'a cpu_scheme \<Rightarrow> 'a cpu_scheme" where
  "on_con f s \<equiv> s\<lparr>con := f (con s)\<rparr>"

abbreviation on_mach :: "(machine \<Rightarrow> machine) \<Rightarrow> 'a cpu_scheme \<Rightarrow> 'a cpu_scheme" where
  "on_mach f s \<equiv> on_con (\<lambda>c. c\<lparr>mach := f (mach c)\<rparr>) s"

section \<open>The interrupt descriptor table\<close>

definition gate_for :: "u64 \<Rightarrow> idt_gate" where
  "gate_for handler =
     \<lparr>low_offset = ucast (handler AND 0xFFFF), sel = 0x08, ist = 0, type_attr = 0x8E,
      mid_offset = ucast (drop_bit 16 handler AND 0xFFFF),
      high_offset = ucast (drop_bit 32 handler AND 0xFFFFFFFF), zero_field = 0\<rparr>"

definition set_idt_gate :: "nat \<Rightarrow> u64 \<Rightarrow> 'a cpu_scheme \<Rightarrow> 'a cpu_scheme" where
  "set_idt_gate num handler s = s\<lparr>idt := (idt s)[num := gate_for handler]\<rparr>"

definition set_idt :: "u64 \<Rightarrow> 'a cpu_scheme \<Rightarrow> 'a cpu_scheme" where
  "set_idt idt_addr s =
     (let s1 = s\<lparr>idt_reg := \<lparr>limit = of_nat (IDT_ENTRIES * 16 - 1), base = idt_addr\<rparr>\<rparr>
      in on_mach (insn (Lidt (base (idt_reg s1)) (limit (idt_reg s1)))) s1)"

definition pic_remap :: "(u16 \<times> u8) list" where
  "pic_remap = [(0x20, 0x11), (0xA0, 0x11), (0x21, 0x20), (0xA1, 0x28), (0x21, 0x04), (0xA1, 0x02),
     (0x21, 0x01), (0xA1, 0x01), (0x21, 0x0), (0xA1, 0x0)]"

definition isr_install :: "(nat \<Rightarrow> u64) \<Rightarrow> u64 \<Rightarrow> 'a cpu_scheme \<Rightarrow> 'a cpu_scheme" where
  "isr_install stub idt_addr s =
     (let s1 = fold (\<lambda>n. set_idt_gate n (stub n)) [0..<32] s;
          s2 = fold (\<lambda>(p, v). on_mach (port_byte_out p v)) pic_remap s1;
          s3 = fold (\<lambda>n. set_idt_gate n (stub n)) [32..<48] s2
      in set_idt idt_addr s3)"

section \<open>Exceptions and interrupts\<close>

definition exception_messages :: "u8 list list" where
  "exception_messages = map lit
     [''Division by Zero'', ''Debug'', ''Non-Maskable Interrupt'', ''Breakpoint'', ''Overflow'',
      ''Out of Bounds'', ''Invalid Opcode'', ''No Coprocessor'', ''Double Fault'',
      ''Coprocessor Segment Overrun'', ''Bat TSS'', ''Segment not Present'', ''Stack Fault'',
      ''General Protection Fault'', ''Page Fault'', ''Unknown Interrupt'', ''Coprocessor Fault'',
      ''Alignment Check'', ''Machine Check'', ''Reserved'', ''Reserved'', ''Reserved'', ''Reserved'',
      ''Reserved'', ''Reserved'', ''Reserved'', ''Reserved'', ''Reserved'', ''Reserved'', ''Reserved'',
      ''Reserved'', ''Reserved'']"

text \<open>
  \<open>isr_handler\<close>: the result says whether the routine is stuck in its \<open>hlt\<close> loop.  The text of the
  interrupt number goes into a four-byte array; a longer one runs over it.
\<close>

definition isr_handler :: "registers \<Rightarrow> 'a cpu_scheme \<Rightarrow> bool \<times> 'a cpu_scheme" where
  "isr_handler r s =
     (let s1 = on_con (kprint (lit ''Received interrupt: '')) s;
          s2 = (case int_to_ascii (sint (ucast (int_no r) :: u32)) (\<lambda>_. 0) of
                  None \<Rightarrow> on_con (\<lambda>c. c\<lparr>ub := True\<rparr>) s1
                | Some m \<Rightarrow> (case cstring_bytes m of
                     None \<Rightarrow> on_con (\<lambda>c. c\<lparr>ub := True\<rparr>) s1
                   | Some xs \<Rightarrow> if length xs < 4 then on_con (kprint xs) s1
                                else on_con (\<lambda>c. c\<lparr>ub := True\<rparr>) s1));
          s3 = on_con (kprint [10]) s2
      in if int_no r < 32
         then let s4 = on_con (kprint [10] \<circ> kprint (exception_messages ! unat (int_no r))) s3
              in (True, on_mach (insn Hlt) s4)
         else (False, s3))"

definition register_interrupt_handler :: "u8 \<Rightarrow> isr_t \<Rightarrow> 'a cpu_scheme \<Rightarrow> 'a cpu_scheme" where
  "register_interrupt_handler n handler s =
     s\<lparr>interrupt_handlers := (interrupt_handlers s)[unat n := Some handler]\<rparr>"

text \<open>The index \<open>int_no\<close> is not checked; an interrupt number past the table is undefined behaviour.\<close>

definition irq_handler ::
  "(isr_t \<Rightarrow> registers \<Rightarrow> 'a cpu_scheme \<Rightarrow> 'a cpu_scheme) \<Rightarrow> registers \<Rightarrow> 'a cpu_scheme \<Rightarrow> 'a cpu_scheme" where
  "irq_handler call r s =
     (let s1 = (if 40 \<le> int_no r then on_mach (port_byte_out 0xA0 0x20) s else s);
          s2 = on_mach (port_byte_out 0x20 0x20) s1
      in if unat (int_no r) < length (interrupt_handlers s2)
         then (case interrupt_handlers s2 ! unat (int_no r) of None \<Rightarrow> s2 | Some h \<Rightarrow> call h r s2)
         else on_con (\<lambda>c. c\<lparr>ub := True\<rparr>) s2)"

section \<open>The timer\<close>

definition timer_callback :: "registers \<Rightarrow> 'a cpu_scheme \<Rightarrow> 'a cpu_scheme" where
  "timer_callback regs s = s\<lparr>tick := tick s + 1\<rparr>"

text \<open>A frequency of zero is a division by zero.\<close>

definition init_timer :: "u32 \<Rightarrow> 'a cpu_scheme \<Rightarrow> 'a cpu_scheme option" where
  "init_timer freq s =
     (let s1 = (register_interrupt_handler IRQ0 Timer_callback s)\<lparr>frequency := freq\<rparr> in
      if freq = 0 then None
      else let divisor = 1193180 div freq;
               low = ucast (divisor AND 0xFF);
               high = ucast (drop_bit 8 divisor AND 0xFF)
           in Some (on_mach (port_byte_out 0x40 high \<circ> port_byte_out 0x40 low \<circ> port_byte_out 0x43 0x36) s1))"

definition timer_get_ticks :: "'a cpu_scheme \<Rightarrow> u64" where
  "timer_get_ticks s = tick s"

text \<open>
  The busy-wait loop.  The list holds, for each turn of the loop, what the interrupts that arrive
  during it do to the state; \<open>None\<close> means that the loop is still waiting after the last of them.
\<close>

fun sleep_loop :: "u64 \<Rightarrow> ('a cpu_scheme \<Rightarrow> 'a cpu_scheme) list \<Rightarrow> 'a cpu_scheme \<Rightarrow> 'a cpu_scheme option" where
  "sleep_loop end_ticks [] s = (if timer_get_ticks s < end_ticks then None else Some s)"
| "sleep_loop end_ticks (irq # irqs) s =
     (if timer_get_ticks s < end_ticks then sleep_loop end_ticks irqs (irq s) else Some s)"

definition sleep_ticks :: "u64 \<Rightarrow> ('a cpu_scheme \<Rightarrow> 'a cpu_scheme) list \<Rightarrow> 'a cpu_scheme \<Rightarrow> 'a cpu_scheme option" where
  "sleep_ticks ticks irqs s = sleep_loop (tick s + ticks) irqs s"

definition sleep_ms :: "u64 \<Rightarrow> ('a cpu_scheme \<Rightarrow> 'a cpu_scheme) list \<Rightarrow> 'a cpu_scheme \<Rightarrow> 'a cpu_scheme option" where
  "sleep_ms milliseconds irqs s =
     (let ticks = milliseconds * ucast (frequency s) div 1000 in sleep_ticks ticks irqs s)"

definition irq_install :: "'a cpu_scheme \<Rightarrow> 'a cpu_scheme option" where
  "irq_install s = init_timer 4000 (on_mach (insn Sti) s)"

section \<open>The FPU\<close>

definition cpu_enable_fpu_sse :: "'a cpu_scheme \<Rightarrow> 'a cpu_scheme" where
  "cpu_enable_fpu_sse s =
     (let c0 = cr0 s; c4 = cr4 s;
          c0 = c0 AND NOT (push_bit 2 1);
          c0 = c0 OR push_bit 1 1;
          c0 = c0 AND NOT (push_bit 3 1);
          c4 = c4 OR push_bit 9 1;
          c4 = c4 OR push_bit 10 1
      in on_mach (insn Fninit) (s\<lparr>cr0 := c0, cr4 := c4\<rparr>))"

section \<open>Lemmas\<close>

text \<open>The address the processor reassembles from a gate.\<close>

definition gate_handler :: "idt_gate \<Rightarrow> u64" where
  "gate_handler g = push_bit 32 (ucast (high_offset g)) OR push_bit 16 (ucast (mid_offset g)) OR ucast (low_offset g)"

definition interrupt_gate_for :: "u64 \<Rightarrow> idt_gate \<Rightarrow> bool" where
  "interrupt_gate_for handler g \<longleftrightarrow> gate_handler g = handler \<and> sel g = KERNEL_CS \<and> type_attr g = 0x8E \<and>
     ist g = 0 \<and> zero_field g = 0"

lemma gate_for_handler: "gate_handler (gate_for h) = h"
proof (rule bit_word_eqI)
  fix n assume "n < LENGTH(64)"
  have m: "(0xFFFF :: u64) = mask 16" "(0xFFFFFFFF :: u64) = mask 32" by (simp_all add: mask_eq_exp_minus_1)
  consider "n < 16" | "16 \<le> n" "n < 32" | "32 \<le> n" by linarith
  then show "bit (gate_handler (gate_for h)) n \<longleftrightarrow> bit h n"
    using \<open>n < LENGTH(64)\<close>
    by cases (auto simp: gate_handler_def gate_for_def m bit_simps)
qed

lemma gate_for_interrupt: "interrupt_gate_for h (gate_for h)"
  unfolding interrupt_gate_for_def gate_for_handler by (simp add: gate_for_def KERNEL_CS_def)

lemma idt_on_con [simp]: "idt (on_con f s) = idt s" "interrupt_handlers (on_con f s) = interrupt_handlers s"
  "tick (on_con f s) = tick s"
  by simp_all

lemma fold_gates_length [simp]:
  "length (idt (fold (\<lambda>n. set_idt_gate n (stub n)) ns s)) = length (idt s)"
  by (induction ns arbitrary: s) (simp_all add: set_idt_gate_def)

lemma fold_gates:
  assumes "k < length (idt s)"
  shows "idt (fold (\<lambda>n. set_idt_gate n (stub n)) [a..<b] s) ! k =
    (if a \<le> k \<and> k < b then gate_for (stub k) else idt s ! k)"
proof (induction b)
  case (Suc b)
  have "idt (set_idt_gate b (stub b) t) ! k = (if k = b then gate_for (stub b) else idt t ! k)"
    if "length (idt t) = length (idt s)" for t :: "'a cpu_scheme"
    using assms that by (simp add: set_idt_gate_def nth_list_update)
  then show ?case using Suc by auto
qed simp

lemma fold_gates_con [simp]:
  "con (fold (\<lambda>n. set_idt_gate n (stub n)) ns s) = con s"
  "interrupt_handlers (fold (\<lambda>n. set_idt_gate n (stub n)) ns s) = interrupt_handlers s"
  by (induction ns arbitrary: s) (simp_all add: set_idt_gate_def)

lemma fold_out:
  "idt (fold (\<lambda>(p, v). on_mach (port_byte_out p v)) xs s) = idt s"
  "trace (mach (con (fold (\<lambda>(p, v). on_mach (port_byte_out p v)) xs s))) =
     rev (map (\<lambda>(p, v). Out8 p v) xs) @ trace (mach (con s))"
  by (induction xs arbitrary: s) (auto split: prod.splits)

text \<open>
  A timer interrupt: the processor enters \<open>irq_handler\<close> with vector 32, and the only handler it
  can reach there is \<open>timer_callback\<close>.
\<close>

definition timer_ready :: "'a cpu_scheme \<Rightarrow> bool" where
  "timer_ready s \<longleftrightarrow> length (interrupt_handlers s) = 256 \<and> interrupt_handlers s ! 32 = Some Timer_callback"

lemma timer_irq:
  assumes "timer_ready s" and "int_no r = 32" and "call Timer_callback = timer_callback"
  shows "irq_handler call r s = on_mach (port_byte_out 0x20 0x20) s\<lparr>tick := tick s + 1\<rparr>"
  using assms by (simp add: irq_handler_def timer_ready_def timer_callback_def)

lemma timer_irqs:
  assumes "timer_ready s" and "int_no r = 32" and "call Timer_callback = timer_callback"
  shows "(irq_handler call r ^^ k) s =
    on_mach ((port_byte_out 0x20 0x20) ^^ k) s\<lparr>tick := tick s + of_nat k\<rparr>"
proof (induction k)
  case (Suc k)
  let ?t = "on_mach ((port_byte_out 0x20 0x20) ^^ k) s\<lparr>tick := tick s + of_nat k\<rparr>"
  have "timer_ready ?t" using assms(1) by (simp add: timer_ready_def)
  then show ?case using Suc timer_irq [of ?t r call, OF _ assms(2,3)] by (simp add: add.assoc add.commute)
qed simp

lemma sleep_loop_ticks:
  assumes "timer_ready s" and "int_no r = 32" and "call Timer_callback = timer_callback"
    and "unat (tick s) + k = unat end_ticks"
  shows "sleep_loop end_ticks (replicate n (irq_handler call r)) s =
    (if k \<le> n then Some ((irq_handler call r ^^ k) s) else None)"
  using assms(1,4)
proof (induction n arbitrary: s k)
  case 0
  then show ?case by (auto simp: timer_get_ticks_def word_less_nat_alt)
next
  case (Suc n)
  show ?case
  proof (cases k)
    case 0
    then show ?thesis using Suc.prems by (simp add: timer_get_ticks_def word_less_nat_alt)
  next
    case (Suc j)
    let ?t = "irq_handler call r s"
    have t: "?t = on_mach (port_byte_out 0x20 0x20) s\<lparr>tick := tick s + 1\<rparr>"
      by (rule timer_irq [of s r call, OF Suc.prems(1) assms(2,3)])
    have "unat (tick s + 1) = unat (tick s) + 1"
      using Suc.prems(2) Suc unat_add_le [of "tick s" 1 end_ticks] by simp
    then have "unat (tick ?t) + j = unat end_ticks" "timer_ready ?t"
      using Suc.prems Suc t by (simp_all add: timer_ready_def)
    then have "sleep_loop end_ticks (replicate n (irq_handler call r)) ?t =
        (if j \<le> n then Some ((irq_handler call r ^^ j) ?t) else None)"
      by (rule Suc.IH [rotated])
    then show ?thesis
      using Suc.prems(2) Suc by (simp add: timer_get_ticks_def word_less_nat_alt funpow_swap1)
  qed
qed

section \<open>Properties\<close>

text \<open>
  C36. \<open>isr_install\<close> fills exactly the vectors 0 to 47: the address the processor reassembles from
  each of their gates is the address of the stub for that vector, through the kernel code segment
  and a present interrupt gate; the other 208 entries are left alone; the port writes are the ten
  writes that move the two interrupt controllers to the vectors 32 and 40, followed by the load of
  the table with its full size of 4096 bytes.
\<close>

theorem isr_install_correct:
  assumes "length (idt s) = IDT_ENTRIES" and "k < IDT_ENTRIES"
  shows "(if k < 48 then interrupt_gate_for (stub k) (idt (isr_install stub idt_addr s) ! k)
          else idt (isr_install stub idt_addr s) ! k = idt s ! k) \<and>
    trace (mach (con (isr_install stub idt_addr s))) =
      [Insn (Lidt idt_addr 4095), Out8 0xA1 0, Out8 0x21 0, Out8 0xA1 1, Out8 0x21 1, Out8 0xA1 2, Out8 0x21 4,
       Out8 0xA1 0x28, Out8 0x21 0x20, Out8 0xA0 0x11, Out8 0x20 0x11] @ trace (mach (con s))"
proof -
  define s1 where "s1 = fold (\<lambda>n. set_idt_gate n (stub n)) [0..<32] s"
  define s2 where "s2 = fold (\<lambda>(p, v). on_mach (port_byte_out p v)) pic_remap s1"
  define s3 where "s3 = fold (\<lambda>n. set_idt_gate n (stub n)) [32..<48] s2"
  have s3: "isr_install stub idt_addr s = set_idt idt_addr s3"
    by (simp add: isr_install_def s1_def s2_def s3_def)
  have "idt s2 = idt s1" by (simp add: s2_def fold_out)
  moreover have "length (idt s2) = IDT_ENTRIES" using assms(1) by (simp add: s2_def s1_def fold_out)
  ultimately have "idt s3 ! k = (if k < 48 then gate_for (stub k) else idt s ! k)"
    using fold_gates [of k s2 stub 32 48] fold_gates [of k s stub 0 32] assms
    by (auto simp: s3_def s1_def)
  moreover have "idt (set_idt idt_addr s3) = idt s3" by (simp add: set_idt_def Let_def)
  moreover have "trace (mach (con (set_idt idt_addr s3))) = Insn (Lidt idt_addr 4095) # trace (mach (con s2))"
  proof -
    have "con s3 = con s2" by (simp only: s3_def fold_gates_con)
    then show ?thesis by (simp add: set_idt_def Let_def IDT_ENTRIES_def)
  qed
  moreover have "trace (mach (con s2)) = rev (map (\<lambda>(p, v). Out8 p v) pic_remap) @ trace (mach (con s))"
    by (simp only: s2_def fold_out s1_def fold_gates_con)
  ultimately show ?thesis
    by (simp add: s3 gate_for_interrupt pic_remap_def)
qed

definition demo_cpu :: cpu where
  "demo_cpu = \<lparr>con = demo_vga, idt = replicate 256 (gate_for 0), idt_reg = \<lparr>limit = 0, base = 0\<rparr>,
     interrupt_handlers = replicate 256 None, tick = 0, frequency = 0, cr0 = 0, cr4 = 0\<rparr>"

theorem isr_install_correct_witness:
  "interrupt_gate_for 0x100021 (idt (isr_install (\<lambda>n. 0x100000 + of_nat n) 0x5000 demo_cpu) ! 33) \<and>
   trace (mach (con (isr_install (\<lambda>n. 0x100000 + of_nat n) 0x5000 demo_cpu))) =
     [Insn (Lidt 0x5000 4095), Out8 0xA1 0, Out8 0x21 0, Out8 0xA1 1, Out8 0x21 1, Out8 0xA1 2, Out8 0x21 4,
      Out8 0xA1 0x28, Out8 0x21 0x20, Out8 0xA0 0x11, Out8 0x20 0x11]"
  using isr_install_correct [of demo_cpu 33 "\<lambda>n. 0x100000 + of_nat n" "0x5000"]
  by (simp add: demo_cpu_def IDT_ENTRIES_def demo_vga_def)

text \<open>
  Interrupt dispatch: the handler last registered for the vector is called exactly once, and
  before it runs the interrupt has been acknowledged, at the second controller exactly for the
  vectors from 40 on and always at the first; a vector nobody registered is acknowledged and
  otherwise ignored.
\<close>

theorem irq_dispatch:
  assumes "length (interrupt_handlers s) = 256" and "int_no r < 256"
  shows "irq_handler call r (register_interrupt_handler n h s) =
    (let s' = register_interrupt_handler n h s;
         ack = on_mach (port_byte_out 0x20 0x20 \<circ> (if 40 \<le> int_no r then port_byte_out 0xA0 0x20 else id)) s'
     in if int_no r = ucast n then call h r ack
        else case interrupt_handlers s ! unat (int_no r) of None \<Rightarrow> ack | Some h' \<Rightarrow> call h' r ack)"
proof -
  have "unat (int_no r) < 256" using assms(2) by (simp add: word_less_nat_alt)
  moreover have "int_no r = ucast n \<longleftrightarrow> unat n = unat (int_no r)"
    by (metis unat_ucast_u8(3) word_unat_eq_iff)
  ultimately show ?thesis
    using assms(1)
    by (auto simp: irq_handler_def register_interrupt_handler_def Let_def nth_list_update split: option.split)
qed

definition demo_regs :: "u64 \<Rightarrow> registers" where
  "demo_regs n = \<lparr>r15 = 0, r14 = 0, r13 = 0, r12 = 0, r11 = 0, r10 = 0, r9 = 0, r8 = 0, rbp = 0, rdi = 0,
     rsi = 0, rdx = 0, rcx = 0, rbx = 0, rax = 0, int_no = n, err_code = 0, rip = 0, cs_reg = 8,
     eflags = 0, rsp = 0, ss_reg = 0\<rparr>"

theorem irq_dispatch_witness:
  "irq_handler (\<lambda>h r s. timer_callback r s) (demo_regs 41) (register_interrupt_handler 41 Timer_callback demo_cpu) =
   timer_callback (demo_regs 41)
     (on_mach (port_byte_out 0x20 0x20 \<circ> port_byte_out 0xA0 0x20) (register_interrupt_handler 41 Timer_callback demo_cpu))"
proof -
  have "length (interrupt_handlers demo_cpu) = 256" by (simp add: demo_cpu_def)
  then show ?thesis
    using irq_dispatch [of demo_cpu "demo_regs 41" "\<lambda>h r s. timer_callback r s" 41 Timer_callback]
    by (simp add: demo_regs_def comp_def Let_def)
qed

text \<open>
  C23. Sleeping: after \<open>irq_install\<close> the loop of \<open>sleep_ticks\<close> returns exactly when the requested number
  of timer interrupts has arrived and not before, each of them acknowledged once, provided the
  64-bit tick counter does not wrap; when \<open>tick + ticks\<close> wraps it does not sleep at all.
\<close>

theorem sleep_ticks_correct:
  assumes "timer_ready s" and "int_no r = 32" and "call Timer_callback = timer_callback"
  shows "sleep_ticks ticks (replicate n (irq_handler call r)) s =
    (if unat (tick s) + unat ticks < 2 ^ 64
     then if unat ticks \<le> n
          then Some (on_mach (port_byte_out 0x20 0x20 ^^ unat ticks) s\<lparr>tick := tick s + ticks\<rparr>)
          else None
     else Some s)"
proof (cases "unat (tick s) + unat ticks < 2 ^ 64")
  case True
  then have "unat (tick s) + unat ticks = unat (tick s + ticks)" by (simp add: unat_add_nowrap)
  then show ?thesis
    using True sleep_loop_ticks [of s r call "unat ticks" "tick s + ticks" n, OF assms]
      timer_irqs [of s r call "unat ticks", OF assms]
    by (simp add: sleep_ticks_def)
next
  case False
  then have "unat (tick s + ticks) < unat (tick s)" by (intro unat_add_wrap(2)) simp
  then have "\<not> tick s < tick s + ticks" by (simp add: word_less_nat_alt)
  then show ?thesis
    using False by (cases n) (simp_all add: sleep_ticks_def timer_get_ticks_def)
qed

theorem sleep_ticks_correct_witness:
  "\<exists>s. init_timer 4000 demo_cpu = Some s \<and>
     sleep_ms 1 (replicate 5 (irq_handler (\<lambda>h. timer_callback) (demo_regs 32))) s =
       Some (on_mach (port_byte_out 0x20 0x20 ^^ 4) s\<lparr>tick := 4\<rparr>)"
proof -
  let ?s = "the (init_timer 4000 demo_cpu)"
  have s: "init_timer 4000 demo_cpu = Some ?s" "tick ?s = 0" "frequency ?s = 4000" "timer_ready ?s"
    by (simp_all add: init_timer_def timer_ready_def demo_cpu_def register_interrupt_handler_def IRQ0_def)
  have "sleep_ms 1 (replicate 5 (irq_handler (\<lambda>h. timer_callback) (demo_regs 32))) ?s =
      sleep_ticks 4 (replicate 5 (irq_handler (\<lambda>h. timer_callback) (demo_regs 32))) ?s"
    by (simp add: sleep_ms_def s(3))
  then show ?thesis
    using s sleep_ticks_correct [of ?s "demo_regs 32" "\<lambda>h. timer_callback" 4 5]
    by (intro exI [of _ ?s]) (simp add: demo_regs_def)
qed

text \<open>
  The timer is programmed for the requested rate: from 19 Hz up to the clock of the chip the
  two bytes sent to channel 0 form the divisor \<open>1193180 div freq\<close>, which is at least one; the timer
  handler is installed for vector 32.  A frequency of zero traps.
\<close>

theorem init_timer_divisor:
  assumes "19 \<le> freq" and "freq \<le> 1193180" and "length (interrupt_handlers s) = 256"
  shows "\<exists>low high s'. init_timer freq s = Some s' \<and> timer_ready s' \<and> frequency s' = freq \<and>
    trace (mach (con s')) = [Out8 0x40 high, Out8 0x40 low, Out8 0x43 0x36] @ trace (mach (con s)) \<and>
    unat low + 256 * unat high = 1193180 div unat freq \<and> 0 < 1193180 div unat freq \<and>
    init_timer 0 s = None"
proof -
  have f: "19 \<le> unat freq" "unat freq \<le> 1193180" "freq \<noteq> 0"
    using assms(1,2) by (auto simp: word_le_nat_alt)
  let ?d = "1193180 div freq"
  have d: "unat ?d = 1193180 div unat freq" by (simp add: unat_div)
  have "1193180 div unat freq \<le> 1193180 div 19" using f(1) by (intro div_le_mono2) simp_all
  then have small: "unat ?d < 65536" using d by simp
  have m: "(0xFF :: u32) = mask 8" by (simp add: mask_eq_exp_minus_1)
  have low: "unat (ucast (?d AND 0xFF) :: u8) = unat ?d mod 256"
    unfolding m by (simp add: unsigned_ucast_eq unat_and_mask take_bit_eq_mod)
  have high: "unat (ucast (drop_bit 8 ?d AND 0xFF) :: u8) = unat ?d div 256"
    unfolding m using small by (simp add: unsigned_ucast_eq unat_and_mask unat_drop_bit take_bit_eq_mod)
  have "unat ?d mod 256 + 256 * (unat ?d div 256) = unat ?d" by simp
  moreover have "0 < 1193180 div unat freq" using f by (simp add: div_greater_zero_iff)
  ultimately show ?thesis
    using assms(3) f(3) low high d
    by (simp add: init_timer_def Let_def timer_ready_def register_interrupt_handler_def IRQ0_def)
qed

theorem init_timer_divisor_witness:
  "\<exists>low high s'. init_timer 4000 demo_cpu = Some s' \<and> timer_ready s' \<and> frequency s' = 4000 \<and>
     trace (mach (con s')) = [Out8 0x40 high, Out8 0x40 low, Out8 0x43 0x36] \<and>
     unat low + 256 * unat high = 298 \<and> init_timer 0 demo_cpu = None"
  using init_timer_divisor [of 4000 demo_cpu] by (simp add: demo_cpu_def demo_vga_def)

text \<open>
  \<open>cpu_enable_fpu_sse\<close> changes exactly the documented control bits: emulation and task-switched
  are cleared, monitor-coprocessor is set, the two SSE support bits of \<open>CR4\<close> are set, every other
  bit of both registers keeps its value; running it twice changes nothing more.
\<close>

theorem fpu_bits:
  assumes "n < 64"
  shows "(bit (cr0 (cpu_enable_fpu_sse s)) n \<longleftrightarrow> n = 1 \<or> n \<noteq> 2 \<and> n \<noteq> 3 \<and> bit (cr0 s) n) \<and>
    (bit (cr4 (cpu_enable_fpu_sse s)) n \<longleftrightarrow> n = 9 \<or> n = 10 \<or> bit (cr4 s) n) \<and>
    cr0 (cpu_enable_fpu_sse (cpu_enable_fpu_sse s)) = cr0 (cpu_enable_fpu_sse s) \<and>
    cr4 (cpu_enable_fpu_sse (cpu_enable_fpu_sse s)) = cr4 (cpu_enable_fpu_sse s)"
proof -
  have one: "bit (push_bit j 1 :: u64) k \<longleftrightarrow> k = j" if "k < 64" for j k
    using that by (auto simp: bit_push_bit_iff bit_1_iff simp del: push_bit_of_1)
  have e0: "cr0 (cpu_enable_fpu_sse s) = ((cr0 s AND NOT (push_bit 2 1)) OR push_bit 1 1) AND NOT (push_bit 3 1)"
    for s :: "'a cpu_scheme" by (simp add: cpu_enable_fpu_sse_def Let_def)
  have e4: "cr4 (cpu_enable_fpu_sse s) = (cr4 s OR push_bit 9 1) OR push_bit 10 1"
    for s :: "'a cpu_scheme" by (simp add: cpu_enable_fpu_sse_def Let_def)
  have c0: "bit (cr0 (cpu_enable_fpu_sse s)) k \<longleftrightarrow> k = 1 \<or> k \<noteq> 2 \<and> k \<noteq> 3 \<and> bit (cr0 s) k"
    if "k < 64" for k and s :: "'a cpu_scheme"
    unfolding e0 bit_and_iff bit_or_iff bit_not_iff one [OF that] using that by auto
  have c4: "bit (cr4 (cpu_enable_fpu_sse s)) k \<longleftrightarrow> k = 9 \<or> k = 10 \<or> bit (cr4 s) k"
    if "k < 64" for k and s :: "'a cpu_scheme"
    unfolding e4 bit_or_iff one [OF that] by auto
  have "cr0 (cpu_enable_fpu_sse (cpu_enable_fpu_sse s)) = cr0 (cpu_enable_fpu_sse s)"
    by (rule bit_word_eqI) (auto simp: c0)
  moreover have "cr4 (cpu_enable_fpu_sse (cpu_enable_fpu_sse s)) = cr4 (cpu_enable_fpu_sse s)"
    by (rule bit_word_eqI) (auto simp: c4)
  ultimately show ?thesis using c0 c4 assms by simp
qed

theorem fpu_bits_witness:
  "bit (cr0 (cpu_enable_fpu_sse demo_cpu)) 1 \<and> \<not> bit (cr0 (cpu_enable_fpu_sse demo_cpu)) 2"
  using fpu_bits [of 1 demo_cpu] fpu_bits [of 2 demo_cpu] by simp

text \<open>
  A processor exception is reported and never returns: on a working VGA console the handler
  prints the vector number and the name of the exception, then stays in its halt loop.
\<close>

theorem exception_reported:
  assumes "vga_displays v0 (con s) t" and "int_no r < 32"
  shows "fst (isr_handler r s) \<and>
    (\<exists>c. con (snd (isr_handler r s)) = c\<lparr>mach := insn Hlt (mach c)\<rparr> \<and>
      vga_displays v0 c (fold (tty_print 80 25 vga_cell (0, 0))
        [lit ''Received interrupt: '', decimal (uint (int_no r)), [10],
         exception_messages ! unat (int_no r), [10]] t))"
proof -
  let ?P = "tty_print 80 25 vga_cell (0, 0)"
  have n: "uint (int_no r) < 32" using assms(2) by (simp add: word_less_def)
  have "unat (int_no r) < 32" using assms(2) by (simp add: word_less_nat_alt)
  then have "unat (ucast (int_no r) :: u32) = unat (int_no r)" by (simp add: unsigned_ucast_eq take_bit_nat_eq_self)
  then have "sint (ucast (int_no r) :: u32) = int (unat (int_no r))"
    using \<open>unat (int_no r) < 32\<close> sint_eq_unat [of "ucast (int_no r)"] by simp
  then have i: "sint (ucast (int_no r) :: u32) = uint (int_no r)" by (simp only: uint_nat)
  obtain m where m: "int_to_ascii (uint (int_no r)) (\<lambda>_. 0) = Some m" "cstring m (decimal (uint (int_no r)))"
  proof -
    have "- 2147483648 < uint (int_no r)" "uint (int_no r) < 2147483648"
      using n uint_nonnegative [of "int_no r"] by linarith+
    then have "- (2 ^ 31) < uint (int_no r)" "uint (int_no r) < 2 ^ 31" by simp_all
    from int_to_ascii_decimal [OF this, of "\<lambda>_. 0"] that show thesis by blast
  qed
  have len: "length (decimal (uint (int_no r))) < 4"
    using radix_rev_length [of 10 "unat (int_no r)" 2 dec_char] \<open>unat (int_no r) < 32\<close> by (simp add: decimal_def)
  let ?c = "kprint [10] (kprint (exception_messages ! unat (int_no r)) (kprint [10]
      (kprint (decimal (uint (int_no r))) (kprint (lit ''Received interrupt: '') (con s)))))"
  have "isr_handler r s = (True, s\<lparr>con := ?c\<lparr>mach := insn Hlt (mach ?c)\<rparr>\<rparr>)"
    using assms(2) m len by (simp add: isr_handler_def i cstring_bytes_eq Let_def)
  moreover have "vga_displays v0 ?c (fold ?P [lit ''Received interrupt: '', decimal (uint (int_no r)), [10],
      exception_messages ! unat (int_no r), [10]] t)"
    using assms(1) by (simp add: vga.kprint_displays)
  ultimately show ?thesis by auto
qed

theorem exception_reported_witness:
  "fst (isr_handler (demo_regs 13) demo_cpu) \<and>
   (\<exists>c. con (snd (isr_handler (demo_regs 13) demo_cpu)) = c\<lparr>mach := insn Hlt (mach c)\<rparr> \<and>
      vga_displays (\<lambda>_. 0) c (fold (tty_print 80 25 vga_cell (0, 0))
        [lit ''Received interrupt: '', decimal 13, [10], lit ''General Protection Fault'', [10]]
        (replicate 2000 (0, 0), 0)))"
proof -
  have "vga_displays (\<lambda>_. 0) (con demo_cpu) (replicate 2000 (0, 0), 0)"
    using demo_vga_displays by (simp add: demo_cpu_def)
  then show ?thesis
    using exception_reported [of "\<lambda>_. 0" demo_cpu _ "demo_regs 13"]
    by (simp add: demo_regs_def exception_messages_def)
qed

end
