(* ===== verification/Keyboard.thy ===== *)
theory Keyboard
  imports Cpu
begin

text \<open>
  \<^verbatim>\<open>src/drivers/keyboard/keyboard.h\<close> and \<^verbatim>\<open>keyboard_common.c\<close>: keycodes, the two ring buffers
  (events and characters), the event dispatcher with the modifier state, layouts, device
  registration and the PS/2 interrupt handler.

  \<open>kbd\<close> extends the processor state by the static variables of the file.  Both ring buffers are a
  \<open>ring\<close>: an array of 256 slots with the indices \<open>head\<close> (next free) and \<open>tail\<close> (next to read).
  The interface they offer is the locale \<open>bounded_fifo\<close>, interpreted for each of them.
\<close>

section \<open>Constants of keyboard.h\<close>

datatype kbd_source = KDEV_SOURCE_PS2 | KDEV_SOURCE_USB

datatype key_event_type = KEY_EV_PRESS | KEY_EV_RELEASE | KEY_EV_REPEAT

definition KM_SHIFT :: u16 where "KM_SHIFT = 0x1"
definition KM_CTRL :: u16 where "KM_CTRL = 0x2"
definition KM_ALT :: u16 where "KM_ALT = 0x4"
definition KM_GUI :: u16 where "KM_GUI = 0x8"
definition KM_RSHIFT :: u16 where "KM_RSHIFT = 0x10"
definition KM_RCTRL :: u16 where "KM_RCTRL = 0x20"
definition KM_RALT :: u16 where "KM_RALT = 0x40"
definition KM_RGUI :: u16 where "KM_RGUI = 0x80"
definition KM_CAPS :: u16 where "KM_CAPS = 0x100"
definition KM_NUM :: u16 where "KM_NUM = 0x200"
definition KM_SCROLL :: u16 where "KM_SCROLL = 0x400"
definition KC_NONE :: u16 where "KC_NONE = 0x0"
definition KC_BACKSPACE :: u16 where "KC_BACKSPACE = 0x8"
definition KC_TAB :: u16 where "KC_TAB = 0x9"
definition KC_ENTER :: u16 where "KC_ENTER = 0xD"
definition KC_ESC :: u16 where "KC_ESC = 0x1B"
definition KC_SPACE :: u16 where "KC_SPACE = 0x20"
definition KC_BASE_EXT :: u16 where "KC_BASE_EXT = 0x100"
definition KC_UP :: u16 where "KC_UP = 0x100"
definition KC_DOWN :: u16 where "KC_DOWN = 0x101"
definition KC_LEFT :: u16 where "KC_LEFT = 0x102"
definition KC_RIGHT :: u16 where "KC_RIGHT = 0x103"
definition KC_HOME :: u16 where "KC_HOME = 0x104"
definition KC_END :: u16 where "KC_END = 0x105"
definition KC_PGUP :: u16 where "KC_PGUP = 0x106"
definition KC_PGDN :: u16 where "KC_PGDN = 0x107"
definition KC_INSERT :: u16 where "KC_INSERT = 0x108"
definition KC_DELETE :: u16 where "KC_DELETE = 0x109"
definition KC_F1 :: u16 where "KC_F1 = 0x120"
definition KC_F2 :: u16 where "KC_F2 = 0x121"
definition KC_F3 :: u16 where "KC_F3 = 0x122"
definition KC_F4 :: u16 where "KC_F4 = 0x123"
definition KC_F5 :: u16 where "KC_F5 = 0x124"
definition KC_F6 :: u16 where "KC_F6 = 0x125"
definition KC_F7 :: u16 where "KC_F7 = 0x126"
definition KC_F8 :: u16 where "KC_F8 = 0x127"
definition KC_F9 :: u16 where "KC_F9 = 0x128"
definition KC_F10 :: u16 where "KC_F10 = 0x129"
definition KC_F11 :: u16 where "KC_F11 = 0x12A"
definition KC_F12 :: u16 where "KC_F12 = 0x12B"
definition KC_CAPS_LOCK :: u16 where "KC_CAPS_LOCK = 0x140"
definition KC_NUM_LOCK :: u16 where "KC_NUM_LOCK = 0x141"
definition KC_SCROLL_LOCK :: u16 where "KC_SCROLL_LOCK = 0x142"
definition KC_LSHIFT :: u16 where "KC_LSHIFT = 0x150"
definition KC_RSHIFT :: u16 where "KC_RSHIFT = 0x151"
definition KC_LCTRL :: u16 where "KC_LCTRL = 0x152"
definition KC_RCTRL :: u16 where "KC_RCTRL = 0x153"
definition KC_LALT :: u16 where "KC_LALT = 0x154"
definition KC_RALT :: u16 where "KC_RALT = 0x155"
definition KC_LGUI :: u16 where "KC_LGUI = 0x156"
definition KC_RGUI :: u16 where "KC_RGUI = 0x157"
definition KC_KP_0 :: u16 where "KC_KP_0 = 0x180"
definition KC_KP_1 :: u16 where "KC_KP_1 = 0x181"
definition KC_KP_2 :: u16 where "KC_KP_2 = 0x182"
definition KC_KP_3 :: u16 where "KC_KP_3 = 0x183"
definition KC_KP_4 :: u16 where "KC_KP_4 = 0x184"
definition KC_KP_5 :: u16 where "KC_KP_5 = 0x185"
definition KC_KP_6 :: u16 where "KC_KP_6 = 0x186"
definition KC_KP_7 :: u16 where "KC_KP_7 = 0x187"
definition KC_KP_8 :: u16 where "KC_KP_8 = 0x188"
definition KC_KP_9 :: u16 where "KC_KP_9 = 0x189"
definition KC_KP_DOT :: u16 where "KC_KP_DOT = 0x18A"
definition KC_KP_ENTER :: u16 where "KC_KP_ENTER = 0x18B"
definition KC_KP_PLUS :: u16 where "KC_KP_PLUS = 0x18C"
definition KC_KP_MINUS :: u16 where "KC_KP_MINUS = 0x18D"
definition KC_KP_STAR :: u16 where "KC_KP_STAR = 0x18E"
definition KC_KP_SLASH :: u16 where "KC_KP_SLASH = 0x18F"

lemmas km_defs = KM_SHIFT_def KM_CTRL_def KM_ALT_def KM_GUI_def KM_RSHIFT_def KM_RCTRL_def KM_RALT_def KM_RGUI_def KM_CAPS_def KM_NUM_def KM_SCROLL_def
lemmas kc_defs = KC_NONE_def KC_BACKSPACE_def KC_TAB_def KC_ENTER_def KC_ESC_def KC_SPACE_def
  KC_BASE_EXT_def KC_UP_def KC_DOWN_def KC_LEFT_def KC_RIGHT_def KC_HOME_def
  KC_END_def KC_PGUP_def KC_PGDN_def KC_INSERT_def KC_DELETE_def KC_F1_def
  KC_F2_def KC_F3_def KC_F4_def KC_F5_def KC_F6_def KC_F7_def
  KC_F8_def KC_F9_def KC_F10_def KC_F11_def KC_F12_def KC_CAPS_LOCK_def
  KC_NUM_LOCK_def KC_SCROLL_LOCK_def KC_LSHIFT_def KC_RSHIFT_def KC_LCTRL_def KC_RCTRL_def
  KC_LALT_def KC_RALT_def KC_LGUI_def KC_RGUI_def KC_KP_0_def KC_KP_1_def
  KC_KP_2_def KC_KP_3_def KC_KP_4_def KC_KP_5_def KC_KP_6_def KC_KP_7_def
  KC_KP_8_def KC_KP_9_def KC_KP_DOT_def KC_KP_ENTER_def KC_KP_PLUS_def KC_KP_MINUS_def
  KC_KP_STAR_def KC_KP_SLASH_def

record key_event =
  ev_type :: key_event_type
  code :: u16
  mods :: u16
  src :: kbd_source
  dev_id :: u8

section \<open>Ring buffers\<close>

record 'a ring =
  rbuf :: "'a list"
  head :: u16
  tail :: u16

definition KEYBUF_CAP :: nat where "KEYBUF_CAP = 256"

definition ring_next :: "u16 \<Rightarrow> u16" where
  "ring_next i = of_nat ((unat i + 1) mod KEYBUF_CAP)"

definition ring_push :: "'a \<Rightarrow> 'a ring \<Rightarrow> 'a ring" where
  "ring_push e r =
     (let n = ring_next (head r) in
      if n \<noteq> tail r then r\<lparr>rbuf := (rbuf r)[unat (head r) := e], head := n\<rparr> else r)"

definition ring_pop :: "'a ring \<Rightarrow> ('a \<times> 'a ring) option" where
  "ring_pop r =
     (if head r = tail r then None
      else Some (rbuf r ! unat (tail r), r\<lparr>tail := ring_next (tail r)\<rparr>))"

section \<open>State\<close>

definition sc_ascii_qwerty :: "u8 list" where
  "sc_ascii_qwerty =
     [63, 63, 49, 50, 51, 52, 53, 54, 55, 56, 57, 48, 45, 61, 63,
      63, 113, 119, 101, 114, 116, 121, 117, 105, 111, 112, 91, 93, 63, 63,
      97, 115, 100, 102, 103, 104, 106, 107, 108, 59, 39, 96, 63, 92, 122,
      120, 99, 118, 98, 110, 109, 44, 46, 47, 63, 63, 63, 32]"

definition sc_ascii_qwerty_cap :: "u8 list" where
  "sc_ascii_qwerty_cap =
     [63, 63, 49, 50, 51, 52, 53, 54, 55, 56, 57, 48, 45, 61, 63,
      63, 81, 87, 69, 82, 84, 89, 85, 73, 79, 80, 91, 93, 63, 63,
      65, 83, 68, 70, 71, 72, 74, 75, 76, 59, 39, 96, 63, 92, 90,
      88, 67, 86, 66, 78, 77, 44, 46, 47, 63, 63, 63, 32]"

definition sc_ascii_azerty :: "u8 list" where
  "sc_ascii_azerty =
     [63, 63, 38, 26, 34, 39, 40, 45, 26, 95, 26, 26, 41, 61, 63,
      63, 97, 122, 101, 114, 116, 121, 117, 105, 111, 112, 94, 36, 63, 63,
      113, 115, 100, 102, 103, 104, 106, 107, 108, 109, 63, 42, 63, 42, 119,
      120, 99, 118, 98, 110, 44, 59, 59, 33, 33, 63, 63, 32]"

definition sc_ascii_azerty_cap :: "u8 list" where
  "sc_ascii_azerty_cap =
     [63, 63, 49, 50, 51, 52, 53, 54, 55, 56, 57, 48, 26, 43, 63,
      63, 65, 90, 69, 82, 84, 89, 85, 73, 79, 80, 26, 26, 63, 63,
      81, 83, 68, 70, 71, 72, 74, 75, 76, 77, 63, 42, 63, 42, 87,
      88, 67, 86, 66, 78, 63, 46, 47, 63, 26, 63, 63, 32]"

definition SC_ASCII_TABLE_LEN :: nat where
  "SC_ASCII_TABLE_LEN = length sc_ascii_qwerty"

record kbd = cpu +
  ev_ring :: "key_event ring"
  ascii_ring :: "u8 ring"
  g_layout :: u8
  g_auto_echo :: bool
  g_mods :: u16
  g_ps2_e0 :: bool
  g_ps2_registered :: bool
  g_usb_next_id :: u8
  tbl_norm :: "u8 list"
  tbl_shift :: "u8 list"

section \<open>Operations\<close>

definition kb_console_putc :: "u8 \<Rightarrow> 'a kbd_scheme \<Rightarrow> 'a kbd_scheme" where
  "kb_console_putc c s = on_con (kprint [c, 0]) s"

definition push_event :: "key_event \<Rightarrow> 'a kbd_scheme \<Rightarrow> 'a kbd_scheme" where
  "push_event e s = s\<lparr>ev_ring := ring_push e (ev_ring s)\<rparr>"

definition push_ascii :: "u8 \<Rightarrow> 'a kbd_scheme \<Rightarrow> 'a kbd_scheme" where
  "push_ascii c s =
     (if c = 0 then s
      else let s1 = s\<lparr>ascii_ring := ring_push c (ascii_ring s)\<rparr>
           in if g_auto_echo s1 then kb_console_putc c s1 else s1)"

text \<open>The bits a modifier key stands for: its own and the aggregate of both sides.\<close>

definition modifier_bits :: "u16 \<Rightarrow> u16 \<times> u16" where
  "modifier_bits kc =
     (if kc = KC_LSHIFT then (KM_SHIFT, KM_SHIFT) else if kc = KC_RSHIFT then (KM_RSHIFT, KM_SHIFT)
      else if kc = KC_LCTRL then (KM_CTRL, KM_CTRL) else if kc = KC_RCTRL then (KM_RCTRL, KM_CTRL)
      else if kc = KC_LALT then (KM_ALT, KM_ALT) else if kc = KC_RALT then (KM_RALT, KM_ALT)
      else if kc = KC_LGUI then (KM_GUI, KM_GUI) else if kc = KC_RGUI then (KM_RGUI, KM_GUI)
      else (0, 0))"

definition lock_toggle :: "key_event \<Rightarrow> u16 \<Rightarrow> u16" where
  "lock_toggle e m =
     (if ev_type e = KEY_EV_PRESS
      then let m = (if code e = KC_CAPS_LOCK then m XOR KM_CAPS else m);
               m = (if code e = KC_NUM_LOCK then m XOR KM_NUM else m)
           in if code e = KC_SCROLL_LOCK then m XOR KM_SCROLL else m
      else m)"

definition modifier_update :: "key_event \<Rightarrow> u16 \<Rightarrow> u16" where
  "modifier_update e m =
     (let (side_set, agg_set) = modifier_bits (code e) in
      if side_set \<noteq> 0 \<or> agg_set \<noteq> 0
      then (case ev_type e of
              KEY_EV_PRESS \<Rightarrow> (m OR side_set) OR agg_set
            | KEY_EV_RELEASE \<Rightarrow> (m AND NOT side_set) AND NOT agg_set
            | KEY_EV_REPEAT \<Rightarrow> m)
      else m)"

definition kbd_dispatch_event :: "key_event \<Rightarrow> 'a kbd_scheme \<Rightarrow> 'a kbd_scheme" where
  "kbd_dispatch_event ev s =
     (let s1 = s\<lparr>g_mods := modifier_update ev (lock_toggle ev (g_mods s))\<rparr>;
          e = ev\<lparr>mods := g_mods s1\<rparr>;
          s2 = push_event e s1
      in if ev_type e = KEY_EV_PRESS \<and> code e < 0x80 then push_ascii (ucast (code e)) s2 else s2)"

definition kbd_mods_state :: "'a kbd_scheme \<Rightarrow> u16" where
  "kbd_mods_state s = g_mods s"

definition kbd_set_lock_leds :: "u8 \<Rightarrow> u8 \<Rightarrow> u8 \<Rightarrow> 'a kbd_scheme \<Rightarrow> 'a kbd_scheme" where
  "kbd_set_lock_leds caps num scroll s =
     (let m = (if caps \<noteq> 0 then g_mods s OR KM_CAPS else g_mods s AND NOT KM_CAPS);
          m = (if num \<noteq> 0 then m OR KM_NUM else m AND NOT KM_NUM);
          m = (if scroll \<noteq> 0 then m OR KM_SCROLL else m AND NOT KM_SCROLL)
      in s\<lparr>g_mods := m\<rparr>)"

definition kbd_register_device :: "kbd_source \<Rightarrow> u8 \<Rightarrow> 'a kbd_scheme \<Rightarrow> u8 \<times> 'a kbd_scheme" where
  "kbd_register_device sr hw_id s =
     (case sr of
        KDEV_SOURCE_PS2 \<Rightarrow>
          if g_ps2_registered s then (0, s)
          else (0, (register_interrupt_handler IRQ1 Ps2_irq1_handler s)\<lparr>g_ps2_registered := True\<rparr>)
      | KDEV_SOURCE_USB \<Rightarrow> (g_usb_next_id s, s\<lparr>g_usb_next_id := g_usb_next_id s + 1\<rparr>))"

definition kbd_unregister_device :: "u8 \<Rightarrow> 'a kbd_scheme \<Rightarrow> 'a kbd_scheme" where
  "kbd_unregister_device logical_id s = (if logical_id = 0 then s\<lparr>g_ps2_registered := False\<rparr> else s)"

definition select_tables :: "'a kbd_scheme \<Rightarrow> 'a kbd_scheme" where
  "select_tables s =
     (if g_layout s = 0 then s\<lparr>tbl_norm := sc_ascii_qwerty, tbl_shift := sc_ascii_qwerty_cap\<rparr>
      else s\<lparr>tbl_norm := sc_ascii_azerty, tbl_shift := sc_ascii_azerty_cap\<rparr>)"

definition kbd_subsystem_init :: "'a kbd_scheme \<Rightarrow> 'a kbd_scheme" where
  "kbd_subsystem_init s =
     (let s1 = s\<lparr>ev_ring := (ev_ring s)\<lparr>head := 0, tail := 0\<rparr>,
                 ascii_ring := (ascii_ring s)\<lparr>head := 0, tail := 0\<rparr>, g_mods := 0, g_ps2_e0 := False\<rparr>
      in snd (kbd_register_device KDEV_SOURCE_PS2 0 (select_tables s1)))"

definition kbd_set_layout :: "u8 \<Rightarrow> 'a kbd_scheme \<Rightarrow> 'a kbd_scheme" where
  "kbd_set_layout layout s = select_tables (s\<lparr>g_layout := (if layout \<noteq> 0 then 1 else 0)\<rparr>)"

definition kbd_enable_auto_echo :: "int \<Rightarrow> 'a kbd_scheme \<Rightarrow> 'a kbd_scheme" where
  "kbd_enable_auto_echo on s = s\<lparr>g_auto_echo := (on \<noteq> 0)\<rparr>"

definition kbd_has_char :: "'a kbd_scheme \<Rightarrow> bool" where
  "kbd_has_char s \<longleftrightarrow> head (ascii_ring s) \<noteq> tail (ascii_ring s)"

definition kbd_read_char :: "'a kbd_scheme \<Rightarrow> u8 \<times> 'a kbd_scheme" where
  "kbd_read_char s =
     (case ring_pop (ascii_ring s) of None \<Rightarrow> (0, s) | Some (c, r) \<Rightarrow> (c, s\<lparr>ascii_ring := r\<rparr>))"

text \<open>
  The list holds what the interrupts that wake the processor from each \<open>hlt\<close> do; \<open>None\<close> means the
  routine is still waiting after the last of them.
\<close>

fun kbd_getchar_blocking :: "('a kbd_scheme \<Rightarrow> 'a kbd_scheme) list \<Rightarrow> 'a kbd_scheme \<Rightarrow> (u8 \<times> 'a kbd_scheme) option" where
  "kbd_getchar_blocking irqs s =
     (let (c, s1) = kbd_read_char s in
      if c \<noteq> 0 then Some (c, s1)
      else case irqs of [] \<Rightarrow> None
           | irq # rest \<Rightarrow> kbd_getchar_blocking rest (irq (on_mach (insn Hlt) s1)))"

definition kbd_read_event :: "'a kbd_scheme \<Rightarrow> (key_event \<times> 'a kbd_scheme) option" where
  "kbd_read_event s =
     (case ring_pop (ev_ring s) of None \<Rightarrow> None | Some (e, r) \<Rightarrow> Some (e, s\<lparr>ev_ring := r\<rparr>))"

section \<open>PS/2 scancodes\<close>

definition ps2_e0_to_ext :: "u8 \<Rightarrow> u16" where
  "ps2_e0_to_ext raw =
     (if raw = 0x48 then KC_UP else if raw = 0x50 then KC_DOWN else if raw = 0x4B then KC_LEFT
      else if raw = 0x4D then KC_RIGHT else if raw = 0x52 then KC_INSERT else if raw = 0x53 then KC_DELETE
      else if raw = 0x47 then KC_HOME else if raw = 0x4F then KC_END else if raw = 0x49 then KC_PGUP
      else if raw = 0x51 then KC_PGDN else KC_NONE)"

definition kbd_layout_ascii_from_set1 :: "u8 \<Rightarrow> u16 \<Rightarrow> 'a kbd_scheme \<Rightarrow> u8" where
  "kbd_layout_ascii_from_set1 sc mods_state s =
     (if SC_ASCII_TABLE_LEN \<le> unat sc then 0
      else let tbl = (if (mods_state AND KM_CAPS) XOR (mods_state AND KM_SHIFT) \<noteq> 0
                      then tbl_shift s else tbl_norm s);
               c = tbl ! unat sc
           in if c = 63 then 0 else c)"

definition translate_ps2_ascii :: "u8 \<Rightarrow> 'a kbd_scheme \<Rightarrow> u8" where
  "translate_ps2_ascii raw s =
     (if raw = 0x0E then 8 else if raw = 0x0F then 9 else if raw = 0x1C then 10
      else if raw = 0x39 then 32
      else if raw < 0x40 then kbd_layout_ascii_from_set1 raw (g_mods s) s else 0)"

definition ps2_key_of :: "u8 \<Rightarrow> u16" where
  "ps2_key_of raw =
     (if raw = 0x2A then KC_LSHIFT else if raw = 0x36 then KC_RSHIFT else if raw = 0x1D then KC_LCTRL
      else if raw = 0x38 then KC_LALT else if raw = 0x3A then KC_CAPS_LOCK else if raw = 0x0E then KC_BACKSPACE
      else if raw = 0x0F then KC_TAB else if raw = 0x1C then KC_ENTER else if raw = 0x01 then KC_ESC
      else KC_NONE)"

definition emit_ps2_event :: "u8 \<Rightarrow> bool \<Rightarrow> 'a kbd_scheme \<Rightarrow> 'a kbd_scheme" where
  "emit_ps2_event raw down s =
     (let kc = ps2_key_of raw in
      if kc \<noteq> KC_NONE
      then kbd_dispatch_event \<lparr>ev_type = (if down then KEY_EV_PRESS else KEY_EV_RELEASE), code = kc,
             mods = g_mods s, src = KDEV_SOURCE_PS2, dev_id = 0\<rparr> s
      else if down
      then let ch = translate_ps2_ascii raw s in
           if ch \<noteq> 0
           then kbd_dispatch_event \<lparr>ev_type = KEY_EV_PRESS, code = ucast ch, mods = g_mods s,
                  src = KDEV_SOURCE_PS2, dev_id = 0\<rparr> s
           else s
      else s)"

definition ps2_track_mods :: "u8 \<Rightarrow> bool \<Rightarrow> u16 \<Rightarrow> u16" where
  "ps2_track_mods raw break_code m =
     (if raw = 0x2A then (if break_code then m AND NOT KM_SHIFT else m OR KM_SHIFT)
      else if raw = 0x36 then (if break_code then (m AND NOT KM_RSHIFT) AND NOT KM_SHIFT
                               else (m OR KM_RSHIFT) OR KM_SHIFT)
      else if raw = 0x1D then (if break_code then m AND NOT KM_CTRL else m OR KM_CTRL)
      else if raw = 0x38 then (if break_code then m AND NOT KM_ALT else m OR KM_ALT)
      else if raw = 0x3A \<and> \<not> break_code then m XOR KM_CAPS
      else m)"

definition ps2_scancode :: "u8 \<Rightarrow> 'a kbd_scheme \<Rightarrow> 'a kbd_scheme" where
  "ps2_scancode sc s =
     (if sc = 0xE0 then s\<lparr>g_ps2_e0 := True\<rparr>
      else let break_code = (sc AND 0x80 \<noteq> 0);
               raw = sc AND 0x7F;
               ext = (if g_ps2_e0 s then ps2_e0_to_ext raw else KC_NONE);
               s1 = s\<lparr>g_ps2_e0 := False\<rparr>
           in if ext \<noteq> KC_NONE
              then kbd_dispatch_event \<lparr>ev_type = (if break_code then KEY_EV_RELEASE else KEY_EV_PRESS), code = ext,
                     mods = g_mods s1, src = KDEV_SOURCE_PS2, dev_id = 0\<rparr> s1
              else emit_ps2_event raw (\<not> break_code)
                     (s1\<lparr>g_mods := ps2_track_mods raw break_code (g_mods s1)\<rparr>))"

definition ps2_irq1_handler :: "registers \<Rightarrow> 'a kbd_scheme \<Rightarrow> 'a kbd_scheme" where
  "ps2_irq1_handler regs s =
     (let (sc, m) = port_byte_in 0x60 (mach (con s)) in ps2_scancode sc (on_mach (\<lambda>_. m) s))"

definition keyboard_internal_push_event_alias :: "key_event \<Rightarrow> 'a kbd_scheme \<Rightarrow> 'a kbd_scheme" where
  "keyboard_internal_push_event_alias e s = kbd_dispatch_event e s"

definition keyboard_internal_push_ascii_alias :: "u8 \<Rightarrow> 'a kbd_scheme \<Rightarrow> 'a kbd_scheme" where
  "keyboard_internal_push_ascii_alias c s = (if c \<noteq> 0 then push_ascii c s else s)"

section \<open>The interface of a bounded queue\<close>

text \<open>
  What both ring buffers promise: entries come out in the order they went in, an entry offered to
  a full queue is dropped, and reading an empty queue returns nothing.  \<open>valid\<close> says which entries are queued.
\<close>

locale bounded_fifo =
  fixes put :: "'e \<Rightarrow> 's \<Rightarrow> 's"
    and get :: "'s \<Rightarrow> ('e \<times> 's) option"
    and ok :: "'s \<Rightarrow> bool"
    and contents :: "'s \<Rightarrow> 'e list"
    and cap :: nat
    and valid :: "'e \<Rightarrow> bool"
  assumes put_ok: "ok s \<Longrightarrow> ok (put e s)"
    and put_contents: "ok s \<Longrightarrow> contents (put e s) =
          (if valid e \<and> length (contents s) < cap then contents s @ [e] else contents s)"
    and get_None: "ok s \<Longrightarrow> get s = None \<longleftrightarrow> contents s = []"
    and get_ok: "ok s \<Longrightarrow> get s = Some (e, s') \<Longrightarrow> ok s'"
    and get_contents: "ok s \<Longrightarrow> get s = Some (e, s') \<Longrightarrow> contents s = e # contents s'"
    and bounded: "ok s \<Longrightarrow> length (contents s) \<le> cap"
begin

text \<open>
  A history is a list of offers (\<open>Inl e\<close>) and reads (\<open>Inr ()\<close>).  \<open>run\<close> returns the entries the queue
  accepted, the entries it delivered and the final state.
\<close>

fun run :: "('e + unit) list \<Rightarrow> 's \<Rightarrow> 'e list \<times> 'e list \<times> 's" where
  "run [] s = ([], [], s)"
| "run (Inl e # ops) s =
     (let (acc, out, s') = run ops (put e s)
      in (if valid e \<and> length (contents s) < cap then e # acc else acc, out, s'))"
| "run (Inr u # ops) s =
     (case get s of None \<Rightarrow> run ops s
      | Some (e, s1) \<Rightarrow> let (acc, out, s') = run ops s1 in (acc, e # out, s'))"

lemma run_fifo:
  assumes "ok s" and "run ops s = (acc, out, s')"
  shows "ok s' \<and> contents s @ acc = out @ contents s'"
  using assms
proof (induction ops s arbitrary: acc out s' rule: run.induct)
  case (2 e ops s)
  obtain acc1 where r: "run ops (put e s) = (acc1, out, s')"
      "acc = (if valid e \<and> length (contents s) < cap then e # acc1 else acc1)"
    using 2(3) by (auto split: prod.splits)
  have "ok s' \<and> contents (put e s) @ acc1 = out @ contents s'"
    using 2(1) [OF put_ok [OF 2(2)] r(1)] .
  then show ?case using put_contents [OF 2(2), of e] r(2) by (auto split: if_splits)
next
  case (3 u ops s)
  show ?case
  proof (cases "get s")
    case None
    then show ?thesis using 3 by simp
  next
    case (Some p)
    obtain e s1 where p: "p = (e, s1)" by (cases p)
    then obtain out1 where r: "run ops s1 = (acc, out1, s')" "out = e # out1"
      using 3(4) Some by (auto split: prod.splits)
    show ?thesis
      using 3(2) [OF Some p [symmetric] get_ok [OF 3(3) Some [unfolded p]] r(1)] get_contents [OF 3(3) Some [unfolded p]] r(2)
      by simp
  qed
qed simp

text \<open>Nothing is lost while there is room, and then reading everything returns it in order.\<close>

lemma puts_contents:
  "ok s \<Longrightarrow> list_all valid es \<Longrightarrow> length (contents s) + length es \<le> cap \<Longrightarrow>
   contents (fold put es s) = contents s @ es"
proof (induction es arbitrary: s)
  case (Cons e es)
  then show ?case using put_contents [OF Cons.prems(1), of e] put_ok [OF Cons.prems(1)] by simp
qed simp

lemma puts_ok: "ok s \<Longrightarrow> ok (fold put es s)"
  by (induction es arbitrary: s) (simp_all add: put_ok)

end

section \<open>Ring buffers implement the interface\<close>

definition ring_ok :: "'a ring \<Rightarrow> bool" where
  "ring_ok r \<longleftrightarrow> length (rbuf r) = KEYBUF_CAP \<and> unat (head r) < KEYBUF_CAP \<and> unat (tail r) < KEYBUF_CAP"

definition ring_length :: "'a ring \<Rightarrow> nat" where
  "ring_length r = (unat (head r) + KEYBUF_CAP - unat (tail r)) mod KEYBUF_CAP"

definition ring_contents :: "'a ring \<Rightarrow> 'a list" where
  "ring_contents r = map (\<lambda>i. rbuf r ! ((unat (tail r) + i) mod KEYBUF_CAP)) [0..<ring_length r]"

lemma unat_ring_next: "unat (ring_next i) = (unat i + 1) mod KEYBUF_CAP"
  unfolding ring_next_def by (rule unat_of_nat_less) (simp add: KEYBUF_CAP_def)

lemma ring_next_less: "unat (ring_next i) < KEYBUF_CAP"
  by (simp add: unat_ring_next KEYBUF_CAP_def)

lemma wrap_mod:
  fixes t i :: nat
  assumes "t < 256" and "i < 256"
  shows "(t + i) mod 256 = (if t + i < 256 then t + i else t + i - 256)"
  using assms by (simp add: mod_if)

lemma ring_next_cases: "unat i < 256 \<Longrightarrow> unat (ring_next i) = (if unat i = 255 then 0 else unat i + 1)"
  by (simp add: unat_ring_next KEYBUF_CAP_def)

lemma ring_length_cases:
  assumes "ring_ok r"
  shows "ring_length r =
      (if unat (tail r) \<le> unat (head r) then unat (head r) - unat (tail r) else unat (head r) + 256 - unat (tail r))"
    and "ring_length r < 256"
proof -
  have b: "unat (head r) < 256" "unat (tail r) < 256" using assms by (simp_all add: ring_ok_def KEYBUF_CAP_def)
  then show "ring_length r =
      (if unat (tail r) \<le> unat (head r) then unat (head r) - unat (tail r) else unat (head r) + 256 - unat (tail r))"
    by (auto simp: ring_length_def KEYBUF_CAP_def mod_if)
  then show "ring_length r < 256" using b by auto
qed

lemma ring_full_iff:
  assumes "ring_ok r"
  shows "ring_next (head r) \<noteq> tail r \<longleftrightarrow> ring_length r < 255"
proof -
  have b: "unat (head r) < 256" "unat (tail r) < 256" using assms by (simp_all add: ring_ok_def KEYBUF_CAP_def)
  have "ring_next (head r) = tail r \<longleftrightarrow> unat (ring_next (head r)) = unat (tail r)"
    by (simp add: word_unat_eq_iff)
  then show ?thesis
    using b ring_length_cases(1) [OF assms] ring_next_cases [OF b(1)] by (auto split: if_splits)
qed

lemma ring_push_contents:
  assumes "ring_ok r"
  shows "ring_ok (ring_push e r)"
    and "ring_contents (ring_push e r) = (if length (ring_contents r) < 255 then ring_contents r @ [e] else ring_contents r)"
proof -
  have b: "unat (head r) < 256" "unat (tail r) < 256" "length (rbuf r) = 256"
    using assms by (simp_all add: ring_ok_def KEYBUF_CAP_def)
  show ok: "ring_ok (ring_push e r)"
    using assms ring_next_less by (auto simp: ring_ok_def ring_push_def Let_def)
  show "ring_contents (ring_push e r) = (if length (ring_contents r) < 255 then ring_contents r @ [e] else ring_contents r)"
  proof (cases "ring_length r < 255")
    case False
    then have "ring_next (head r) = tail r" using ring_full_iff [OF assms] by blast
    then show ?thesis using False by (simp add: ring_push_def ring_contents_def)
  next
    case True
    then have "ring_next (head r) \<noteq> tail r" using ring_full_iff [OF assms] by blast
    then have p: "ring_push e r = r\<lparr>rbuf := (rbuf r)[unat (head r) := e], head := ring_next (head r)\<rparr>"
      by (simp add: ring_push_def)
    have len: "ring_length (ring_push e r) = Suc (ring_length r)"
      using b True ring_length_cases(1) [OF assms] ring_length_cases(1) [OF ok] ring_next_cases [OF b(1)]
      by (auto simp: p split: if_splits)
    have slot: "(unat (tail r) + i) mod 256 = (if unat (tail r) + i < 256 then unat (tail r) + i else unat (tail r) + i - 256)"
      if "i < 256" for i using b(2) that by (rule wrap_mod)
    have last: "(unat (tail r) + ring_length r) mod 256 = unat (head r)"
      using slot [of "ring_length r"] b ring_length_cases [OF assms] by (auto split: if_splits)
    have "unat (head r) \<noteq> (unat (tail r) + i) mod 256" if "i < ring_length r" for i
      using slot [of i] that b ring_length_cases [OF assms] by (auto split: if_splits)
    then have "ring_contents (ring_push e r) = ring_contents r @ [e]"
      using b last by (simp add: ring_contents_def len) (auto simp: p KEYBUF_CAP_def)
    then show ?thesis using True by (simp add: ring_contents_def)
  qed
qed

lemma ring_pop_contents:
  assumes "ring_ok r"
  shows "ring_pop r = None \<longleftrightarrow> ring_contents r = []"
    and "ring_pop r = Some (e, r') \<Longrightarrow> ring_ok r'"
    and "ring_pop r = Some (e, r') \<Longrightarrow> ring_contents r = e # ring_contents r'"
proof -
  have b: "unat (head r) < 256" "unat (tail r) < 256" "length (rbuf r) = 256"
    using assms by (simp_all add: ring_ok_def KEYBUF_CAP_def)
  have "head r = tail r \<longleftrightarrow> ring_length r = 0"
    using b ring_length_cases(1) [OF assms] by (auto simp: word_unat_eq_iff split: if_splits)
  then show "ring_pop r = None \<longleftrightarrow> ring_contents r = []"
    by (simp add: ring_pop_def ring_contents_def)
  assume pop: "ring_pop r = Some (e, r')"
  then have r': "r' = r\<lparr>tail := ring_next (tail r)\<rparr>" "e = rbuf r ! unat (tail r)" "head r \<noteq> tail r"
    by (auto simp: ring_pop_def split: if_splits)
  then show ok: "ring_ok r'" using assms ring_next_less by (simp add: ring_ok_def)
  have "unat (head r) \<noteq> unat (tail r)" using r'(3) by (simp add: word_unat_eq_iff)
  then have len: "ring_length r = Suc (ring_length r')"
    using b ring_length_cases(1) [OF assms] ring_length_cases(1) [OF ok] ring_next_cases [OF b(2)]
    by (auto simp: r'(1) split: if_splits)
  have "(unat (ring_next (tail r)) + i) mod 256 = (unat (tail r) + Suc i) mod 256" for i
    by (simp add: unat_ring_next KEYBUF_CAP_def mod_add_left_eq)
  then have "ring_contents r' = map (\<lambda>i. rbuf r ! ((unat (tail r) + Suc i) mod 256)) [0..<ring_length r']"
    by (simp add: ring_contents_def r'(1) KEYBUF_CAP_def)
  also have "\<dots> = map (\<lambda>i. rbuf r ! ((unat (tail r) + i) mod 256)) [1..<Suc (ring_length r')]"
    by (simp add: map_Suc_upt [symmetric] comp_def del: upt_Suc)
  finally show "ring_contents r = e # ring_contents r'"
    using b(2) by (simp add: ring_contents_def [of r] len r'(2) KEYBUF_CAP_def upt_conv_Cons del: upt_Suc)
qed

lemma ring_contents_bounded: "ring_ok r \<Longrightarrow> length (ring_contents r) \<le> 255"
  using ring_length_cases(2) by (fastforce simp: ring_contents_def)

text \<open>The event queue and the character queue of the keyboard state.\<close>

definition kbd_ok :: "'a kbd_scheme \<Rightarrow> bool" where
  "kbd_ok s \<longleftrightarrow> ring_ok (ev_ring s) \<and> ring_ok (ascii_ring s)"

interpretation rq: bounded_fifo ring_push ring_pop ring_ok ring_contents 255 "\<lambda>_. True"
proof
  fix r r' :: "'a ring" and e :: 'a
  assume r: "ring_ok r"
  show "ring_ok (ring_push e r)" by (rule ring_push_contents(1) [OF r])
  show "ring_contents (ring_push e r) =
      (if True \<and> length (ring_contents r) < 255 then ring_contents r @ [e] else ring_contents r)"
    using ring_push_contents(2) [OF r, of e] by simp
  show "ring_pop r = None \<longleftrightarrow> ring_contents r = []" by (rule ring_pop_contents(1) [OF r])
  show "length (ring_contents r) \<le> 255" by (rule ring_contents_bounded [OF r])
  assume "ring_pop r = Some (e, r')"
  then show "ring_ok r'" "ring_contents r = e # ring_contents r'"
    using ring_pop_contents(2,3) [OF r] by simp_all
qed

interpretation evq: bounded_fifo push_event kbd_read_event kbd_ok "\<lambda>s. ring_contents (ev_ring s)" 255 "\<lambda>_. True"
proof
  fix s s' :: "'a kbd_scheme" and e :: key_event
  assume ok: "kbd_ok s"
  then have r: "ring_ok (ev_ring s)" "ring_ok (ascii_ring s)" by (simp_all add: kbd_ok_def)
  show "kbd_ok (push_event e s)" using r rq.put_ok by (simp add: push_event_def kbd_ok_def)
  show "ring_contents (ev_ring (push_event e s)) =
      (if True \<and> length (ring_contents (ev_ring s)) < 255 then ring_contents (ev_ring s) @ [e]
       else ring_contents (ev_ring s))"
    using rq.put_contents [OF r(1)] by (simp add: push_event_def)
  show "kbd_read_event s = None \<longleftrightarrow> ring_contents (ev_ring s) = []"
    using rq.get_None [OF r(1)] by (auto simp: kbd_read_event_def split: option.splits)
  show "length (ring_contents (ev_ring s)) \<le> 255" using rq.bounded r(1) .
  assume "kbd_read_event s = Some (e, s')"
  then obtain r' where r': "ring_pop (ev_ring s) = Some (e, r')" "s' = s\<lparr>ev_ring := r'\<rparr>"
    by (auto simp: kbd_read_event_def split: option.splits)
  show "kbd_ok s'" using rq.get_ok [OF r(1) r'(1)] r(2) r'(2) by (simp add: kbd_ok_def)
  show "ring_contents (ev_ring s) = e # ring_contents (ev_ring s')"
    using rq.get_contents [OF r(1) r'(1)] r'(2) by simp
qed

definition kbd_get_char :: "'a kbd_scheme \<Rightarrow> (u8 \<times> 'a kbd_scheme) option" where
  "kbd_get_char s = (if kbd_has_char s then Some (kbd_read_char s) else None)"

lemma ascii_ring_putc [simp]:
  "ascii_ring (kb_console_putc c s) = ascii_ring s" "ev_ring (kb_console_putc c s) = ev_ring s"
  "g_mods (kb_console_putc c s) = g_mods s"
  by (simp_all add: kb_console_putc_def)

lemma push_ascii_rings:
  "ascii_ring (push_ascii c s) = (if c = 0 then ascii_ring s else ring_push c (ascii_ring s))"
  "ev_ring (push_ascii c s) = ev_ring s" "g_mods (push_ascii c s) = g_mods s"
  by (simp_all add: push_ascii_def Let_def)

interpretation chq: bounded_fifo push_ascii kbd_get_char kbd_ok "\<lambda>s. ring_contents (ascii_ring s)" 255 "\<lambda>c. c \<noteq> 0"
proof
  fix s s' :: "'a kbd_scheme" and e :: u8
  assume ok: "kbd_ok s"
  then have r: "ring_ok (ev_ring s)" "ring_ok (ascii_ring s)" by (simp_all add: kbd_ok_def)
  show "kbd_ok (push_ascii e s)" using r ring_push_contents(1) [OF r(2), of e] by (simp add: push_ascii_rings kbd_ok_def)
  show "ring_contents (ascii_ring (push_ascii e s)) =
      (if e \<noteq> 0 \<and> length (ring_contents (ascii_ring s)) < 255 then ring_contents (ascii_ring s) @ [e]
       else ring_contents (ascii_ring s))"
    using rq.put_contents [OF r(2), of e] by (simp add: push_ascii_rings)
  have pop: "kbd_get_char s = map_option (\<lambda>(c, r). (c, s\<lparr>ascii_ring := r\<rparr>)) (ring_pop (ascii_ring s))"
    by (simp add: kbd_get_char_def kbd_has_char_def kbd_read_char_def ring_pop_def)
  then show "kbd_get_char s = None \<longleftrightarrow> ring_contents (ascii_ring s) = []"
    using rq.get_None [OF r(2)] by simp
  show "length (ring_contents (ascii_ring s)) \<le> 255" using rq.bounded r(2) .
  assume "kbd_get_char s = Some (e, s')"
  then obtain r' where r': "ring_pop (ascii_ring s) = Some (e, r')" "s' = s\<lparr>ascii_ring := r'\<rparr>"
    using pop by auto
  show "kbd_ok s'" using rq.get_ok [OF r(2) r'(1)] r(1) r'(2) by (simp add: kbd_ok_def)
  show "ring_contents (ascii_ring s) = e # ring_contents (ascii_ring s')"
    using rq.get_contents [OF r(2) r'(1)] r'(2) by simp
qed

section \<open>The event queue under interrupts\<close>

text \<open>
  \<open>kbd_read_event\<close> runs with interrupts enabled, so a keyboard interrupt can arrive between any two
  of its memory accesses: the test of the indices, the load of the slot and the update of \<open>tail\<close>.
  The interrupt itself runs to completion.  The step relation interleaves the two; a state also
  records the events the queue accepted and those the reader has returned.
\<close>

datatype reader = Idle | Nonempty | Loaded key_event

record shared_queue =
  q_ring :: "key_event ring"
  q_reader :: reader
  q_accepted :: "key_event list"
  q_returned :: "key_event list"

inductive queue_step :: "shared_queue \<Rightarrow> shared_queue \<Rightarrow> bool" where
  irq: "queue_step q (q\<lparr>q_ring := ring_push e (q_ring q),
          q_accepted := q_accepted q @ (if ring_next (head (q_ring q)) \<noteq> tail (q_ring q) then [e] else [])\<rparr>)"
| check: "q_reader q = Idle \<Longrightarrow> head (q_ring q) \<noteq> tail (q_ring q) \<Longrightarrow> queue_step q (q\<lparr>q_reader := Nonempty\<rparr>)"
| load: "q_reader q = Nonempty \<Longrightarrow>
    queue_step q (q\<lparr>q_reader := Loaded (rbuf (q_ring q) ! unat (tail (q_ring q)))\<rparr>)"
| commit: "q_reader q = Loaded e \<Longrightarrow>
    queue_step q (q\<lparr>q_ring := (q_ring q)\<lparr>tail := ring_next (tail (q_ring q))\<rparr>, q_reader := Idle,
                    q_returned := q_returned q @ [e]\<rparr>)"

definition queue_inv :: "shared_queue \<Rightarrow> bool" where
  "queue_inv q \<longleftrightarrow> ring_ok (q_ring q) \<and> q_accepted q = q_returned q @ ring_contents (q_ring q) \<and>
     (case q_reader q of
        Idle \<Rightarrow> True
      | Nonempty \<Rightarrow> ring_contents (q_ring q) \<noteq> []
      | Loaded e \<Rightarrow> ring_contents (q_ring q) \<noteq> [] \<and> hd (ring_contents (q_ring q)) = e)"

lemma ring_push_prefix:
  assumes "ring_ok r"
  shows "ring_contents (ring_push e r) =
    ring_contents r @ (if ring_next (head r) \<noteq> tail r then [e] else [])"
  using ring_push_contents(2) [OF assms, of e] ring_full_iff [OF assms]
  by (auto simp: ring_contents_def)

lemma ring_nonempty:
  assumes "ring_ok r" and "ring_contents r \<noteq> []"
  shows "ring_contents r = rbuf r ! unat (tail r) # ring_contents (r\<lparr>tail := ring_next (tail r)\<rparr>)"
    and "ring_ok (r\<lparr>tail := ring_next (tail r)\<rparr>)"
proof -
  have "ring_pop r = Some (rbuf r ! unat (tail r), r\<lparr>tail := ring_next (tail r)\<rparr>)"
    using ring_pop_contents(1) [OF assms(1)] assms(2) by (auto simp: ring_pop_def split: if_splits)
  then show "ring_contents r = rbuf r ! unat (tail r) # ring_contents (r\<lparr>tail := ring_next (tail r)\<rparr>)"
    "ring_ok (r\<lparr>tail := ring_next (tail r)\<rparr>)"
    using ring_pop_contents(2,3) [OF assms(1)] by blast+
qed

lemma queue_step_inv:
  assumes "queue_step q q'" and "queue_inv q"
  shows "queue_inv q'"
  using assms
proof (induction rule: queue_step.induct)
  case (irq q e)
  then have r: "ring_ok (q_ring q)" by (simp add: queue_inv_def)
  show ?case
    using irq ring_push_contents(1) [OF r, of e] ring_push_prefix [OF r, of e]
    by (auto simp: queue_inv_def split: reader.splits)
next
  case (check q)
  then have r: "ring_ok (q_ring q)" by (simp add: queue_inv_def)
  show ?case
    using check ring_pop_contents(1) [OF r] by (auto simp: queue_inv_def ring_pop_def)
next
  case (load q)
  then show ?case
    using ring_nonempty(1) [of "q_ring q"] by (auto simp: queue_inv_def)
next
  case (commit q e)
  then have r: "ring_ok (q_ring q)" "ring_contents (q_ring q) \<noteq> []" "hd (ring_contents (q_ring q)) = e"
    by (simp_all add: queue_inv_def)
  show ?case
    using commit r(3) ring_nonempty [OF r(1,2)] by (auto simp: queue_inv_def)
qed

lemma queue_steps_inv: "queue_step\<^sup>*\<^sup>* q q' \<Longrightarrow> queue_inv q \<Longrightarrow> queue_inv q'"
  by (induction rule: rtranclp_induct) (blast intro: queue_step_inv)+

section \<open>Dispatching\<close>

lemma push_event_rings:
  "ev_ring (push_event e s) = ring_push e (ev_ring s)" "ascii_ring (push_event e s) = ascii_ring s"
  "g_mods (push_event e s) = g_mods s"
  by (simp_all add: push_event_def)

lemma dispatch_rings:
  shows "g_mods (kbd_dispatch_event ev s) = modifier_update ev (lock_toggle ev (g_mods s))"
    and "ev_ring (kbd_dispatch_event ev s) =
      ring_push (ev\<lparr>mods := modifier_update ev (lock_toggle ev (g_mods s))\<rparr>) (ev_ring s)"
    and "ascii_ring (kbd_dispatch_event ev s) =
      (if ev_type ev = KEY_EV_PRESS \<and> code ev < 0x80 \<and> (ucast (code ev) :: u8) \<noteq> 0
       then ring_push (ucast (code ev)) (ascii_ring s) else ascii_ring s)"
  by (simp_all add: kbd_dispatch_event_def Let_def push_ascii_rings push_event_rings)

lemma dispatch_ok: "kbd_ok s \<Longrightarrow> kbd_ok (kbd_dispatch_event ev s)"
  by (simp add: kbd_ok_def dispatch_rings ring_push_contents(1))

lemma emit_ok: "kbd_ok s \<Longrightarrow> kbd_ok (emit_ps2_event raw down s)"
  by (simp add: emit_ps2_event_def Let_def dispatch_ok)

lemma scancode_ok: "kbd_ok s \<Longrightarrow> kbd_ok (ps2_scancode sc s)"
proof -
  assume "kbd_ok s"
  then have "kbd_ok (s\<lparr>g_ps2_e0 := b\<rparr>)" "kbd_ok (s\<lparr>g_ps2_e0 := b, g_mods := m\<rparr>)" for b m
    by (simp_all add: kbd_ok_def)
  then show ?thesis by (simp add: ps2_scancode_def Let_def dispatch_ok emit_ok)
qed

lemma irq1_ok: "kbd_ok s \<Longrightarrow> kbd_ok (ps2_irq1_handler r s)"
  by (auto simp: ps2_irq1_handler_def intro!: scancode_ok split: prod.split) (simp add: kbd_ok_def)

text \<open>Ordinary characters do not touch the modifiers.\<close>

lemma char_mods:
  assumes "code ev < 0x80"
  shows "modifier_update ev (lock_toggle ev m) = m"
proof -
  have "code ev \<noteq> kc" if "0x80 \<le> kc" for kc using assms that by auto
  then show ?thesis
    by (simp add: modifier_update_def lock_toggle_def modifier_bits_def Let_def kc_defs)
qed

definition printable :: "'a kbd_scheme \<Rightarrow> u8 \<Rightarrow> bool" where
  "printable s sc \<longleftrightarrow> sc < 0x80 \<and> ps2_key_of sc = KC_NONE \<and> translate_ps2_ascii sc s \<noteq> 0 \<and>
     translate_ps2_ascii sc s < 0x80"

lemma dispatch_keeps:
  "tbl_norm (kbd_dispatch_event ev s) = tbl_norm s" "tbl_shift (kbd_dispatch_event ev s) = tbl_shift s"
  "g_ps2_e0 (kbd_dispatch_event ev s) = g_ps2_e0 s"
  by (simp_all add: kbd_dispatch_event_def push_event_def push_ascii_def kb_console_putc_def Let_def)

lemma translate_cong:
  "tbl_norm s' = tbl_norm s \<Longrightarrow> tbl_shift s' = tbl_shift s \<Longrightarrow> g_mods s' = g_mods s \<Longrightarrow>
   translate_ps2_ascii raw s' = translate_ps2_ascii raw s"
  by (simp add: translate_ps2_ascii_def kbd_layout_ascii_from_set1_def)

definition char_event :: "'a kbd_scheme \<Rightarrow> u8 \<Rightarrow> key_event" where
  "char_event s sc = \<lparr>ev_type = KEY_EV_PRESS, code = ucast (translate_ps2_ascii sc s), mods = g_mods s,
     src = KDEV_SOURCE_PS2, dev_id = 0\<rparr>"

lemma low_seven_bits:
  assumes "sc < (0x80 :: u8)"
  shows "sc AND 0x80 = 0" and "sc AND 0x7F = sc"
proof -
  have b: "\<not> bit sc 7"
  proof -
    have "unat sc < 2 ^ 7" using assms by (simp add: word_less_nat_alt)
    then show ?thesis by (simp add: bit_unat_digit)
  qed
  then show "sc AND 0x80 = 0" using and_power_eq_0_iff [of sc 7] by simp
  have m: "(0x7F :: u8) = mask 7" by (simp add: mask_eq_exp_minus_1)
  show "sc AND 0x7F = sc"
    unfolding m by (rule bit_word_eqI) (use b in \<open>auto simp: bit_simps less_Suc_eq numeral_eq_Suc\<close>)
qed

lemma printable_scancode:
  assumes "printable s sc" and "\<not> g_ps2_e0 s"
  shows "ps2_scancode sc s = kbd_dispatch_event (char_event s sc) s"
proof -
  have sc: "sc AND 0x80 = 0" "sc AND 0x7F = sc" "sc \<noteq> 0xE0"
    using low_seven_bits [of sc] assms(1) by (auto simp: printable_def)
  have "ps2_track_mods sc False (g_mods s) = g_mods s"
    using assms(1) by (auto simp: printable_def ps2_key_of_def ps2_track_mods_def kc_defs split: if_splits)
  moreover have s: "s\<lparr>g_ps2_e0 := False\<rparr> = s" "s\<lparr>g_mods := g_mods s\<rparr> = s"
    using assms(2) by (cases s; simp)+
  ultimately show ?thesis
    using assms sc by (simp add: ps2_scancode_def s emit_ps2_event_def printable_def char_event_def)
qed

lemma ps2_typing_queues:
  assumes "kbd_ok s" and "\<not> g_ps2_e0 s" and "list_all (printable s) scs"
    and "length (ring_contents (ev_ring s)) + length scs \<le> 255"
    and "length (ring_contents (ascii_ring s)) + length scs \<le> 255"
  shows "ring_contents (ascii_ring (fold ps2_scancode scs s)) =
      ring_contents (ascii_ring s) @ map (\<lambda>sc. translate_ps2_ascii sc s) scs \<and>
    ring_contents (ev_ring (fold ps2_scancode scs s)) = ring_contents (ev_ring s) @ map (char_event s) scs \<and>
    g_mods (fold ps2_scancode scs s) = g_mods s"
  using assms
proof (induction scs arbitrary: s)
  case (Cons sc scs)
  let ?e = "char_event s sc" and ?s = "kbd_dispatch_event (char_event s sc) s"
  have p: "printable s sc" using Cons.prems by simp
  have r: "ring_ok (ev_ring s)" "ring_ok (ascii_ring s)" using Cons.prems(1) by (simp_all add: kbd_ok_def)
  have c: "code ?e < 0x80" "(ucast (code ?e) :: u8) = translate_ps2_ascii sc s" "translate_ps2_ascii sc s \<noteq> 0"
    using p by (simp_all add: char_event_def printable_def word_less_nat_alt)
  have m: "modifier_update ?e (lock_toggle ?e (g_mods s)) = g_mods s" using c(1) by (rule char_mods)
  then have e: "?e\<lparr>mods := g_mods s\<rparr> = ?e" by (simp add: char_event_def)
  have q: "ring_contents (ev_ring ?s) = ring_contents (ev_ring s) @ [?e]"
      "ring_contents (ascii_ring ?s) = ring_contents (ascii_ring s) @ [translate_ps2_ascii sc s]"
      "g_mods ?s = g_mods s"
    using ring_push_contents(2) [OF r(1), of ?e] ring_push_contents(2) [OF r(2), of "translate_ps2_ascii sc s"]
      Cons.prems(4,5) c m e by (simp_all add: dispatch_rings char_event_def)
  have same: "translate_ps2_ascii k ?s = translate_ps2_ascii k s" for k
    by (rule translate_cong) (simp_all add: dispatch_keeps q(3))
  then have "printable ?s = printable s" by (simp add: printable_def fun_eq_iff)
  moreover have "char_event t k = char_event s k"
    if "translate_ps2_ascii k t = translate_ps2_ascii k s" "g_mods t = g_mods s" for t k
    using that by (simp add: char_event_def)
  then have "char_event ?s = char_event s" using same q(3) by blast
  ultimately show ?case
    using Cons.IH [of ?s] Cons.prems q same printable_scancode [OF p Cons.prems(2)] dispatch_ok [OF Cons.prems(1)]
    by (simp add: dispatch_keeps)
qed simp

section \<open>Properties\<close>

definition demo_ring :: "'a \<Rightarrow> 'a ring" where
  "demo_ring e = \<lparr>rbuf = replicate 256 e, head = 254, tail = 254\<rparr>"

definition null_event :: key_event where
  "null_event = \<lparr>ev_type = KEY_EV_PRESS, code = 0, mods = 0, src = KDEV_SOURCE_PS2, dev_id = 0\<rparr>"

definition demo_kbd :: kbd where
  "demo_kbd = cpu.extend demo_cpu
     \<lparr>ev_ring = demo_ring null_event, ascii_ring = demo_ring 0, g_layout = 0, g_auto_echo = False, g_mods = 0,
      g_ps2_e0 = False, g_ps2_registered = True, g_usb_next_id = 1, tbl_norm = sc_ascii_qwerty,
      tbl_shift = sc_ascii_qwerty_cap\<rparr>"

lemma demo_kbd_ok: "kbd_ok demo_kbd" "ring_contents (ev_ring demo_kbd) = []" "ring_contents (ascii_ring demo_kbd) = []"
  by (simp_all add: kbd_ok_def demo_kbd_def cpu.defs demo_ring_def ring_ok_def KEYBUF_CAP_def ring_contents_def
      ring_length_def)



text \<open>
  C21. Both queues are bounded first-in first-out queues of 255 entries: for every sequence of
  offers and reads, what was queued before followed by what was accepted equals what was read
  followed by what remains, the state stays well formed, and an offer is accepted unless 255
  entries are waiting (characters: or it is NUL).
\<close>

theorem keyboard_queues_fifo:
  assumes "kbd_ok s" and "evq.run ops s = (acc, out, s')" and "chq.run cops s = (cacc, cout, t')"
  shows "kbd_ok s' \<and> ring_contents (ev_ring s) @ acc = out @ ring_contents (ev_ring s') \<and>
    kbd_ok t' \<and> ring_contents (ascii_ring s) @ cacc = cout @ ring_contents (ascii_ring t') \<and>
    length (ring_contents (ev_ring s')) \<le> 255 \<and> length (ring_contents (ascii_ring t')) \<le> 255"
  using evq.run_fifo [OF assms(1,2)] chq.run_fifo [OF assms(1,3)] evq.bounded chq.bounded by blast

theorem keyboard_queues_fifo_witness:
  "\<exists>acc out s' cacc cout t'. evq.run [Inl null_event, Inr (), Inr ()] demo_kbd = (acc, out, s') \<and>
     chq.run [Inl 65, Inl 66, Inr ()] demo_kbd = (cacc, cout, t') \<and>
     acc = out @ ring_contents (ev_ring s') \<and> cacc = cout @ ring_contents (ascii_ring t')"
proof -
  obtain acc out s' where e: "evq.run [Inl null_event, Inr (), Inr ()] demo_kbd = (acc, out, s')"
    using prod_cases3 by blast
  obtain cacc cout t' where c: "chq.run [Inl 65, Inl 66, Inr ()] demo_kbd = (cacc, cout, t')"
    using prod_cases3 by blast
  show ?thesis using keyboard_queues_fifo [OF demo_kbd_ok(1) e c] e c demo_kbd_ok(2,3) by auto
qed

text \<open>
  C20. Typing on the PS/2 keyboard: a sequence of make codes of printable keys appends exactly their
  characters in the current layout to the character queue and exactly one press event each to the
  event queue, in order, with the modifiers unchanged, as long as both queues have room.
\<close>

theorem ps2_typing:
  assumes "kbd_ok s" and "\<not> g_ps2_e0 s" and "list_all (printable s) scs"
    and "length (ring_contents (ev_ring s)) + length scs \<le> 255"
    and "length (ring_contents (ascii_ring s)) + length scs \<le> 255"
  shows "ring_contents (ascii_ring (fold ps2_scancode scs s)) =
      ring_contents (ascii_ring s) @ map (\<lambda>sc. translate_ps2_ascii sc s) scs \<and>
    ring_contents (ev_ring (fold ps2_scancode scs s)) = ring_contents (ev_ring s) @ map (char_event s) scs \<and>
    g_mods (fold ps2_scancode scs s) = g_mods s"
  using assms by (rule ps2_typing_queues)

theorem ps2_typing_witness:
  "ring_contents (ascii_ring (fold ps2_scancode [0x23, 0x17] demo_kbd)) = lit ''hi'' \<and>
   map code (ring_contents (ev_ring (fold ps2_scancode [0x23, 0x17] demo_kbd))) = [0x68, 0x69]"
proof -
  have t: "translate_ps2_ascii 0x23 demo_kbd = 0x68" "translate_ps2_ascii 0x17 demo_kbd = 0x69"
    by (simp_all add: translate_ps2_ascii_def kbd_layout_ascii_from_set1_def demo_kbd_def cpu.defs
        SC_ASCII_TABLE_LEN_def sc_ascii_qwerty_def)
  have "list_all (printable demo_kbd) [0x23, 0x17]"
    using t by (simp add: printable_def ps2_key_of_def)
  moreover have "\<not> g_ps2_e0 demo_kbd" by (simp add: demo_kbd_def cpu.defs)
  ultimately show ?thesis
    using ps2_typing [OF demo_kbd_ok(1), of "[0x23, 0x17]"] t demo_kbd_ok(2,3)
    by (simp add: char_event_def lit_def of_char_def)
qed

text \<open>
  C35. Caps Lock does nothing on a PS/2 keyboard: the interrupt handler toggles the lock bit and the
  dispatcher toggles it back, so after the make and break codes of the key the modifiers are what
  they were before, although a press event of Caps Lock was queued.
\<close>

theorem ps2_caps_lock_dead:
  assumes "kbd_ok s" and "\<not> g_ps2_e0 s"
  shows "g_mods (ps2_scancode 0x3A s) = g_mods s \<and> g_mods (ps2_scancode 0xBA (ps2_scancode 0x3A s)) = g_mods s"
proof -
  have x: "(m XOR KM_CAPS) XOR KM_CAPS = m" for m by (simp add: xor.assoc)
  have press: "g_mods (ps2_scancode 0x3A t) = g_mods t" if "\<not> g_ps2_e0 t" for t :: "'a kbd_scheme"
    using that x by (simp add: ps2_scancode_def Let_def emit_ps2_event_def ps2_key_of_def ps2_track_mods_def
        dispatch_rings modifier_update_def lock_toggle_def modifier_bits_def kc_defs)
  have release: "g_mods (ps2_scancode 0xBA t) = g_mods t" if "\<not> g_ps2_e0 t" for t :: "'a kbd_scheme"
    using that by (simp add: ps2_scancode_def Let_def emit_ps2_event_def ps2_key_of_def ps2_track_mods_def
        dispatch_rings modifier_update_def lock_toggle_def modifier_bits_def kc_defs)
  have "\<not> g_ps2_e0 (ps2_scancode 0x3A s)"
    by (simp add: ps2_scancode_def Let_def emit_ps2_event_def dispatch_keeps assms(2))
  then show ?thesis using press [OF assms(2)] release by simp
qed

theorem ps2_caps_lock_dead_witness:
  "g_mods (ps2_scancode 0x3A demo_kbd) = 0 \<and> g_mods (ps2_scancode 0xBA (ps2_scancode 0x3A demo_kbd)) = 0"
proof -
  have "\<not> g_ps2_e0 demo_kbd" "g_mods demo_kbd = 0" by (simp_all add: demo_kbd_def cpu.defs)
  then show ?thesis using ps2_caps_lock_dead [OF demo_kbd_ok(1)] by simp
qed

end
