(* ===== verification/Keyboard_USB.thy ===== *)
theory Keyboard_USB
  imports Keyboard
begin

text \<open>
  \<^verbatim>\<open>src/drivers/keyboard/keyboard_usb.c\<close>: USB boot keyboards.  A keyboard slot keeps the last
  8-byte report; \<open>keyboard_usb_on_boot_report\<close> compares it with the new one and dispatches a press
  or release event for every modifier and key that changed.  The two reports are lists of eight
  bytes: byte 0 the modifiers, bytes 2 to 7 the usages of the keys held down.
\<close>

section \<open>State\<close>

definition KB_STAT_INIT :: u8 where "KB_STAT_INIT = 1"
definition KB_STAT_ENABLED :: u8 where "KB_STAT_ENABLED = 2"
definition MAX_USB_KEYBOARDS :: nat where "MAX_USB_KEYBOARDS = 4"

record usb_keyboard_device =
  status :: u8
  address :: u8
  ep :: u8
  interval :: u8
  wMaxPacket :: u16
  last_report :: "u8 list"
  last_mods :: u8
  kb_dev_id :: u8

definition zero_keyboard :: usb_keyboard_device where
  "zero_keyboard = \<lparr>status = 0, address = 0, ep = 0, interval = 0, wMaxPacket = 0,
     last_report = replicate 8 0, last_mods = 0, kb_dev_id = 0\<rparr>"

record usb_kbd = kbd +
  g_kbds :: "usb_keyboard_device list"

section \<open>Helpers\<close>

definition mods_from_hid :: "u8 \<Rightarrow> u16" where
  "mods_from_hid m =
     (let k = 0;
          k = (if m AND push_bit 0 1 \<noteq> 0 then k OR KM_CTRL else k);
          k = (if m AND push_bit 1 1 \<noteq> 0 then k OR KM_SHIFT else k);
          k = (if m AND push_bit 2 1 \<noteq> 0 then k OR KM_ALT else k);
          k = (if m AND push_bit 3 1 \<noteq> 0 then k OR KM_GUI else k);
          k = (if m AND push_bit 4 1 \<noteq> 0 then k OR KM_CTRL OR KM_RCTRL else k);
          k = (if m AND push_bit 5 1 \<noteq> 0 then k OR KM_SHIFT OR KM_RSHIFT else k);
          k = (if m AND push_bit 6 1 \<noteq> 0 then k OR KM_ALT OR KM_RALT else k);
          k = (if m AND push_bit 7 1 \<noteq> 0 then k OR KM_GUI OR KM_RGUI else k)
      in k)"

definition report_keys :: "u8 list \<Rightarrow> u8 list" where
  "report_keys rep = map (\<lambda>i. rep ! i) [2..<8]"

definition report_contains :: "u8 list \<Rightarrow> u8 \<Rightarrow> bool" where
  "report_contains rep usage \<longleftrightarrow> list_ex (\<lambda>i. rep ! i = usage) [2..<8]"

definition hid_usage_map :: "(u8 \<times> u8) list" where
  "hid_usage_map =
     [(0x04, 0x1E), (0x05, 0x30), (0x06, 0x2E), (0x07, 0x20), (0x08, 0x12), (0x09, 0x21), (0x0A, 0x22),
      (0x0B, 0x23), (0x0C, 0x17), (0x0D, 0x24), (0x0E, 0x25), (0x0F, 0x26), (0x10, 0x32), (0x11, 0x31),
      (0x12, 0x18), (0x13, 0x19), (0x14, 0x10), (0x15, 0x13), (0x16, 0x1F), (0x17, 0x14), (0x18, 0x16),
      (0x19, 0x2F), (0x1A, 0x11), (0x1B, 0x2D), (0x1C, 0x15), (0x1D, 0x2C), (0x1E, 0x02), (0x1F, 0x03),
      (0x20, 0x04), (0x21, 0x05), (0x22, 0x06), (0x23, 0x07), (0x24, 0x08), (0x25, 0x09), (0x26, 0x0A),
      (0x27, 0x0B), (0x2C, 0x39), (0x2D, 0x0C), (0x2E, 0x0D), (0x2F, 0x1A), (0x30, 0x1B), (0x31, 0x2B),
      (0x33, 0x27), (0x34, 0x28), (0x35, 0x29), (0x36, 0x33), (0x37, 0x34), (0x38, 0x35)]"

definition hid_usage_to_set1 :: "u8 \<Rightarrow> u8" where
  "hid_usage_to_set1 usage =
     (case find (\<lambda>(u, set1). u = usage) hid_usage_map of Some (u, set1) \<Rightarrow> set1 | None \<Rightarrow> 0xFF)"

definition hid_ext_map :: "(u8 \<times> u16) list" where
  "hid_ext_map =
     [(0x28, KC_ENTER), (0x29, KC_ESC), (0x2A, KC_BACKSPACE), (0x2B, KC_TAB), (0x2C, KC_SPACE),
      (0x3A, KC_F1), (0x3B, KC_F2), (0x3C, KC_F3), (0x3D, KC_F4), (0x3E, KC_F5), (0x3F, KC_F6),
      (0x40, KC_F7), (0x41, KC_F8), (0x42, KC_F9), (0x43, KC_F10), (0x44, KC_F11), (0x45, KC_F12),
      (0x39, KC_CAPS_LOCK),
      (0x52, KC_UP), (0x51, KC_DOWN), (0x50, KC_LEFT), (0x4F, KC_RIGHT), (0x4A, KC_HOME), (0x4D, KC_END),
      (0x4B, KC_PGUP), (0x4E, KC_PGDN), (0x49, KC_INSERT), (0x4C, KC_DELETE)]"

definition hid_usage_to_ext_kc :: "u8 \<Rightarrow> u16" where
  "hid_usage_to_ext_kc u = (case map_of hid_ext_map u of Some kc \<Rightarrow> kc | None \<Rightarrow> KC_NONE)"

definition hid_usage_to_ascii :: "u8 \<Rightarrow> u16 \<Rightarrow> 'a usb_kbd_scheme \<Rightarrow> u8" where
  "hid_usage_to_ascii usage mods_state s =
     (let sc = hid_usage_to_set1 usage in
      if sc = 0xFF then 0 else kbd_layout_ascii_from_set1 sc mods_state s)"

definition emit_key :: "bool \<Rightarrow> u16 \<Rightarrow> u16 \<Rightarrow> u8 \<Rightarrow> 'a usb_kbd_scheme \<Rightarrow> 'a usb_kbd_scheme" where
  "emit_key press kc m d s =
     kbd_dispatch_event \<lparr>ev_type = (if press then KEY_EV_PRESS else KEY_EV_RELEASE), code = kc, mods = m,
       src = KDEV_SOURCE_USB, dev_id = d\<rparr> s"

definition modifier_map :: "(u16 \<times> u16) list" where
  "modifier_map = [(KM_CTRL, KC_LCTRL), (KM_SHIFT, KC_LSHIFT), (KM_ALT, KC_LALT), (KM_GUI, KC_LGUI),
     (KM_RCTRL, KC_RCTRL), (KM_RSHIFT, KC_RSHIFT), (KM_RALT, KC_RALT), (KM_RGUI, KC_RGUI)]"

definition emit_modifier_deltas :: "u16 \<Rightarrow> u16 \<Rightarrow> u8 \<Rightarrow> 'a usb_kbd_scheme \<Rightarrow> 'a usb_kbd_scheme" where
  "emit_modifier_deltas prev now d s =
     (let changed = prev XOR now in
      fold (\<lambda>(msk, kc) s. if changed AND msk \<noteq> 0 then emit_key (now AND msk \<noteq> 0) kc now d s else s)
        modifier_map s)"

section \<open>Public operations\<close>

definition kb_in_use :: "usb_keyboard_device \<Rightarrow> bool" where
  "kb_in_use d \<longleftrightarrow> status d AND KB_STAT_INIT \<noteq> 0"

definition kb_enabled :: "usb_keyboard_device \<Rightarrow> bool" where
  "kb_enabled d \<longleftrightarrow> status d AND (KB_STAT_INIT OR KB_STAT_ENABLED) = (KB_STAT_INIT OR KB_STAT_ENABLED)"

text \<open>A slot index of \<open>-1\<close> means failure, as in the C code.\<close>

definition first_slot :: "(usb_keyboard_device \<Rightarrow> bool) \<Rightarrow> usb_keyboard_device list \<Rightarrow> nat option" where
  "first_slot P ds = find (\<lambda>i. P (ds ! i)) [0..<MAX_USB_KEYBOARDS]"

definition keyboard_register_usb_boot_keyboard ::
  "u8 \<Rightarrow> u8 \<Rightarrow> u8 \<Rightarrow> u16 \<Rightarrow> 'a usb_kbd_scheme \<Rightarrow> int \<times> 'a usb_kbd_scheme" where
  "keyboard_register_usb_boot_keyboard addr endpoint_addr interval_ms wMaxPacketSize s =
     (case first_slot (\<lambda>d. \<not> kb_in_use d) (g_kbds s) of
        None \<Rightarrow> (-1, s)
      | Some i \<Rightarrow>
          let (id, s1) = kbd_register_device KDEV_SOURCE_USB addr s;
              d = (g_kbds s1 ! i)\<lparr>status := KB_STAT_INIT OR KB_STAT_ENABLED, address := addr,
                     ep := endpoint_addr, interval := interval_ms, wMaxPacket := wMaxPacketSize,
                     last_mods := 0, last_report := replicate 8 0, kb_dev_id := id\<rparr>
          in (int i, s1\<lparr>g_kbds := (g_kbds s1)[i := d]\<rparr>))"

definition slot_index :: "int \<Rightarrow> bool" where
  "slot_index i \<longleftrightarrow> 0 \<le> i \<and> i < int MAX_USB_KEYBOARDS"

definition keyboard_usb_set_enabled :: "int \<Rightarrow> bool \<Rightarrow> 'a usb_kbd_scheme \<Rightarrow> 'a usb_kbd_scheme" where
  "keyboard_usb_set_enabled dev_index enabled s =
     (if \<not> slot_index dev_index then s
      else let d = g_kbds s ! nat dev_index in
      if \<not> kb_in_use d then s
      else s\<lparr>g_kbds := (g_kbds s)[nat dev_index := d\<lparr>status := (if enabled then status d OR KB_STAT_ENABLED
                                                             else status d AND NOT KB_STAT_ENABLED)\<rparr>]\<rparr>)"

definition keyboard_usb_is_enabled :: "int \<Rightarrow> 'a usb_kbd_scheme \<Rightarrow> bool" where
  "keyboard_usb_is_enabled dev_index s \<longleftrightarrow> slot_index dev_index \<and> kb_enabled (g_kbds s ! nat dev_index)"

definition keyboard_usb_unregister :: "int \<Rightarrow> 'a usb_kbd_scheme \<Rightarrow> 'a usb_kbd_scheme" where
  "keyboard_usb_unregister dev_index s =
     (if \<not> slot_index dev_index then s
      else let d = g_kbds s ! nat dev_index;
               s1 = (if kb_in_use d then kbd_unregister_device (kb_dev_id d) s else s)
           in s1\<lparr>g_kbds := (g_kbds s1)[nat dev_index := zero_keyboard]\<rparr>)"

definition keyboard_usb_find_by_addr_ep :: "u8 \<Rightarrow> u8 \<Rightarrow> 'a usb_kbd_scheme \<Rightarrow> int" where
  "keyboard_usb_find_by_addr_ep addr e s =
     (case first_slot (\<lambda>d. kb_in_use d \<and> address d = addr \<and> ep d = e) (g_kbds s) of
        Some i \<Rightarrow> int i | None \<Rightarrow> -1)"

text \<open>The two loops of the report handler, over the six key bytes of a report.\<close>

definition emit_release :: "u8 list \<Rightarrow> u16 \<Rightarrow> u8 \<Rightarrow> u8 \<Rightarrow> 'a usb_kbd_scheme \<Rightarrow> 'a usb_kbd_scheme" where
  "emit_release report m_now d u s =
     (if u \<noteq> 0 \<and> \<not> report_contains report u
      then let kc = hid_usage_to_ext_kc u;
               kc = (if kc = KC_NONE
                     then let ch = hid_usage_to_ascii u 0 s in if ch \<noteq> 0 then ucast ch else kc
                     else kc)
           in if kc \<noteq> KC_NONE then emit_key False kc m_now d s else s
      else s)"

definition emit_press :: "u8 list \<Rightarrow> u16 \<Rightarrow> u8 \<Rightarrow> u8 \<Rightarrow> 'a usb_kbd_scheme \<Rightarrow> 'a usb_kbd_scheme" where
  "emit_press prev m_now d u s =
     (if u \<noteq> 0 \<and> \<not> report_contains prev u
      then let ch = hid_usage_to_ascii u (kbd_mods_state s) s;
               kc = (if ch \<noteq> 0 then ucast ch else hid_usage_to_ext_kc u)
           in if kc \<noteq> KC_NONE then emit_key True kc m_now d s else s
      else s)"

definition keyboard_usb_on_boot_report :: "int \<Rightarrow> u8 list \<Rightarrow> 'a usb_kbd_scheme \<Rightarrow> 'a usb_kbd_scheme" where
  "keyboard_usb_on_boot_report dev_index report s =
     (if \<not> slot_index dev_index then s
      else let dev = g_kbds s ! nat dev_index in
      if \<not> kb_enabled dev then s
      else let prev = last_report dev;
               m_now = mods_from_hid (report ! 0);
               m_prev = mods_from_hid (prev ! 0);
               s1 = (if m_now \<noteq> m_prev then emit_modifier_deltas m_prev m_now (kb_dev_id dev) s else s);
               s2 = fold (emit_release report m_now (kb_dev_id dev)) (report_keys prev) s1;
               s3 = fold (emit_press prev m_now (kb_dev_id dev)) (report_keys report) s2
           in s3\<lparr>g_kbds := (g_kbds s3)[nat dev_index :=
                  (g_kbds s3 ! nat dev_index)\<lparr>last_mods := report ! 0, last_report := take 8 report\<rparr>]\<rparr>)"

section \<open>Lemmas\<close>

text \<open>The keycodes a usage stands for: on release from the unshifted layout, on press under \<open>m\<close>.\<close>

definition release_code :: "'a usb_kbd_scheme \<Rightarrow> u8 \<Rightarrow> u16" where
  "release_code s u =
     (if hid_usage_to_ext_kc u = KC_NONE then ucast (hid_usage_to_ascii u 0 s) else hid_usage_to_ext_kc u)"

definition press_code :: "'a usb_kbd_scheme \<Rightarrow> u16 \<Rightarrow> u8 \<Rightarrow> u16" where
  "press_code s m u =
     (if hid_usage_to_ascii u m s \<noteq> 0 then ucast (hid_usage_to_ascii u m s) else hid_usage_to_ext_kc u)"

definition usb_event :: "key_event_type \<Rightarrow> u16 \<Rightarrow> u16 \<Rightarrow> u8 \<Rightarrow> key_event" where
  "usb_event ty m kc d = \<lparr>ev_type = ty, code = kc, mods = m, src = KDEV_SOURCE_USB, dev_id = d\<rparr>"

lemma report_contains_iff: "report_contains rep u \<longleftrightarrow> u \<in> set (report_keys rep)"
  by (auto simp: report_contains_def report_keys_def list_ex_iff image_iff)

lemma emit_release_eq:
  "emit_release report m d u s =
     (if u \<noteq> 0 \<and> u \<notin> set (report_keys report) \<and> release_code s u \<noteq> KC_NONE
      then kbd_dispatch_event (usb_event KEY_EV_RELEASE m (release_code s u) d) s else s)"
  by (auto simp: emit_release_def report_contains_iff release_code_def emit_key_def usb_event_def Let_def KC_NONE_def)

lemma emit_press_eq:
  "emit_press prev m d u s =
     (if u \<noteq> 0 \<and> u \<notin> set (report_keys prev) \<and> press_code s (g_mods s) u \<noteq> KC_NONE
      then kbd_dispatch_event (usb_event KEY_EV_PRESS m (press_code s (g_mods s) u) d) s else s)"
  by (auto simp: emit_press_def report_contains_iff press_code_def emit_key_def usb_event_def Let_def
      kbd_mods_state_def)

lemma codes_dispatch:
  "release_code (kbd_dispatch_event ev s) u = release_code s u"
  "press_code (kbd_dispatch_event ev s) m u = press_code s m u"
  by (simp_all add: release_code_def press_code_def hid_usage_to_ascii_def kbd_layout_ascii_from_set1_def
      dispatch_keeps Let_def)

lemma codes_dispatches:
  "release_code (fold kbd_dispatch_event evs s) u = release_code s u"
  "press_code (fold kbd_dispatch_event evs s) m u = press_code s m u"
  by (induction evs arbitrary: s) (simp_all add: codes_dispatch)

lemma kbds_dispatch [simp]: "g_kbds (kbd_dispatch_event ev s) = g_kbds s"
  by (simp add: kbd_dispatch_event_def push_event_def push_ascii_def kb_console_putc_def Let_def)

lemma kbds_dispatches [simp]: "g_kbds (fold kbd_dispatch_event evs s) = g_kbds s"
  by (induction evs arbitrary: s) simp_all

lemma releases_eq:
  "fold (emit_release report m d) us s =
   fold kbd_dispatch_event
     (map (\<lambda>u. usb_event KEY_EV_RELEASE m (release_code s u) d)
       (filter (\<lambda>u. u \<noteq> 0 \<and> u \<notin> set (report_keys report) \<and> release_code s u \<noteq> KC_NONE) us)) s"
proof (induction us arbitrary: s)
  case (Cons u us)
  show ?case
  proof (cases "u \<noteq> 0 \<and> u \<notin> set (report_keys report) \<and> release_code s u \<noteq> KC_NONE")
    case True
    then show ?thesis
      using Cons [of "kbd_dispatch_event (usb_event KEY_EV_RELEASE m (release_code s u) d) s"]
      by (simp add: emit_release_eq [of _ _ _ _ s] codes_dispatch)
  next
    case False
    then show ?thesis using Cons [of s] by (auto simp: emit_release_eq [of _ _ _ _ s])
  qed
qed simp

text \<open>The press events depend on the modifiers, which a lock key in the same report may change.\<close>

lemma presses_eq:
  "\<exists>ps. fold (emit_press prev m d) us s = fold kbd_dispatch_event ps s \<and>
     (\<forall>e \<in> set ps. \<exists>u mm. u \<in> set us \<and> u \<noteq> 0 \<and> u \<notin> set (report_keys prev) \<and>
        e = usb_event KEY_EV_PRESS m (press_code s mm u) d) \<and>
     ((\<forall>u \<in> set us. u = 0 \<or> u \<in> set (report_keys prev)) \<longrightarrow> ps = [])"
proof (induction us arbitrary: s)
  case (Cons u us)
  show ?case
  proof (cases "u \<noteq> 0 \<and> u \<notin> set (report_keys prev) \<and> press_code s (g_mods s) u \<noteq> KC_NONE")
    case True
    let ?e = "usb_event KEY_EV_PRESS m (press_code s (g_mods s) u) d"
    obtain ps where ps: "fold (emit_press prev m d) us (kbd_dispatch_event ?e s) = fold kbd_dispatch_event ps (kbd_dispatch_event ?e s)"
      "\<forall>e \<in> set ps. \<exists>u mm. u \<in> set us \<and> u \<noteq> 0 \<and> u \<notin> set (report_keys prev) \<and> e = usb_event KEY_EV_PRESS m (press_code s mm u) d"
      using Cons [of "kbd_dispatch_event ?e s"] by (auto simp: codes_dispatch)
    have "fold (emit_press prev m d) (u # us) s = fold kbd_dispatch_event (?e # ps) s"
      using True ps(1) by (simp add: emit_press_eq [of _ _ _ _ s])
    then show ?thesis using ps(2) True by (intro exI [of _ "?e # ps"]) fastforce
  next
    case False
    then have "emit_press prev m d u s = s" by (auto simp: emit_press_eq)
    moreover obtain ps where "fold (emit_press prev m d) us s = fold kbd_dispatch_event ps s"
      "\<forall>e \<in> set ps. \<exists>u mm. u \<in> set us \<and> u \<noteq> 0 \<and> u \<notin> set (report_keys prev) \<and> e = usb_event KEY_EV_PRESS m (press_code s mm u) d"
      "(\<forall>u \<in> set us. u = 0 \<or> u \<in> set (report_keys prev)) \<longrightarrow> ps = []"
      using Cons [of s] by blast
    ultimately show ?thesis by (intro exI [of _ ps]) auto
  qed
qed simp

lemma modifier_deltas_eq:
  "emit_modifier_deltas prev now d s =
   fold kbd_dispatch_event
     (map (\<lambda>(msk, kc). usb_event (if now AND msk \<noteq> 0 then KEY_EV_PRESS else KEY_EV_RELEASE) now kc d)
       (filter (\<lambda>(msk, kc). (prev XOR now) AND msk \<noteq> 0) modifier_map)) s"
proof -
  have "fold (\<lambda>(msk, kc) s. if c AND msk \<noteq> 0 then emit_key (now AND msk \<noteq> 0) kc now d s else s) xs s =
      fold kbd_dispatch_event (map (\<lambda>(msk, kc). usb_event (if now AND msk \<noteq> 0 then KEY_EV_PRESS else KEY_EV_RELEASE) now kc d)
        (filter (\<lambda>(msk, kc). c AND msk \<noteq> 0) xs)) s" for c :: u16 and xs and s :: "'a usb_kbd_scheme"
    by (induction xs arbitrary: s) (auto simp: emit_key_def usb_event_def)
  then show ?thesis by (simp only: emit_modifier_deltas_def Let_def)
qed

definition save_report :: "int \<Rightarrow> u8 list \<Rightarrow> 'a usb_kbd_scheme \<Rightarrow> 'a usb_kbd_scheme" where
  "save_report i report s =
     s\<lparr>g_kbds := (g_kbds s)[nat i := (g_kbds s ! nat i)\<lparr>last_mods := report ! 0, last_report := take 8 report\<rparr>]\<rparr>"

definition modifier_events :: "u16 \<Rightarrow> u16 \<Rightarrow> u8 \<Rightarrow> key_event list" where
  "modifier_events prev now d =
     map (\<lambda>(msk, kc). usb_event (if now AND msk \<noteq> 0 then KEY_EV_PRESS else KEY_EV_RELEASE) now kc d)
       (filter (\<lambda>(msk, kc). (prev XOR now) AND msk \<noteq> 0) modifier_map)"

definition release_events :: "'a usb_kbd_scheme \<Rightarrow> u8 list \<Rightarrow> u8 list \<Rightarrow> u16 \<Rightarrow> u8 \<Rightarrow> key_event list" where
  "release_events s prev report m d =
     map (\<lambda>u. usb_event KEY_EV_RELEASE m (release_code s u) d)
       (filter (\<lambda>u. u \<noteq> 0 \<and> u \<notin> set (report_keys report) \<and> release_code s u \<noteq> KC_NONE) (report_keys prev))"

lemma modifier_events_same: "modifier_events m m d = []"
  by (simp add: modifier_events_def)

lemma on_boot_report_events:
  assumes "slot_index i" and "kb_enabled (g_kbds s ! nat i)"
    and "d = kb_dev_id (g_kbds s ! nat i)" and "prev = last_report (g_kbds s ! nat i)"
    and "m = mods_from_hid (report ! 0)"
  shows "\<exists>ps. keyboard_usb_on_boot_report i report s =
      save_report i report (fold kbd_dispatch_event
        (modifier_events (mods_from_hid (prev ! 0)) m d @ release_events s prev report m d @ ps) s) \<and>
    (\<forall>e \<in> set ps. \<exists>u mm. u \<in> set (report_keys report) \<and> u \<noteq> 0 \<and> u \<notin> set (report_keys prev) \<and>
        e = usb_event KEY_EV_PRESS m (press_code s mm u) d) \<and>
    ((\<forall>u \<in> set (report_keys report). u = 0 \<or> u \<in> set (report_keys prev)) \<longrightarrow> ps = [])"
proof -
  let ?mp = "mods_from_hid (prev ! 0)"
  let ?ms = "modifier_events ?mp m d" and ?rs = "release_events s prev report m d"
  have mods: "(if m \<noteq> ?mp then emit_modifier_deltas ?mp m d s else s) = fold kbd_dispatch_event ?ms s"
    by (cases "m = ?mp") (simp_all add: modifier_events_same modifier_deltas_eq modifier_events_def)
  have rel: "fold (emit_release report m d) (report_keys prev) (fold kbd_dispatch_event ?ms s) =
      fold kbd_dispatch_event (?ms @ ?rs) s"
    by (simp add: releases_eq codes_dispatches release_events_def)
  obtain ps where ps: "fold (emit_press prev m d) (report_keys report) (fold kbd_dispatch_event (?ms @ ?rs) s) =
      fold kbd_dispatch_event ps (fold kbd_dispatch_event (?ms @ ?rs) s)"
    "\<forall>e \<in> set ps. \<exists>u mm. u \<in> set (report_keys report) \<and> u \<noteq> 0 \<and> u \<notin> set (report_keys prev) \<and>
        e = usb_event KEY_EV_PRESS m (press_code s mm u) d"
    "(\<forall>u \<in> set (report_keys report). u = 0 \<or> u \<in> set (report_keys prev)) \<longrightarrow> ps = []"
    using presses_eq [of prev m d "report_keys report" "fold kbd_dispatch_event (?ms @ ?rs) s"]
    unfolding codes_dispatches by blast
  have "keyboard_usb_on_boot_report i report s =
      save_report i report (fold (emit_press prev m d) (report_keys report)
        (fold (emit_release report m d) (report_keys prev)
          (if m \<noteq> ?mp then emit_modifier_deltas ?mp m d s else s)))"
    using assms(1,2) by (simp add: keyboard_usb_on_boot_report_def save_report_def assms(3-5) Let_def)
  also have "\<dots> = save_report i report (fold kbd_dispatch_event (?ms @ ?rs @ ps) s)"
    unfolding mods rel ps(1) by simp
  finally show ?thesis using ps(2,3) by blast
qed

section \<open>Properties\<close>


definition demo_usb_kbd :: usb_kbd where
  "demo_usb_kbd = kbd.extend demo_kbd \<lparr>g_kbds = zero_keyboard\<lparr>status := 3, kb_dev_id := 1\<rparr> # replicate 3 zero_keyboard\<rparr>"


end
