(* ===== verification/Keyboard_Mappers.thy ===== *)
theory Keyboard_Mappers
  imports Keyboard_USB
begin

text \<open>
  \<^verbatim>\<open>src/drivers/keyboard/ps2_mapper.c\<close> and \<^verbatim>\<open>usb_hid_mapper.c\<close>: two alternative front ends that turn
  PS/2 scancode bytes and USB boot reports into dispatched events.  The static variable \<open>e0\<close> of
  \<open>ps2_on_scancode_byte\<close> is passed explicitly.
\<close>

section \<open>ps2_mapper.c\<close>

definition ps2_make_to_key :: "u8 \<Rightarrow> bool \<Rightarrow> u16" where
  "ps2_make_to_key c e0 =
     (if \<not> e0
      then (if c = 0x1C then KC_ENTER else if c = 0x0E then KC_BACKSPACE else if c = 0x0F then KC_TAB
            else if c = 0x39 then KC_SPACE else if c = 0x2A then KC_LSHIFT else if c = 0x36 then KC_RSHIFT
            else if c = 0x1D then KC_LCTRL else if c = 0x38 then KC_LALT else if c = 0x3A then KC_CAPS_LOCK
            else KC_NONE)
      else (if c = 0x48 then KC_UP else if c = 0x50 then KC_DOWN else if c = 0x4B then KC_LEFT
            else if c = 0x4D then KC_RIGHT else if c = 0x47 then KC_HOME else if c = 0x4F then KC_END
            else if c = 0x49 then KC_PGUP else if c = 0x51 then KC_PGDN else if c = 0x52 then KC_INSERT
            else if c = 0x53 then KC_DELETE else if c = 0x1D then KC_RCTRL else if c = 0x38 then KC_RALT
            else KC_NONE))"

definition ps2_on_scancode_byte :: "u8 \<Rightarrow> bool \<Rightarrow> 'a kbd_scheme \<Rightarrow> bool \<times> 'a kbd_scheme" where
  "ps2_on_scancode_byte b e0 s =
     (if b = 0xE0 then (True, s)
      else let is_break = (b AND 0x80 \<noteq> 0);
               kc = ps2_make_to_key (b AND 0x7F) e0
           in if kc = KC_NONE then (False, s)
              else (False, kbd_dispatch_event
                     \<lparr>ev_type = (if is_break then KEY_EV_RELEASE else KEY_EV_PRESS), code = kc, mods = 0,
                      src = KDEV_SOURCE_PS2, dev_id = 0\<rparr> s))"

section \<open>usb_hid_mapper.c\<close>

definition hid_kc_map :: "(u8 \<times> u16) list" where
  "hid_kc_map =
     [(0x28, KC_ENTER), (0x2A, KC_BACKSPACE), (0x2B, KC_TAB), (0x2C, KC_SPACE), (0x29, KC_ESC),
      (0x39, KC_CAPS_LOCK), (0x53, KC_NUM_LOCK), (0x47, KC_SCROLL_LOCK),
      (0x49, KC_INSERT), (0x4A, KC_HOME), (0x4B, KC_PGUP), (0x4C, KC_DELETE), (0x4D, KC_END), (0x4E, KC_PGDN),
      (0x4F, KC_RIGHT), (0x50, KC_LEFT), (0x51, KC_DOWN), (0x52, KC_UP),
      (0x3A, KC_F1), (0x3B, KC_F2), (0x3C, KC_F3), (0x3D, KC_F4), (0x3E, KC_F5), (0x3F, KC_F6),
      (0x40, KC_F7), (0x41, KC_F8), (0x42, KC_F9), (0x43, KC_F10), (0x44, KC_F11), (0x45, KC_F12)]"

definition hid_usage_to_kc :: "u8 \<Rightarrow> u16" where
  "hid_usage_to_kc u = (case map_of hid_kc_map u of Some kc \<Rightarrow> kc | None \<Rightarrow> KC_NONE)"

definition mapper_mods_from_hid :: "u8 \<Rightarrow> u16" where
  "mapper_mods_from_hid m =
     fold (\<lambda>(i, km) k. if m AND push_bit i 1 \<noteq> 0 then k OR km else k)
       [(0, KM_CTRL), (1, KM_SHIFT), (2, KM_ALT), (3, KM_GUI), (4, KM_RCTRL), (5, KM_RSHIFT), (6, KM_RALT),
        (7, KM_RGUI)] 0"

definition mapper_codes :: "u16 list" where
  "mapper_codes = [KC_LCTRL, KC_LSHIFT, KC_LALT, KC_LGUI, KC_RCTRL, KC_RSHIFT, KC_RALT, KC_RGUI]"

definition mapper_event :: "key_event_type \<Rightarrow> u16 \<Rightarrow> u8 \<Rightarrow> key_event" where
  "mapper_event ty kc d = \<lparr>ev_type = ty, code = kc, mods = 0, src = KDEV_SOURCE_USB, dev_id = d\<rparr>"

definition usbkbd_on_boot_report :: "u8 \<Rightarrow> u8 list \<Rightarrow> u8 list \<Rightarrow> 'a kbd_scheme \<Rightarrow> 'a kbd_scheme" where
  "usbkbd_on_boot_report d report prev_report s =
     (let now = mapper_mods_from_hid (report ! 0); prev = mapper_mods_from_hid (prev_report ! 0);
          changed = now XOR prev;
          s1 = fold (\<lambda>i s. if changed AND push_bit i 1 \<noteq> 0
                           then kbd_dispatch_event (mapper_event (if now AND push_bit i 1 \<noteq> 0 then KEY_EV_PRESS
                                  else KEY_EV_RELEASE) (mapper_codes ! i) d) s
                           else s) [0..<8] s;
          s2 = fold (\<lambda>oldu s. if oldu \<noteq> 0 \<and> \<not> report_contains report oldu
                             then let kc = hid_usage_to_kc oldu
                                  in if kc \<noteq> 0 then kbd_dispatch_event (mapper_event KEY_EV_RELEASE kc d) s else s
                             else s) (report_keys prev_report) s1
      in fold (\<lambda>newu s. if newu \<noteq> 0 \<and> \<not> report_contains prev_report newu
                        then let kc = hid_usage_to_kc newu
                             in if kc \<noteq> 0 then kbd_dispatch_event (mapper_event KEY_EV_PRESS kc d) s else s
                        else s) (report_keys report) s2)"

section \<open>Properties\<close>

text \<open>
  The report mapper of \<^verbatim>\<open>usb_hid_mapper.c\<close> confuses Shift and Control: it numbers the changed
  bits in the order of the \<open>KM\<close> masks but looks the keycode up in the order of the report bits, so
  pressing a Shift key of either side alone dispatches the press of the Control key of that side
  and the other way round, while Alt and GUI are right.
\<close>

theorem hid_mapper_swaps_shift_ctrl:
  "usbkbd_on_boot_report d [2, 0, 0, 0, 0, 0, 0, 0] (replicate 8 0) s =
     kbd_dispatch_event (mapper_event KEY_EV_PRESS KC_LCTRL d) s \<and>
   usbkbd_on_boot_report d [1, 0, 0, 0, 0, 0, 0, 0] (replicate 8 0) s =
     kbd_dispatch_event (mapper_event KEY_EV_PRESS KC_LSHIFT d) s \<and>
   usbkbd_on_boot_report d [32, 0, 0, 0, 0, 0, 0, 0] (replicate 8 0) s =
     kbd_dispatch_event (mapper_event KEY_EV_PRESS KC_RCTRL d) s \<and>
   usbkbd_on_boot_report d [16, 0, 0, 0, 0, 0, 0, 0] (replicate 8 0) s =
     kbd_dispatch_event (mapper_event KEY_EV_PRESS KC_RSHIFT d) s \<and>
   usbkbd_on_boot_report d [4, 0, 0, 0, 0, 0, 0, 0] (replicate 8 0) s =
     kbd_dispatch_event (mapper_event KEY_EV_PRESS KC_LALT d) s"
proof -
  have keys: "report_keys (m # replicate 7 0) = replicate 6 0" "report_keys (replicate 8 0) = replicate 6 0" for m
    by (simp_all add: report_keys_def upt_conv_Cons numeral_eq_Suc)
  have m: "mapper_mods_from_hid 0 = 0" "mapper_mods_from_hid 1 = 2" "mapper_mods_from_hid 2 = 1"
      "mapper_mods_from_hid 4 = 4" "mapper_mods_from_hid 16 = 0x20" "mapper_mods_from_hid 32 = 0x10"
    by (simp_all add: mapper_mods_from_hid_def km_defs)
  have r: "[b, 0, 0, 0, 0, 0, 0, 0] = b # replicate 7 0" for b :: u8 by (simp add: numeral_eq_Suc)
  have idn: "((\<lambda>x. x) ^^ n) y = y" for n and y :: "'a kbd_scheme" by (induction n) simp_all
  have only: "usbkbd_on_boot_report d (b # replicate 7 0) (replicate 8 0) s =
      fold (\<lambda>i s. if mapper_mods_from_hid b AND push_bit i 1 \<noteq> 0
                   then kbd_dispatch_event (mapper_event KEY_EV_PRESS (mapper_codes ! i) d) s else s) [0..<8] s" for b
    using m(1) by (simp add: usbkbd_on_boot_report_def keys Let_def idn cong: if_cong)
  show ?thesis
    unfolding r only m by (simp add: upt_conv_Cons mapper_codes_def)
qed

end
