(* ===== verification/Command_Line.thy ===== *)
theory Command_Line
  imports Keyboard_USB
begin

text \<open>
  \<^verbatim>\<open>src/kernel/shell/command_line.c\<close>: the one-line editor of the shell.

  The statics of the file are \<open>cmd_start_offset\<close> (the screen cell where the line starts),
  \<open>cmd_cursor\<close> and \<open>cmd_len\<close>.  The edited buffer belongs to the caller and is passed as byte
  memory; \<open>None\<close> stands for the null pointer.  A routine prints the buffer up to its terminator and
  returns \<open>None\<close> when there is none to find.

  The specification of the editor is a text with a position in it (\<open>edit_key\<close>).  The first group of
  lemmas shows that the buffer operations implement it, the second that in a display mode of theory
  \<open>Screen\<close> the screen shows the edited text with the cursor at its position.
\<close>

record cmdline = usb_kbd +
  cmd_start_offset :: int
  cmd_cursor :: u16
  cmd_len :: u16

definition MAX_COMMAND_LENGTH :: nat where "MAX_COMMAND_LENGTH = 2000"

section \<open>Drawing\<close>

definition draw_at :: "u8 list \<Rightarrow> int \<Rightarrow> console \<Rightarrow> console" where
  "draw_at message offset c =
     (let (row, c1) = get_vga_offset_row offset c; (col, c2) = get_vga_offset_col offset c1
      in kprint_at message col row c2)"

definition blank_tail :: "int \<Rightarrow> nat \<Rightarrow> console \<Rightarrow> console" where
  "blank_tail blank_offset n c = fold (\<lambda>i c. draw_at (lit '' '') (blank_offset + 2 * int i) c) [0..<n] c"

definition refresh_command_visual :: "bytemem \<Rightarrow> u16 \<Rightarrow> 'a cmdline_scheme \<Rightarrow> 'a cmdline_scheme option" where
  "refresh_command_visual command previous_len s =
     (case cstring_bytes command of
        None \<Rightarrow> None
      | Some message \<Rightarrow>
          let s1 = on_con (draw_at message (cmd_start_offset s * 2)) s;
              s2 = (if cmd_len s < previous_len
                    then on_con (blank_tail ((cmd_start_offset s + int (unat (cmd_len s))) * 2)
                                   (unat previous_len - unat (cmd_len s))) s1
                    else s1)
          in Some (on_con (set_cursor_offset ((cmd_start_offset s + int (unat (cmd_cursor s))) * 2)) s2))"

definition init_command_line :: "int \<Rightarrow> 'a cmdline_scheme \<Rightarrow> 'a cmdline_scheme" where
  "init_command_line start_offset s = s\<lparr>cmd_start_offset := start_offset\<rparr>"

section \<open>The buffer\<close>

definition delete_at :: "u16 \<Rightarrow> u16 \<Rightarrow> bytemem \<Rightarrow> bytemem" where
  "delete_at len position command =
     fold (\<lambda>i m. m(i := m (i + 1))) [unat position..<unat len] command"

definition insert_at :: "u16 \<Rightarrow> u16 \<Rightarrow> u8 \<Rightarrow> bytemem \<Rightarrow> bytemem" where
  "insert_at len position ch command =
     (fold (\<lambda>i m. m(i := m (i - 1))) (rev [Suc (unat position)..<Suc (unat len)]) command)(unat position := ch)"

text \<open>The branches of \<open>handle_command_line\<close> that end with \<open>refresh_command_visual\<close>, and the others.\<close>

definition redraw :: "u16 \<Rightarrow> bytemem \<Rightarrow> 'a cmdline_scheme \<Rightarrow> (bool \<times> bytemem \<times> 'a cmdline_scheme) option" where
  "redraw prev_len command s = map_option (\<lambda>s. (False, command, s)) (refresh_command_visual command prev_len s)"

definition move_cursor :: "u16 \<Rightarrow> bytemem \<Rightarrow> 'a cmdline_scheme \<Rightarrow> (bool \<times> bytemem \<times> 'a cmdline_scheme) option" where
  "move_cursor pos command s =
     (let s1 = s\<lparr>cmd_cursor := pos\<rparr>
      in Some (False, command, on_con (set_cursor_offset ((cmd_start_offset s1 + int (unat pos)) * 2)) s1))"

definition handle_key :: "u16 \<Rightarrow> bytemem \<Rightarrow> 'a cmdline_scheme \<Rightarrow> (bool \<times> bytemem \<times> 'a cmdline_scheme) option" where
  "handle_key kc command s =
     (let prev_len = cmd_len s; cur = cmd_cursor s in
      if kc = KC_ENTER then Some (True, command(unat (cmd_len s) := 0), s)
      else if kc = KC_BACKSPACE then
        (if 0 < cur
         then redraw prev_len (delete_at (cmd_len s) (cur - 1) command)
                (s\<lparr>cmd_cursor := cur - 1, cmd_len := (if 0 < cmd_len s then cmd_len s - 1 else cmd_len s)\<rparr>)
         else Some (False, command, s))
      else if kc = KC_DELETE then
        (if cur < cmd_len s
         then redraw prev_len (delete_at (cmd_len s) cur command)
                (s\<lparr>cmd_len := (if 0 < cmd_len s then cmd_len s - 1 else cmd_len s)\<rparr>)
         else Some (False, command, s))
      else if kc = KC_LEFT then move_cursor (if 0 < cur then cur - 1 else cur) command s
      else if kc = KC_RIGHT then move_cursor (if cur < cmd_len s then cur + 1 else cur) command s
      else if kc = KC_HOME then move_cursor 0 command s
      else if kc = KC_END then move_cursor (cmd_len s) command s
      else if 0x20 \<le> kc \<and> kc < 0x7F then
        (if MAX_COMMAND_LENGTH - 1 \<le> unat (cmd_len s) then Some (False, command, s)
         else redraw prev_len ((insert_at (cmd_len s) cur (ucast kc) command)(unat (cmd_len s + 1) := 0))
                (s\<lparr>cmd_len := cmd_len s + 1, cmd_cursor := cur + 1\<rparr>))
      else Some (False, command, s))"

definition handle_command_line ::
    "u16 \<Rightarrow> bytemem option \<Rightarrow> 'a cmdline_scheme \<Rightarrow> (bool \<times> bytemem option \<times> 'a cmdline_scheme) option" where
  "handle_command_line kc command s =
     (case command of
        None \<Rightarrow> Some (False, None, s)
      | Some m \<Rightarrow> map_option (\<lambda>(done, m, s). (done, Some m, s)) (handle_key kc m s))"

definition flush_command_line :: "bytemem option \<Rightarrow> 'a cmdline_scheme \<Rightarrow> bytemem option \<times> 'a cmdline_scheme" where
  "flush_command_line command s =
     (map_option (\<lambda>m. m(0 := 0)) command,
      on_con (set_cursor_offset (cmd_start_offset s * 2)) (s\<lparr>cmd_cursor := 0, cmd_len := 0\<rparr>))"

section \<open>What the editor promises\<close>

definition edit_key :: "u16 \<Rightarrow> u8 list \<times> nat \<Rightarrow> u8 list \<times> nat" where
  "edit_key kc tp =
     (let (t, p) = tp in
      if kc = KC_BACKSPACE then (if 0 < p then (take (p - 1) t @ drop p t, p - 1) else (t, p))
      else if kc = KC_DELETE then (if p < length t then (take p t @ drop (Suc p) t, p) else (t, p))
      else if kc = KC_LEFT then (t, p - 1)
      else if kc = KC_RIGHT then (t, min (length t) (p + 1))
      else if kc = KC_HOME then (t, 0)
      else if kc = KC_END then (t, length t)
      else if 0x20 \<le> kc \<and> kc < 0x7F \<and> length t < 1999 then (take p t @ [ucast kc] @ drop p t, p + 1)
      else (t, p))"

definition printable_char :: "u8 \<Rightarrow> bool" where
  "printable_char ch \<longleftrightarrow> 0x20 \<le> ch \<and> ch < 0x7F"

definition edits :: "bytemem \<Rightarrow> 'a cmdline_scheme \<Rightarrow> u8 list \<times> nat \<Rightarrow> bool" where
  "edits command s tp \<longleftrightarrow>
     cstring command (fst tp) \<and> list_all printable_char (fst tp) \<and> unat (cmd_len s) = length (fst tp) \<and>
     unat (cmd_cursor s) = snd tp \<and> snd tp \<le> length (fst tp) \<and> length (fst tp) \<le> 1999"


section \<open>The buffer implements the specification\<close>

lemma shift_down:
  "fold (\<lambda>i m. m(i := m (i + 1))) [a..<b] m = (\<lambda>i. if a \<le> i \<and> i < b then m (i + 1) else m i)" for m :: bytemem
proof (induction b)
  case (Suc b)
  show ?case
  proof (cases "a \<le> b")
    case True
    then show ?thesis using Suc by (auto simp: fun_eq_iff)
  qed (auto simp: fun_eq_iff)
qed simp

lemma shift_up:
  "fold (\<lambda>i m. m(i := m (i - 1))) (rev [Suc a..<Suc b]) m = (\<lambda>i. if a < i \<and> i \<le> b then m (i - 1) else m i)" for m :: bytemem
proof (induction b arbitrary: m)
  case (Suc b)
  show ?case
  proof (cases "a \<le> b")
    case True
    then have "rev [Suc a..<Suc (Suc b)] = Suc b # rev [Suc a..<Suc b]" by simp
    then show ?thesis
      using True by (simp only: fold_Cons o_apply Suc) (auto simp: fun_eq_iff)
  qed (auto simp: fun_eq_iff)
qed (simp add: fun_eq_iff)

lemma delete_at_cstring:
  assumes "cstring m t" and "unat len = length t" and "unat q < length t"
  shows "cstring (delete_at len q m) (take (unat q) t @ drop (Suc (unat q)) t)"
proof -
  have "delete_at len q m = (\<lambda>i. if unat q \<le> i \<and> i < length t then m (i + 1) else m i)"
    using assms(2) by (simp only: delete_at_def shift_down)
  moreover have "Suc (length t - Suc 0) = length t" using assms(3) by simp
  ultimately show ?thesis
    using assms(1,3) by (auto simp: cstring_def nth_append dest: in_set_takeD in_set_dropD)
qed

lemma insert_at_cstring:
  assumes "cstring m t" and "unat len = length t" and "unat q \<le> length t" and "ch \<noteq> 0"
  shows "cstring ((insert_at len q ch m)(Suc (length t) := 0)) (take (unat q) t @ [ch] @ drop (unat q) t)"
proof -
  have eq: "insert_at len q ch m = (\<lambda>i. if unat q < i \<and> i \<le> length t then m (i - 1) else m i)(unat q := ch)"
    using assms(2) by (simp only: insert_at_def shift_up)
  show ?thesis
    unfolding eq cstring_def
    using assms(1,3,4)
    by (auto simp: cstring_def nth_append nth_Cons' dest: in_set_takeD in_set_dropD)
qed

lemma delete_at_frame: "unat len \<le> i \<Longrightarrow> delete_at len q m i = m i"
  by (simp only: delete_at_def shift_down) simp

lemma insert_at_frame: "unat len < i \<Longrightarrow> unat q \<le> unat len \<Longrightarrow> insert_at len q ch m i = m i"
  by (simp only: insert_at_def shift_up) simp

text \<open>What \<open>refresh_command_visual\<close> does to the console when the buffer holds \<open>t\<close>.\<close>

definition redraw_text :: "u8 list \<Rightarrow> nat \<Rightarrow> nat \<Rightarrow> int \<Rightarrow> console \<Rightarrow> console" where
  "redraw_text t p prev start c =
     (let c1 = draw_at t (start * 2) c;
          c2 = (if length t < prev then blank_tail ((start + int (length t)) * 2) (prev - length t) c1 else c1)
      in set_cursor_offset ((start + int p) * 2) c2)"

lemma refresh_text:
  assumes "cstring m t" and "unat (cmd_len s) = length t" and "unat (cmd_cursor s) = p" and "unat prev = n"
  shows "refresh_command_visual m prev s = Some (on_con (redraw_text t p n (cmd_start_offset s)) s)"
proof -
  have "cmd_len s < prev \<longleftrightarrow> length t < n" using assms(2,4) by (simp add: word_less_nat_alt)
  then show ?thesis
    using assms by (simp add: refresh_command_visual_def cstring_bytes_eq redraw_text_def Let_def)
qed

text \<open>
  One key: the new buffer holds the edited text, nothing past its 2000 bytes is written, and the
  console is left alone, gets its cursor moved or gets the line redrawn.
\<close>

definition redrawn :: "int \<Rightarrow> u8 list \<times> nat \<Rightarrow> u8 list \<times> nat \<Rightarrow> console \<Rightarrow> console \<Rightarrow> bool" where
  "redrawn start old new c c' \<longleftrightarrow>
     c' = c \<and> new = old \<or>
     c' = set_cursor_offset ((start + int (snd new)) * 2) c \<and> fst new = fst old \<or>
     c' = redraw_text (fst new) (snd new) (length (fst old)) start c"

definition key_step :: "bytemem \<Rightarrow> 'a cmdline_scheme \<Rightarrow> u8 list \<times> nat \<Rightarrow> bytemem \<Rightarrow> 'a cmdline_scheme \<Rightarrow> u8 list \<times> nat \<Rightarrow> bool" where
  "key_step m s tp m' s' tp' \<longleftrightarrow>
     edits m' s' tp' \<and> (\<forall>i. 2000 \<le> i \<longrightarrow> m' i = m i) \<and>
     redrawn (cmd_start_offset s) tp tp' (con s) (con s') \<and>
     s' = s\<lparr>con := con s', cmd_cursor := cmd_cursor s', cmd_len := cmd_len s'\<rparr>"

lemma cmdline_update:
  "s\<lparr>cmd_cursor := q, cmd_len := l, con := c\<rparr> = s\<lparr>con := c, cmd_cursor := q, cmd_len := l\<rparr>"
  "s\<lparr>cmd_cursor := q, con := c\<rparr> = s\<lparr>con := c, cmd_cursor := q, cmd_len := cmd_len s\<rparr>"
  "s = s\<lparr>con := con s, cmd_cursor := cmd_cursor s, cmd_len := cmd_len s\<rparr>"
  for s :: "'a cmdline_scheme"
  by (cases s; simp)+

lemma key_step_redraw:
  assumes "edits m s (t, p)" and "cstring m' t'" and "list_all printable_char t'" and "p' \<le> length t'"
    and "length t' \<le> 1999" and "unat q = p'" and "unat l = length t'" and "\<forall>i. 2000 \<le> i \<longrightarrow> m' i = m i"
  shows "\<exists>s'. redraw (cmd_len s) m' (s\<lparr>cmd_cursor := q, cmd_len := l\<rparr>) = Some (False, m', s') \<and>
           key_step m s (t, p) m' s' (t', p')"
proof -
  let ?s = "s\<lparr>cmd_cursor := q, cmd_len := l\<rparr>"
  have "refresh_command_visual m' (cmd_len s) ?s =
      Some (on_con (redraw_text t' p' (length t) (cmd_start_offset ?s)) ?s)"
    using assms by (intro refresh_text) (simp_all add: edits_def)
  then show ?thesis
    using assms
    by (intro exI [of _ "on_con (redraw_text t' p' (length t) (cmd_start_offset ?s)) ?s"])
      (auto simp: redraw_def key_step_def edits_def redrawn_def cmdline_update(1))
qed

lemma key_step_move:
  assumes "edits m s (t, p)" and "unat q = p'" and "p' \<le> length t"
  shows "\<exists>s'. move_cursor q m s = Some (False, m, s') \<and> key_step m s (t, p) m s' (t, p')"
  using assms
  by (auto simp: move_cursor_def Let_def key_step_def edits_def redrawn_def cmdline_update(2))

lemma key_step_ignored: "edits m s tp \<Longrightarrow> key_step m s tp m s tp"
  by (simp add: key_step_def redrawn_def)


lemma unat_ucast_small: "kc < 0x100 \<Longrightarrow> unat (ucast (kc :: u16) :: u8) = unat kc"
  by (simp add: unsigned_ucast_eq take_bit_nat_eq_self word_less_nat_alt)

lemma printable_code: "0x20 \<le> kc \<Longrightarrow> kc < 0x7F \<Longrightarrow> printable_char (ucast (kc :: u16))"
  by (simp add: printable_char_def word_le_nat_alt word_less_nat_alt unat_ucast_small)

lemma key_delete_step:
  assumes e: "edits m s (t, p)" and q: "unat q < length t"
    and l: "l = (if 0 < cmd_len s then cmd_len s - 1 else cmd_len s)"
  shows "\<exists>s'. redraw (cmd_len s) (delete_at (cmd_len s) q m) (s\<lparr>cmd_cursor := q, cmd_len := l\<rparr>) =
             Some (False, delete_at (cmd_len s) q m, s') \<and>
           key_step m s (t, p) (delete_at (cmd_len s) q m) s' (take (unat q) t @ drop (Suc (unat q)) t, unat q)"
proof (rule key_step_redraw [OF e])
  have len: "unat (cmd_len s) = length t" "cstring m t" "list_all printable_char t" "length t \<le> 1999"
    using e by (simp_all add: edits_def)
  have "0 < cmd_len s" "1 \<le> cmd_len s" using q len(1) by (auto simp: word_less_nat_alt word_le_nat_alt)
  then show "unat l = length (take (unat q) t @ drop (Suc (unat q)) t)"
    using l q len(1) by (simp add: unat_diff_le)
  show "cstring (delete_at (cmd_len s) q m) (take (unat q) t @ drop (Suc (unat q)) t)"
    by (rule delete_at_cstring [OF len(2,1) q])
  show "\<forall>i. 2000 \<le> i \<longrightarrow> delete_at (cmd_len s) q m i = m i"
    using len by (simp add: delete_at_frame)
qed (use e q in \<open>auto simp: edits_def list_all_iff dest: in_set_takeD in_set_dropD\<close>)

lemma key_insert_step:
  assumes e: "edits m s (t, p)" and len: "length t < 1999" and ch: "printable_char ch"
    and m': "m' = (insert_at (cmd_len s) (cmd_cursor s) ch m)(unat (cmd_len s + 1) := 0)"
  shows "\<exists>s'. redraw (cmd_len s) m' (s\<lparr>cmd_cursor := cmd_cursor s + 1, cmd_len := cmd_len s + 1\<rparr>) =
             Some (False, m', s') \<and>
           key_step m s (t, p) m' s' (take p t @ [ch] @ drop p t, p + 1)"
proof (rule key_step_redraw [OF e])
  have cur: "unat (cmd_len s) = length t" "cstring m t" "unat (cmd_cursor s) = p" "p \<le> length t"
      "list_all printable_char t"
    using e by (simp_all add: edits_def)
  have l: "unat (cmd_len s + 1) = Suc (length t)" "unat (cmd_cursor s + 1) = Suc p"
    using unat_add_nowrap [of "cmd_len s" 1] unat_add_nowrap [of "cmd_cursor s" 1] cur len by simp_all
  have "ch \<noteq> 0" using ch by (auto simp: printable_char_def)
  then show "cstring m' (take p t @ [ch] @ drop p t)"
    using insert_at_cstring [OF cur(2,1), of "cmd_cursor s" ch] cur(3,4) m' l(1) by simp
  show "\<forall>i. 2000 \<le> i \<longrightarrow> m' i = m i"
    using m' l cur len by (auto simp: insert_at_frame)
  show "unat (cmd_cursor s + 1) = p + 1" "unat (cmd_len s + 1) = length (take p t @ [ch] @ drop p t)"
    using l cur(4) by simp_all
  show "list_all printable_char (take p t @ [ch] @ drop p t)"
    using cur(5) ch by (auto simp: list_all_iff dest: in_set_takeD in_set_dropD)
qed (use e len in \<open>auto simp: edits_def\<close>)

lemma handle_key_edits:
  assumes e: "edits m s (t, p)" and "kc \<noteq> KC_ENTER"
  shows "\<exists>m' s'. handle_key kc m s = Some (False, m', s') \<and> key_step m s (t, p) m' s' (edit_key kc (t, p))"
proof -
  have cur: "unat (cmd_len s) = length t" "unat (cmd_cursor s) = p" "p \<le> length t" "length t \<le> 1999"
    using e by (simp_all add: edits_def)
  have pos: "0 < cmd_cursor s \<longleftrightarrow> 0 < p" "cmd_cursor s < cmd_len s \<longleftrightarrow> p < length t"
    using cur by (simp_all add: word_less_nat_alt)
  have dec: "unat (cmd_cursor s - 1) = p - 1" if "0 < p"
    using that cur pos by (simp add: unat_diff_le word_le_nat_alt)
  have inc: "unat (cmd_cursor s + 1) = p + 1" if "p < length t"
    using that cur unat_add_nowrap [of "cmd_cursor s" 1] by simp
  have full: "MAX_COMMAND_LENGTH - 1 \<le> unat (cmd_len s) \<longleftrightarrow> \<not> length t < 1999"
    using cur(1) by (auto simp: MAX_COMMAND_LENGTH_def)
  have same: "s\<lparr>cmd_len := l\<rparr> = s\<lparr>cmd_cursor := cmd_cursor s, cmd_len := l\<rparr>" for l
    by (cases s) simp
  have comm: "s\<lparr>cmd_len := l, cmd_cursor := q\<rparr> = s\<lparr>cmd_cursor := q, cmd_len := l\<rparr>" for l q
    by (cases s) simp
  note step = handle_key_def edit_key_def Let_def prod.case if_True if_False
  have ignored: "handle_key kc m s = Some (False, m, s) \<and> edit_key kc (t, p) = (t, p)"
    if "\<not> (kc = KC_BACKSPACE \<and> 0 < p)" "\<not> (kc = KC_DELETE \<and> p < length t)"
      "kc \<noteq> KC_LEFT" "kc \<noteq> KC_RIGHT" "kc \<noteq> KC_HOME" "kc \<noteq> KC_END"
      "\<not> (0x20 \<le> kc \<and> kc < 0x7F \<and> length t < 1999)"
    using that assms(2) pos full by (auto simp: step)
  have moved: ?thesis
    if "handle_key kc m s = move_cursor q m s" "edit_key kc (t, p) = (t, unat q)" "unat q \<le> length t" for q
    using key_step_move [OF e refl that(3)] that(1,2) by auto
  consider "kc = KC_BACKSPACE" "0 < p" | "kc = KC_DELETE" "p < length t"
    | "kc = KC_LEFT" | "kc = KC_RIGHT" | "kc = KC_HOME" | "kc = KC_END"
    | "0x20 \<le> kc" "kc < 0x7F" "length t < 1999"
    | "handle_key kc m s = Some (False, m, s)" "edit_key kc (t, p) = (t, p)"
    using ignored by blast
  then show ?thesis
  proof cases
    case 1
    then have q: "unat (cmd_cursor s - 1) < length t" "unat (cmd_cursor s - 1) = p - 1" "Suc (p - 1) = p"
      using dec cur by simp_all
    then show ?thesis
      using key_delete_step [OF e q(1) refl] 1 pos unfolding step q(2,3)
      by (auto simp: kc_defs)
  next
    case 2
    then have q: "unat (cmd_cursor s) < length t" using cur by simp
    show ?thesis
      using key_delete_step [OF e q refl] 2 pos unfolding step cur(2) same [symmetric]
      by (auto simp: kc_defs)
  next
    case 7
    then have nk: "kc \<noteq> KC_ENTER" "kc \<noteq> KC_BACKSPACE" "kc \<noteq> KC_DELETE" "kc \<noteq> KC_LEFT" "kc \<noteq> KC_RIGHT"
        "kc \<noteq> KC_HOME" "kc \<noteq> KC_END"
      by (auto simp: kc_defs word_le_nat_alt word_less_nat_alt)
    show ?thesis
      using key_insert_step [OF e 7(3) printable_code [OF 7(1,2)] refl] 7 nk full
      by (auto simp: step comm)
  next
    case 8
    then show ?thesis using key_step_ignored [OF e] by auto
  next
    case 3
    show ?thesis
      by (rule moved [of "if 0 < p then cmd_cursor s - 1 else cmd_cursor s"])
        (use 3 cur pos dec in \<open>auto simp: step kc_defs\<close>)
  next
    case 4
    show ?thesis
      by (rule moved [of "if p < length t then cmd_cursor s + 1 else cmd_cursor s"])
        (use 4 cur pos inc in \<open>auto simp: step kc_defs\<close>)
  next
    case 5
    show ?thesis by (rule moved [of 0]) (simp_all add: step kc_defs 5)
  next
    case 6
    show ?thesis by (rule moved [of "cmd_len s"]) (simp_all add: step kc_defs 6 cur(1))
  qed
qed


lemma key_step_start: "key_step m s tp m' s' tp' \<Longrightarrow> cmd_start_offset s' = cmd_start_offset s"
proof -
  assume "key_step m s tp m' s' tp'"
  then have "s' = s\<lparr>con := con s', cmd_cursor := cmd_cursor s', cmd_len := cmd_len s'\<rparr>"
    unfolding key_step_def by blast
  then have "cmd_start_offset s' = cmd_start_offset (s\<lparr>con := con s', cmd_cursor := cmd_cursor s', cmd_len := cmd_len s'\<rparr>)"
    by (rule arg_cong)
  then show ?thesis by simp
qed

lemma key_step_edits: "key_step m s tp m' s' tp' \<Longrightarrow> edits m' s' tp'"
  and key_step_frame: "key_step m s tp m' s' tp' \<Longrightarrow> \<forall>i. 2000 \<le> i \<longrightarrow> m' i = m i"
  and key_step_redrawn: "key_step m s tp m' s' tp' \<Longrightarrow> redrawn (cmd_start_offset s) tp tp' (con s) (con s')"
  unfolding key_step_def by blast+

lemma if_length_le:
  "length (fst x) \<le> n \<Longrightarrow> length (fst y) \<le> n \<Longrightarrow> length (fst (if b then x else y)) \<le> n"
  by simp

lemma edit_key_length: "length (fst (edit_key k tp)) \<le> Suc (length (fst tp))"
  by (cases tp) (simp only: edit_key_def Let_def prod.case, intro if_length_le, simp_all)

text \<open>A sequence of key presses, up to the one that ends the line.\<close>

primrec press_all ::
    "u16 list \<Rightarrow> bytemem option \<Rightarrow> 'a cmdline_scheme \<Rightarrow> (bool \<times> bytemem option \<times> 'a cmdline_scheme) option" where
  "press_all [] command s = Some (False, command, s)"
| "press_all (k # ks) command s =
     (case handle_command_line k command s of
        None \<Rightarrow> None
      | Some (done, command, s) \<Rightarrow> if done then Some (True, command, s) else press_all ks command s)"

lemma press_all_edits:
  assumes "edits m s tp" and "KC_ENTER \<notin> set ks"
  shows "\<exists>m' s'. press_all ks (Some m) s = Some (False, Some m', s') \<and> edits m' s' (fold edit_key ks tp) \<and>
           (\<forall>i. 2000 \<le> i \<longrightarrow> m' i = m i)"
  using assms
proof (induction ks arbitrary: m s tp)
  case (Cons k ks)
  obtain t p where tp: "tp = (t, p)" by (cases tp)
  obtain m1 s1 where k: "handle_key k m s = Some (False, m1, s1)" "key_step m s tp m1 s1 (edit_key k tp)"
    using handle_key_edits [of m s t p k] Cons.prems tp by auto
  obtain m' s' where "press_all ks (Some m1) s1 = Some (False, Some m', s')" "edits m' s' (fold edit_key (k # ks) tp)"
      "\<forall>i. 2000 \<le> i \<longrightarrow> m' i = m1 i"
    using Cons.IH [OF key_step_edits [OF k(2)]] Cons.prems(2) by auto
  moreover have "press_all (k # ks) (Some m) s = press_all ks (Some m1) s1"
    by (simp add: handle_command_line_def k(1))
  ultimately show ?case using key_step_frame [OF k(2)] by (metis (no_types, lifting))
qed simp

lemma press_all_append:
  "press_all ks command s = Some (False, command', s') \<Longrightarrow>
   press_all (ks @ ks') command s = press_all ks' command' s'"
  by (induction ks arbitrary: command s) (auto split: option.splits if_splits)

section \<open>The screen shows the edited line\<close>

text \<open>
  \<open>line_on_screen mk start before t cells\<close>: the cells from \<open>start\<close> on show \<open>t\<close>, the cells in front of
  it are those from before, and behind it stands what was there before or a blank.
\<close>

definition line_on_screen :: "(u8 \<Rightarrow> 'c) \<Rightarrow> nat \<Rightarrow> 'c list \<Rightarrow> u8 list \<Rightarrow> 'c list \<Rightarrow> bool" where
  "line_on_screen mk start before t cells \<longleftrightarrow>
     length cells = length before \<and> take start cells = take start before \<and>
     take (length t) (drop start cells) = map mk t \<and>
     list_all2 (\<lambda>x y. x = y \<or> x = mk 32) (drop (start + length t) cells) (drop (start + length t) before)"

lemma line_on_screen_redraw:
  assumes l: "line_on_screen mk start before t cells" and fits: "start + max (length t) (length t') < length cells"
    and n: "n = length t - length t'"
  shows "line_on_screen mk start before t'
           (take start cells @ map mk t' @ replicate n (mk 32) @ drop (start + max (length t) (length t')) cells)"
    (is "line_on_screen _ _ _ _ ?new")
proof -
  let ?k = "start + length t'"
  have len: "length cells = length before" "take start cells = take start before" using l by (simp_all add: line_on_screen_def)
  have tail: "list_all2 (\<lambda>x y. x = y \<or> x = mk 32) (drop j cells) (drop j before)" if "start + length t \<le> j" for j
  proof -
    have "list_all2 (\<lambda>x y. x = y \<or> x = mk 32) (drop (j - (start + length t)) (drop (start + length t) cells))
        (drop (j - (start + length t)) (drop (start + length t) before))"
      by (rule list_all2_dropI) (use l in \<open>simp add: line_on_screen_def\<close>)
    then show ?thesis using that by simp
  qed
  have "list_all2 (\<lambda>x y. x = y \<or> x = mk 32) (replicate n (mk 32)) (take n (drop ?k before))"
    using fits len n by (auto simp: list_all2_conv_all_nth)
  then have "list_all2 (\<lambda>x y. x = y \<or> x = mk 32) (replicate n (mk 32) @ drop (?k + n) cells)
      (take n (drop ?k before) @ drop (?k + n) before)"
    using tail [of "?k + n"] n by (intro list_all2_appendI) auto
  moreover have "take n (drop ?k before) @ drop (?k + n) before = drop ?k before"
    by (metis append_take_drop_id drop_drop add.commute)
  moreover have "?k + n = start + max (length t) (length t')" using n by auto
  ultimately have "list_all2 (\<lambda>x y. x = y \<or> x = mk 32)
      (replicate n (mk 32) @ drop (start + max (length t) (length t')) cells) (drop ?k before)"
    by (simp only:)
  then show ?thesis
    using len fits n by (simp add: line_on_screen_def)
qed

text \<open>\<open>line_shown displays mk start before tp s\<close>: the screen is in step with the text and its position.\<close>

definition line_shown ::
    "(console \<Rightarrow> 'c list \<times> nat \<Rightarrow> bool) \<Rightarrow> (u8 \<Rightarrow> 'c) \<Rightarrow> nat \<Rightarrow> 'c list \<Rightarrow> u8 list \<times> nat \<Rightarrow> 'a cmdline_scheme \<Rightarrow> bool" where
  "line_shown displays mk start before tp s \<longleftrightarrow> cmd_start_offset s = int start \<and>
     (\<exists>cells. displays (con s) (cells, start + snd tp) \<and> line_on_screen mk start before (fst tp) cells)"

context text_mode
begin

lemma draw_at_displays:
  assumes d: "displays c (cells, p)" and "q + length msg < cs * rs" and "0 \<notin> set msg" and "10 \<notin> set msg"
  shows "\<exists>p'. displays (draw_at msg (2 * int q) c) (take q cells @ map mk msg @ drop (q + length msg) cells, p')"
proof (cases "msg = []")
  case True
  then have "draw_at msg (2 * int q) c = c"
    using assms(2) displays_on [OF d] displays_offset [OF d, of q]
    by (auto simp: draw_at_def displays_row [OF d] displays_col [OF d] kprint_at_def screen_is_available_def)
  then show ?thesis using True d by auto
next
  case False
  moreover have "length cells = cs * rs" using displays_ok [OF d] by (simp add: tty_ok_def)
  moreover have "hd msg \<noteq> 0" using False assms(3) by (metis hd_in_set)
  ultimately show ?thesis
    using kprint_at_displays [OF d, of q msg] assms tty_print_fits [of msg q cells]
    by (auto simp: draw_at_def displays_row [OF d] displays_col [OF d])
qed

lemma blank_tail_displays:
  assumes "displays c (cells, p)" and "q + n < cs * rs"
  shows "\<exists>p'. displays (blank_tail (2 * int q) n c) (take q cells @ replicate n (mk 32) @ drop (q + n) cells, p')"
  using assms(2)
proof (induction n)
  case 0
  then show ?case using assms(1) by (auto simp: blank_tail_def)
next
  case (Suc n)
  let ?cells = "take q cells @ replicate n (mk 32) @ drop (q + n) cells"
  obtain p' where p': "displays (blank_tail (2 * int q) n c) (?cells, p')" using Suc by auto
  have len: "length cells = cs * rs" using displays_ok [OF assms(1)] by (simp add: tty_ok_def)
  have step: "blank_tail (2 * int q) (Suc n) c = draw_at [32] (2 * int (q + n)) (blank_tail (2 * int q) n c)"
    by (simp add: blank_tail_def lit_def algebra_simps)
  have "take (q + n) ?cells @ map mk [32] @ drop (q + n + length [32]) ?cells =
      take q cells @ replicate (Suc n) (mk 32) @ drop (q + Suc n) cells"
    using Suc.prems len by (simp add: replicate_append_same)
  then show ?case
    using draw_at_displays [OF p', of "q + n" "[32]"] Suc.prems unfolding step by simp
qed


lemma redraw_text_displays:
  assumes d: "displays c (cells, p0)" and l: "line_on_screen mk start before t cells"
    and fits: "start + max (length t) (length t') < cs * rs" and pr: "list_all printable_char t'"
    and p': "p' \<le> length t'"
  shows "\<exists>cells'. displays (redraw_text t' p' (length t) (int start) c) (cells', start + p') \<and>
           line_on_screen mk start before t' cells'"
proof -
  let ?k = "start + length t'" and ?n = "length t - length t'"
  have len: "length cells = cs * rs" using displays_ok [OF d] by (simp add: tty_ok_def)
  have no: "0 \<notin> set t'" "10 \<notin> set t'"
    using pr by (auto simp: list_all_iff printable_char_def word_le_nat_alt)
  obtain p1 where d1: "displays (draw_at t' (2 * int start) c) (take start cells @ map mk t' @ drop ?k cells, p1)"
    using draw_at_displays [OF d _ no, of start] fits by fastforce
  have kn: "?k + ?n < cs * rs" using fits by auto
  obtain c2 p2 where c2: "c2 = (if length t' < length t then blank_tail (2 * int ?k) ?n (draw_at t' (2 * int start) c)
        else draw_at t' (2 * int start) c)"
      "displays c2 (take start cells @ map mk t' @ replicate ?n (mk 32) @ drop (?k + ?n) cells, p2)"
  proof (cases "length t' < length t")
    case True
    obtain p2 where "displays (blank_tail (2 * int ?k) ?n (draw_at t' (2 * int start) c))
        (take ?k (take start cells @ map mk t' @ drop ?k cells) @ replicate ?n (mk 32) @
         drop (?k + ?n) (take start cells @ map mk t' @ drop ?k cells), p2)"
      using blank_tail_displays [OF d1 kn] by blast
    then show thesis using that True fits len by (simp add: add.commute)
  qed (use d1 that in simp)
  have "?k + ?n = start + max (length t) (length t')" by auto
  then have "line_on_screen mk start before t' (take start cells @ map mk t' @ replicate ?n (mk 32) @ drop (?k + ?n) cells)"
    using line_on_screen_redraw [OF l _ refl, of t'] fits len by (simp only:)
  moreover have "redraw_text t' p' (length t) (int start) c = set_cursor_offset (2 * int (start + p')) c2"
    using c2(1) by (simp add: redraw_text_def Let_def algebra_simps)
  moreover have "start + p' < cs * rs" using p' fits by simp
  ultimately show ?thesis using displays_set_cursor [OF c2(2), of "start + p'"] by (metis (no_types, lifting))
qed

lemma redrawn_displays:
  assumes "redrawn (int start) (t, p) (t', p') c c'" and d: "displays c (cells, start + p)"
    and l: "line_on_screen mk start before t cells" and "start + max (length t) (length t') < cs * rs"
    and "list_all printable_char t'" and "p' \<le> length t'"
  shows "\<exists>cells'. displays c' (cells', start + p') \<and> line_on_screen mk start before t' cells'"
proof -
  consider "c' = c" "t' = t" "p' = p" | "c' = set_cursor_offset (2 * int (start + p')) c" "t' = t"
    | "c' = redraw_text t' p' (length t) (int start) c"
    using assms(1) by (auto simp: redrawn_def algebra_simps)
  then show ?thesis
  proof cases
    case 2
    have "start + p' < cs * rs" using assms(4,6) by simp
    then show ?thesis using displays_set_cursor [OF d, of "start + p'"] 2 l by auto
  qed (use assms redraw_text_displays [OF d l] in auto)
qed


lemma key_step_shown:
  assumes "key_step m s tp m' s' tp'" and "line_shown displays mk start before tp s"
    and "start + max (length (fst tp)) (length (fst tp')) < cs * rs"
  shows "line_shown displays mk start before tp' s'"
proof -
  obtain cells where d: "displays (con s) (cells, start + snd tp)" "line_on_screen mk start before (fst tp) cells"
      and st: "cmd_start_offset s = int start"
    using assms(2) by (auto simp: line_shown_def)
  moreover have "\<exists>cells'. displays (con s') (cells', start + snd tp') \<and> line_on_screen mk start before (fst tp') cells'"
    using key_step_edits [OF assms(1)] key_step_redrawn [OF assms(1)] assms(3) st d
    by (intro redrawn_displays [of start "fst tp" "snd tp" "fst tp'" "snd tp'" "con s" "con s'" cells before])
      (simp_all add: edits_def)
  ultimately show ?thesis using key_step_start [OF assms(1)] by (simp add: line_shown_def)
qed

lemma press_all_shown:
  assumes "edits m s tp" and "KC_ENTER \<notin> set ks" and "line_shown displays mk start before tp s"
    and "start + length (fst tp) + length ks < cs * rs"
  shows "\<exists>m' s'. press_all ks (Some m) s = Some (False, Some m', s') \<and> edits m' s' (fold edit_key ks tp) \<and>
           line_shown displays mk start before (fold edit_key ks tp) s'"
  using assms
proof (induction ks arbitrary: m s tp)
  case (Cons k ks)
  obtain t p where tp: "tp = (t, p)" by (cases tp)
  obtain m1 s1 where k: "handle_key k m s = Some (False, m1, s1)" "key_step m s tp m1 s1 (edit_key k tp)"
    using handle_key_edits [of m s t p k] Cons.prems tp by auto
  have len: "length (fst (edit_key k tp)) \<le> Suc (length (fst tp))" by (rule edit_key_length)
  have "line_shown displays mk start before (edit_key k tp) s1"
    using key_step_shown [OF k(2) Cons.prems(3)] Cons.prems(4) len by simp
  then show ?case
    using Cons.IH [OF key_step_edits [OF k(2)]] Cons.prems(2,4) len k(1) by (simp add: handle_command_line_def)
qed simp

end


section \<open>Properties\<close>

definition demo_cmdline :: cmdline where
  "demo_cmdline = usb_kbd.extend demo_usb_kbd \<lparr>cmd_start_offset = 0, cmd_cursor = 0, cmd_len = 0\<rparr>"

lemma demo_cmdline_con [simp]: "con demo_cmdline = demo_vga"
  by (simp add: demo_cmdline_def demo_usb_kbd_def demo_kbd_def demo_cpu_def usb_kbd.defs kbd.defs cpu.defs)

lemma demo_cmdline_fields [simp]:
  "cmd_start_offset demo_cmdline = 0" "cmd_cursor demo_cmdline = 0" "cmd_len demo_cmdline = 0"
  by (simp_all add: demo_cmdline_def usb_kbd.defs)

lemma demo_cmdline_edits: "edits (\<lambda>_. 0) demo_cmdline ([], 0)"
  by (simp add: edits_def cstring_def)

lemma demo_cmdline_shown:
  "line_shown (vga_displays (\<lambda>_. 0)) vga_cell 0 (replicate 2000 (0, 0)) ([], 0) demo_cmdline"
proof -
  have "line_on_screen vga_cell 0 (replicate 2000 (0, 0)) [] (replicate 2000 (0, 0))"
    by (simp add: line_on_screen_def list_all2_same)
  then show ?thesis using demo_vga_displays by (auto simp: line_shown_def)
qed

text \<open>
  C4. The line editor refines its specification: whatever keys are pressed before Enter, each call
  returns, the buffer holds at every moment exactly the edited text of the specification with its
  terminator (at most 1999 characters, keys beyond that being ignored), the length and the cursor
  of the editor are its length and position, no byte past the 2000 of the buffer is written, and
  Enter ends the line with that text.
\<close>

theorem line_editor_refines:
  assumes "edits m s tp" and "KC_ENTER \<notin> set ks"
  shows "\<exists>m' s'. press_all (ks @ [KC_ENTER]) (Some m) s = Some (True, Some m', s') \<and>
    edits m' s' (fold edit_key ks tp) \<and> length (fst (fold edit_key ks tp)) \<le> 1999 \<and>
    (\<forall>i. 2000 \<le> i \<longrightarrow> m' i = m i)"
proof -
  obtain m' s' where p: "press_all ks (Some m) s = Some (False, Some m', s')" "edits m' s' (fold edit_key ks tp)"
      "\<forall>i. 2000 \<le> i \<longrightarrow> m' i = m i"
    using press_all_edits [OF assms] by blast
  have "m'(unat (cmd_len s') := 0) = m'" using p(2) by (auto simp: edits_def cstring_def fun_upd_idem)
  then have "press_all [KC_ENTER] (Some m') s' = Some (True, Some m', s')"
    by (simp add: handle_command_line_def handle_key_def)
  then show ?thesis using p press_all_append [OF p(1), of "[KC_ENTER]"] by (auto simp: edits_def)
qed

theorem line_editor_refines_witness:
  "\<exists>m' s'. press_all ([108, 115, KC_LEFT, 97, KC_BACKSPACE, KC_DELETE, 97] @ [KC_ENTER]) (Some (\<lambda>_. 0)) demo_cmdline =
       Some (True, Some m', s') \<and> cstring m' [108, 97]"
proof -
  have "fold edit_key [108, 115, KC_LEFT, 97, KC_BACKSPACE, KC_DELETE, 97] ([], 0) = ([108, 97], 2)"
    by (simp add: edit_key_def kc_defs)
  moreover have "KC_ENTER \<notin> set [108, 115, KC_LEFT, 97, KC_BACKSPACE, KC_DELETE, 97]"
    by (simp add: kc_defs)
  ultimately show ?thesis
    using line_editor_refines [OF demo_cmdline_edits, of "[108, 115, KC_LEFT, 97, KC_BACKSPACE, KC_DELETE, 97]"]
    by (auto simp: edits_def)
qed

text \<open>
  C10. What is on the screen is what is in the buffer, in VGA text mode and on the framebuffer: as
  long as the line fits in front of the end of the screen, after any keys the cells from the start
  of the line show the edited text, the cells in front of it are untouched, the cells behind it show
  what they showed before or a blank, and the cursor stands at the position of the editor.
\<close>

theorem line_editor_screen:
  assumes "edits m s tp" and "KC_ENTER \<notin> set ks" and "start + length (fst tp) + length ks < cs * rs"
    and "cs * rs = 2000 \<and> line_shown (vga_displays v0) vga_cell start before tp s \<or>
         line_shown (fb_displays cs rs m0) fb_cell start fb_before tp s"
  shows "\<exists>m' s'. press_all ks (Some m) s = Some (False, Some m', s') \<and> edits m' s' (fold edit_key ks tp) \<and>
    (line_shown (vga_displays v0) vga_cell start before tp s \<longrightarrow>
       cs * rs = 2000 \<longrightarrow> line_shown (vga_displays v0) vga_cell start before (fold edit_key ks tp) s') \<and>
    (line_shown (fb_displays cs rs m0) fb_cell start fb_before tp s \<longrightarrow>
       line_shown (fb_displays cs rs m0) fb_cell start fb_before (fold edit_key ks tp) s')"
proof -
  obtain m' s' where p: "press_all ks (Some m) s = Some (False, Some m', s')" "edits m' s' (fold edit_key ks tp)"
    using press_all_edits [OF assms(1,2)] by blast
  then show ?thesis
    using vga.press_all_shown [OF assms(1,2), of v0 start before]
      fb.press_all_shown [OF assms(1,2), of cs rs m0 start fb_before] assms(3)
    by auto
qed

theorem line_editor_screen_witness:
  "\<exists>m' s'. press_all [108, 115, KC_LEFT, KC_BACKSPACE] (Some (\<lambda>_. 0)) demo_cmdline = Some (False, Some m', s') \<and>
     line_shown (vga_displays (\<lambda>_. 0)) vga_cell 0 (replicate 2000 (0, 0)) ([115], 0) s'"
proof -
  have "fold edit_key [108, 115, KC_LEFT, KC_BACKSPACE] ([], 0) = ([115], 0)"
    by (simp add: edit_key_def kc_defs)
  moreover have "KC_ENTER \<notin> set [108, 115, KC_LEFT, KC_BACKSPACE]" by (simp add: kc_defs)
  ultimately show ?thesis
    using line_editor_screen [OF demo_cmdline_edits, of "[108, 115, KC_LEFT, KC_BACKSPACE]" 0 80 25 "\<lambda>_. 0"
        "replicate 2000 (0, 0)" "\<lambda>_. 0" "[]"] demo_cmdline_shown
    by (fastforce simp del: press_all.simps)
qed

end
