(* ===== verification/Pci.thy ===== *)
theory Pci
  imports Command_Line
begin

text \<open>
  \<^verbatim>\<open>src/drivers/pci.c\<close>: the PCI configuration space and the scan of the buses.

  \<open>pci_devices\<close> is the static array of 256 entries, \<open>pci_device_count\<close> the number in use.  The
  configuration space is reached through two ports of the machine.  The theorems assume the
  documented behaviour of the host bridge (\<open>config_space cfg\<close>): a read of the data port right after
  a write of the address port returns the register \<open>cfg\<close> gives for that address.  \<open>present\<close> lists the
  functions whose identification register reads as something else than all ones, in the order of
  the scan, and \<open>device_of\<close> is the entry such a function must get.
\<close>

section \<open>Data\<close>

definition PCI_CONFIG_ADDRESS :: u16 where "PCI_CONFIG_ADDRESS = 0xCF8"
definition PCI_CONFIG_DATA :: u16 where "PCI_CONFIG_DATA = 0xCFC"
definition MAX_PCI_DEVICES :: nat where "MAX_PCI_DEVICES = 256"

record pci_device =
  vendor_id :: u16
  device_id :: u16
  class_code :: u8
  sub_class :: u8
  prog_if :: u8
  bus :: u8
  device :: u8
  pfunction :: u8
  bar :: "u32 list"
  is_memory_mapped :: "u8 list"
  interrupt_line :: u8
  interrupt_pin :: u8

record pci = cmdline +
  pci_devices :: "pci_device list"
  pci_device_count :: u16

section \<open>The configuration space\<close>

definition config_address :: "u8 \<Rightarrow> u8 \<Rightarrow> u8 \<Rightarrow> u8 \<Rightarrow> u32" where
  "config_address b d f off =
     push_bit 31 1 OR push_bit 16 (ucast b) OR push_bit 11 (ucast d) OR push_bit 8 (ucast f) OR (ucast off AND 0xFC)"

definition pci_config_read :: "u8 \<Rightarrow> u8 \<Rightarrow> u8 \<Rightarrow> u8 \<Rightarrow> machine \<Rightarrow> u32 \<times> machine" where
  "pci_config_read b d f off m =
     port_dword_in PCI_CONFIG_DATA (port_dword_out PCI_CONFIG_ADDRESS (config_address b d f off) m)"

definition pci_config_read_word :: "u8 \<Rightarrow> u8 \<Rightarrow> u8 \<Rightarrow> u8 \<Rightarrow> machine \<Rightarrow> u16 \<times> machine" where
  "pci_config_read_word b d f off m =
     (let (data, m1) = port_dword_in PCI_CONFIG_DATA (port_dword_out PCI_CONFIG_ADDRESS (config_address b d f off) m)
      in (ucast (drop_bit (unat ((off AND 2) * 8)) data AND 0xFFFF), m1))"

definition pci_config_read_byte :: "u8 \<Rightarrow> u8 \<Rightarrow> u8 \<Rightarrow> u8 \<Rightarrow> machine \<Rightarrow> u8 \<times> machine" where
  "pci_config_read_byte b d f off m =
     (let (aligned, m1) = pci_config_read b d f (off AND NOT 3) m
      in (ucast (drop_bit (unat ((off AND 3) * 8)) aligned AND 0xFF), m1))"

definition pci_config_write_word :: "u8 \<Rightarrow> u8 \<Rightarrow> u8 \<Rightarrow> u8 \<Rightarrow> u16 \<Rightarrow> machine \<Rightarrow> machine" where
  "pci_config_write_word b d f off v m =
     (let (data, m1) = port_dword_in PCI_CONFIG_DATA (port_dword_out PCI_CONFIG_ADDRESS (config_address b d f off) m);
          data1 = (if off AND 2 \<noteq> 0 then (data AND 0x0000FFFF) OR push_bit 16 (ucast v)
                   else (data AND 0xFFFF0000) OR ucast v)
      in port_dword_out PCI_CONFIG_DATA data1 m1)"

definition pci_enable_bus_mastering :: "pci_device \<Rightarrow> machine \<Rightarrow> machine" where
  "pci_enable_bus_mastering dev m =
     (let (command, m1) = pci_config_read_word (bus dev) (device dev) (pfunction dev) 0x04 m
      in pci_config_write_word (bus dev) (device dev) (pfunction dev) 0x04 (command OR 4) m1)"

text \<open>\<open>pci_get_device\<close> fills a local structure; the fields it does not assign keep what the stack held.\<close>

definition pci_get_device :: "u8 \<Rightarrow> u8 \<Rightarrow> u8 \<Rightarrow> pci_device \<Rightarrow> machine \<Rightarrow> pci_device \<times> machine" where
  "pci_get_device b d f dev m =
     (let (ident, m1) = pci_config_read b d f 0x00 m; (data, m2) = pci_config_read b d f 0x08 m1
      in (dev\<lparr>vendor_id := ucast (ident AND 0xFFFF), device_id := ucast (drop_bit 16 ident AND 0xFFFF),
             class_code := ucast (drop_bit 24 data AND 0xFF), sub_class := ucast (drop_bit 16 data AND 0xFF),
             prog_if := ucast (drop_bit 8 data AND 0xFF), bus := b, device := d, pfunction := f\<rparr>, m2))"

section \<open>Base address registers\<close>

text \<open>The loop of \<open>pci_read_bars\<close> from \<open>bar_index\<close> on.\<close>

function read_bars_from :: "nat \<Rightarrow> pci_device \<Rightarrow> machine \<Rightarrow> pci_device \<times> machine" where
  "read_bars_from bar_index dev m =
     (if bar_index < 6
      then let off = 0x10 + of_nat bar_index * 4;
               (bar_value, m1) = pci_config_read (bus dev) (device dev) (pfunction dev) off m in
           if bar_value = 0
           then read_bars_from (Suc bar_index)
                  (dev\<lparr>bar := (bar dev)[bar_index := 0], is_memory_mapped := (is_memory_mapped dev)[bar_index := 0]\<rparr>) m1
           else if bar_value AND 1 \<noteq> 0
           then read_bars_from (Suc bar_index)
                  (dev\<lparr>is_memory_mapped := (is_memory_mapped dev)[bar_index := 0],
                       bar := (bar dev)[bar_index := bar_value AND 0xFFFFFFFC]\<rparr>) m1
           else let dev1 = dev\<lparr>is_memory_mapped := (is_memory_mapped dev)[bar_index := 1],
                               bar := (bar dev)[bar_index := bar_value AND 0xFFFFFFF0]\<rparr>
                in if bar_value AND 6 = 4
                   then read_bars_from (Suc (Suc bar_index)) dev1
                          (snd (pci_config_read (bus dev) (device dev) (pfunction dev) (off + 4) m1))
                   else read_bars_from (Suc bar_index) dev1 m1
      else (dev, m))"
  by pat_completeness auto
termination
  by (relation "measure (\<lambda>(i, dev, m). 6 - i)") auto

declare read_bars_from.simps [simp del]

definition pci_read_bars :: "pci_device \<Rightarrow> machine \<Rightarrow> pci_device \<times> machine" where
  "pci_read_bars dev m = read_bars_from 0 dev m"

section \<open>The scan\<close>

definition scan_function :: "u8 \<Rightarrow> u8 \<Rightarrow> u8 \<Rightarrow> u32 \<Rightarrow> pci_device \<Rightarrow> machine \<Rightarrow> pci_device \<times> machine" where
  "scan_function b d f ident dev m =
     (let (class_data, m1) = pci_config_read b d f 0x08 m;
          dev1 = dev\<lparr>vendor_id := ucast (ident AND 0xFFFF), device_id := ucast (drop_bit 16 ident AND 0xFFFF),
                     class_code := ucast (drop_bit 24 class_data AND 0xFF),
                     sub_class := ucast (drop_bit 16 class_data AND 0xFF),
                     prog_if := ucast (drop_bit 8 class_data AND 0xFF), bus := b, device := d, pfunction := f\<rparr>;
          (dev2, m2) = pci_read_bars dev1 m1;
          (line, m3) = pci_config_read_byte b d f 0x3C m2;
          (pin, m4) = pci_config_read_byte b d f 0x3D m3
      in (dev2\<lparr>interrupt_line := line, interrupt_pin := pin\<rparr>, m4))"

definition scan_order :: "(u8 \<times> u8 \<times> u8) list" where
  "scan_order = map (\<lambda>(b, d, f). (of_nat b, of_nat d, of_nat f))
     (List.product [0..<256] (List.product [0..<32] [0..<8]))"

fun pci_scan_from :: "(u8 \<times> u8 \<times> u8) list \<Rightarrow> 'a pci_scheme \<Rightarrow> 'a pci_scheme" where
  "pci_scan_from [] s = s"
| "pci_scan_from ((b, d, f) # rest) s =
     (let (ident, m) = pci_config_read b d f 0x00 (mach (con s)); s1 = on_mach (\<lambda>_. m) s in
      if ident = 0xFFFFFFFF then pci_scan_from rest s1
      else if MAX_PCI_DEVICES \<le> unat (pci_device_count s1) then on_con (kprint (lit ''PCI device array full.'' @ [10])) s1
      else let n = unat (pci_device_count s1);
               (dev, m1) = scan_function b d f ident (pci_devices s1 ! n) m
           in pci_scan_from rest
                (on_mach (\<lambda>_. m1) (s1\<lparr>pci_devices := (pci_devices s1)[n := dev],
                                       pci_device_count := pci_device_count s1 + 1\<rparr>)))"

definition pci_scan :: "'a pci_scheme \<Rightarrow> 'a pci_scheme" where
  "pci_scan s = pci_scan_from scan_order (s\<lparr>pci_device_count := 0\<rparr>)"

section \<open>What the scan must find\<close>

definition config_space :: "(u32 \<Rightarrow> u32) \<Rightarrow> (io_event list \<Rightarrow> io_width \<Rightarrow> u16 \<Rightarrow> u32) \<Rightarrow> bool" where
  "config_space cfg e \<longleftrightarrow> (\<forall>tr a. e (Out32 PCI_CONFIG_ADDRESS a # tr) W32 PCI_CONFIG_DATA = cfg a)"

definition is_present :: "(u32 \<Rightarrow> u32) \<Rightarrow> u8 \<times> u8 \<times> u8 \<Rightarrow> bool" where
  "is_present cfg fn = (case fn of (b, d, f) \<Rightarrow> cfg (config_address b d f 0) \<noteq> 0xFFFFFFFF)"

definition present :: "(u32 \<Rightarrow> u32) \<Rightarrow> (u8 \<times> u8 \<times> u8) list" where
  "present cfg = filter (is_present cfg) scan_order"


text \<open>
  A base address register: whether it is the low half of a 64-bit address, whether it is the upper
  half of the pair that starts one slot earlier, and what the low 32 bits decode to.
\<close>

definition wide :: "u32 \<Rightarrow> bool" where
  "wide v \<longleftrightarrow> v \<noteq> 0 \<and> v AND 1 = 0 \<and> v AND 6 = 4"

primrec upper :: "(nat \<Rightarrow> u32) \<Rightarrow> nat \<Rightarrow> bool" where
  "upper v 0 = False"
| "upper v (Suc i) = (wide (v i) \<and> \<not> upper v i)"

definition decode_bar :: "u32 \<Rightarrow> u32 \<times> u8" where
  "decode_bar v = (if v = 0 then (0, 0) else if v AND 1 \<noteq> 0 then (v AND 0xFFFFFFFC, 0) else (v AND 0xFFFFFFF0, 1))"

definition bar_register :: "(u32 \<Rightarrow> u32) \<Rightarrow> u8 \<Rightarrow> u8 \<Rightarrow> u8 \<Rightarrow> nat \<Rightarrow> u32" where
  "bar_register cfg b d f i = cfg (config_address b d f (0x10 + of_nat i * 4))"

definition bars_of :: "(nat \<Rightarrow> u32) \<Rightarrow> (u32 \<times> u8 \<Rightarrow> 'a) \<Rightarrow> nat \<Rightarrow> 'a list \<Rightarrow> 'a list" where
  "bars_of v pick i xs =
     map (\<lambda>j. if i \<le> j \<and> j < 6 \<and> \<not> upper v j then pick (decode_bar (v j)) else xs ! j) [0..<length xs]"

definition config_byte :: "(u32 \<Rightarrow> u32) \<Rightarrow> u8 \<Rightarrow> u8 \<Rightarrow> u8 \<Rightarrow> u8 \<Rightarrow> u8" where
  "config_byte cfg b d f off = ucast (drop_bit (unat ((off AND 3) * 8)) (cfg (config_address b d f (off AND NOT 3))) AND 0xFF)"

definition device_of :: "(u32 \<Rightarrow> u32) \<Rightarrow> pci_device \<Rightarrow> u8 \<times> u8 \<times> u8 \<Rightarrow> pci_device" where
  "device_of cfg old fn =
     (let (b, d, f) = fn; ident = cfg (config_address b d f 0); cls = cfg (config_address b d f 8);
          v = bar_register cfg b d f
      in \<lparr>vendor_id = ucast (ident AND 0xFFFF), device_id = ucast (drop_bit 16 ident AND 0xFFFF),
          class_code = ucast (drop_bit 24 cls AND 0xFF), sub_class = ucast (drop_bit 16 cls AND 0xFF),
          prog_if = ucast (drop_bit 8 cls AND 0xFF), bus = b, device = d, pfunction = f,
          bar = bars_of v fst 0 (bar old), is_memory_mapped = bars_of v snd 0 (is_memory_mapped old),
          interrupt_line = config_byte cfg b d f 0x3C, interrupt_pin = config_byte cfg b d f 0x3D\<rparr>)"

section \<open>The scan finds it\<close>

lemma config_read:
  assumes "config_space cfg (env m)"
  shows "\<exists>m'. pci_config_read b d f off m = (cfg (config_address b d f off), m') \<and> env m' = env m"
  using assms by (simp add: pci_config_read_def port_defs config_space_def Let_def)

lemma config_read_byte:
  assumes "config_space cfg (env m)"
  shows "\<exists>m'. pci_config_read_byte b d f off m = (config_byte cfg b d f off, m') \<and> env m' = env m"
  using config_read [OF assms, of b d f "off AND NOT 3"]
  by (auto simp: pci_config_read_byte_def config_byte_def)

lemma bars_of_step:
  assumes "\<not> upper v i" and "i < 6"
  shows "bars_of v pick i xs = bars_of v pick (if wide (v i) then Suc (Suc i) else Suc i) (xs[i := pick (decode_bar (v i))])"
  using assms by (intro nth_equalityI) (auto simp: bars_of_def nth_list_update not_less_eq_eq le_Suc_eq)

definition store_bar :: "nat \<Rightarrow> u32 \<Rightarrow> pci_device \<Rightarrow> pci_device" where
  "store_bar i v dev = dev\<lparr>bar := (bar dev)[i := fst (decode_bar v)],
     is_memory_mapped := (is_memory_mapped dev)[i := snd (decode_bar v)]\<rparr>"

lemma store_bar_simps [simp]:
  "bus (store_bar i v dev) = bus dev" "device (store_bar i v dev) = device dev"
  "pfunction (store_bar i v dev) = pfunction dev"
  "bar (store_bar i v dev) = (bar dev)[i := fst (decode_bar v)]"
  "is_memory_mapped (store_bar i v dev) = (is_memory_mapped dev)[i := snd (decode_bar v)]"
  "(store_bar i v dev)\<lparr>bar := x, is_memory_mapped := y\<rparr> = dev\<lparr>bar := x, is_memory_mapped := y\<rparr>"
  by (simp_all add: store_bar_def)

lemma bar_fields_commute:
  "dev\<lparr>is_memory_mapped := y, bar := x\<rparr> = dev\<lparr>bar := x, is_memory_mapped := y\<rparr>" for dev :: pci_device
  by (cases dev) simp

lemma read_bars_step:
  assumes "config_space cfg (env m)" and "i < 6"
    and v: "v = bar_register cfg (bus dev) (device dev) (pfunction dev) i"
  shows "\<exists>m'. read_bars_from i dev m = read_bars_from (if wide v then Suc (Suc i) else Suc i) (store_bar i v dev) m' \<and>
    env m' = env m"
proof -
  let ?off = "0x10 + of_nat i * 4 :: u8"
  obtain m1 where m1: "pci_config_read (bus dev) (device dev) (pfunction dev) ?off m = (v, m1)" "env m1 = env m"
    using config_read [OF assms(1)] v unfolding bar_register_def by blast
  obtain x m2 where m2: "pci_config_read (bus dev) (device dev) (pfunction dev) (?off + 4) m1 = (x, m2)" "env m2 = env m1"
    using config_read [of cfg m1] assms(1) m1(2) by metis
  consider "v = 0" | "v \<noteq> 0" "v AND 1 \<noteq> 0" | "wide v" | "v \<noteq> 0" "v AND 1 = 0" "v AND 6 \<noteq> 4"
    by (auto simp: wide_def)
  then have "read_bars_from i dev m =
      read_bars_from (if wide v then Suc (Suc i) else Suc i) (store_bar i v dev) (if wide v then m2 else m1)"
  proof cases
    case 1
    then show ?thesis using assms(2) m1(1)
      by (subst read_bars_from.simps) (simp add: store_bar_def decode_bar_def wide_def bar_fields_commute)
  next
    case 2
    then show ?thesis using assms(2) m1(1)
      by (subst read_bars_from.simps) (simp add: store_bar_def decode_bar_def wide_def bar_fields_commute)
  next
    case 3
    then show ?thesis using assms(2) m1(1) m2(1)
      by (subst read_bars_from.simps) (simp add: store_bar_def decode_bar_def wide_def bar_fields_commute)
  next
    case 4
    then show ?thesis using assms(2) m1(1)
      by (subst read_bars_from.simps) (simp add: store_bar_def decode_bar_def wide_def bar_fields_commute)
  qed
  then show ?thesis using m1(2) m2(2) by (metis (full_types))
qed

lemma read_bars_from_eq:
  assumes "config_space cfg (env m)" and "v = bar_register cfg (bus dev) (device dev) (pfunction dev)" and "\<not> upper v i"
  shows "\<exists>m'. read_bars_from i dev m =
      (dev\<lparr>bar := bars_of v fst i (bar dev), is_memory_mapped := bars_of v snd i (is_memory_mapped dev)\<rparr>, m') \<and>
    env m' = env m"
  using assms
proof (induction "6 - i" arbitrary: i dev m rule: less_induct)
  case less
  show ?case
  proof (cases "i < 6")
    case False
    then have "bars_of v fst i xs = xs" "bars_of v snd i ys = ys" for xs ys
      by (auto intro!: nth_equalityI simp: bars_of_def)
    then show ?thesis using False by (subst read_bars_from.simps) simp
  next
    case True
    let ?i = "if wide (v i) then Suc (Suc i) else Suc i"
    obtain m1 where m1: "read_bars_from i dev m = read_bars_from ?i (store_bar i (v i) dev) m1" "env m1 = env m"
      using read_bars_step [OF less.prems(1) True, of "v i" dev] less.prems(2) by blast
    have hyp: "6 - ?i < 6 - i" "config_space cfg (env m1)" "\<not> upper v ?i"
        "v = bar_register cfg (bus (store_bar i (v i) dev)) (device (store_bar i (v i) dev)) (pfunction (store_bar i (v i) dev))"
      using less.prems m1(2) True by auto
    obtain m2 where "read_bars_from ?i (store_bar i (v i) dev) m1 =
        (dev\<lparr>bar := bars_of v fst ?i ((bar dev)[i := fst (decode_bar (v i))]),
             is_memory_mapped := bars_of v snd ?i ((is_memory_mapped dev)[i := snd (decode_bar (v i))])\<rparr>, m2)"
        "env m2 = env m1"
      using less.hyps [OF hyp(1,2,4,3)] by (simp only: store_bar_simps) blast
    then show ?thesis
      using m1 bars_of_step [OF less.prems(3) True, of fst] bars_of_step [OF less.prems(3) True, of snd] by simp
  qed
qed

lemma scan_function_eq:
  assumes "config_space cfg (env m)"
  shows "\<exists>m'. scan_function b d f (cfg (config_address b d f 0)) old m = (device_of cfg old (b, d, f), m') \<and> env m' = env m"
proof -
  obtain m1 where m1: "pci_config_read b d f 8 m = (cfg (config_address b d f 8), m1)" "env m1 = env m"
    using config_read [OF assms] by blast
  let ?cls = "cfg (config_address b d f 8)" and ?ident = "cfg (config_address b d f 0)"
  let ?dev = "old\<lparr>vendor_id := ucast (?ident AND 0xFFFF), device_id := ucast (drop_bit 16 ?ident AND 0xFFFF),
       class_code := ucast (drop_bit 24 ?cls AND 0xFF), sub_class := ucast (drop_bit 16 ?cls AND 0xFF),
       prog_if := ucast (drop_bit 8 ?cls AND 0xFF), bus := b, device := d, pfunction := f\<rparr>"
  let ?v = "bar_register cfg b d f"
  obtain m2 where m2: "pci_read_bars ?dev m1 = (?dev\<lparr>bar := bars_of ?v fst 0 (bar ?dev),
      is_memory_mapped := bars_of ?v snd 0 (is_memory_mapped ?dev)\<rparr>, m2)" "env m2 = env m1"
    using read_bars_from_eq [of cfg m1 ?v ?dev 0] assms m1(2) by (auto simp: pci_read_bars_def)
  obtain m3 where m3: "pci_config_read_byte b d f 0x3C m2 = (config_byte cfg b d f 0x3C, m3)" "env m3 = env m2"
    using config_read_byte [of cfg m2] assms m1(2) m2(2) by metis
  obtain m4 where m4: "pci_config_read_byte b d f 0x3D m3 = (config_byte cfg b d f 0x3D, m4)" "env m4 = env m3"
    using config_read_byte [of cfg m3] assms m1(2) m2(2) m3(2) by metis
  have "scan_function b d f ?ident old m = (device_of cfg old (b, d, f), m4)"
    unfolding scan_function_def Let_def m1(1) prod.case m2(1) m3(1) m4(1)
    by (cases old) (simp add: device_of_def Let_def)
  then show ?thesis using m1(2) m2(2) m3(2) m4(2) by simp
qed


definition entries_of :: "(u32 \<Rightarrow> u32) \<Rightarrow> nat \<Rightarrow> (u8 \<times> u8 \<times> u8) list \<Rightarrow> pci_device list \<Rightarrow> pci_device list" where
  "entries_of cfg n fns old =
     map (\<lambda>i. if n \<le> i \<and> i < n + length fns then device_of cfg (old ! i) (fns ! (i - n)) else old ! i) [0..<length old]"

lemma entries_of_Nil [simp]: "entries_of cfg n [] old = old"
  by (auto intro!: nth_equalityI simp: entries_of_def)

lemma entries_of_Cons:
  "n < length old \<Longrightarrow>
   entries_of cfg n (fn # fns) old = entries_of cfg (Suc n) fns (old[n := device_of cfg (old ! n) fn])"
  by (intro nth_equalityI) (auto simp: entries_of_def nth_list_update nth_Cons' not_less_eq_eq le_Suc_eq)

lemma pci_scan_from_eq:
  assumes "config_space cfg (env (mach (con s)))" and "length (pci_devices s) = 256" and "unat (pci_device_count s) \<le> 256"
  shows "unat (pci_device_count (pci_scan_from l s)) = min 256 (unat (pci_device_count s) + length (filter (is_present cfg) l)) \<and>
    pci_devices (pci_scan_from l s) = entries_of cfg (unat (pci_device_count s)) (filter (is_present cfg) l) (pci_devices s)"
  using assms
proof (induction l arbitrary: s)
  case Nil
  then show ?case by simp
next
  case (Cons fn l)
  obtain b d f where fn: "fn = (b, d, f)" by (cases fn)
  let ?n = "unat (pci_device_count s)"
  obtain m where m: "pci_config_read b d f 0 (mach (con s)) = (cfg (config_address b d f 0), m)"
      "env m = env (mach (con s))"
    using config_read [OF Cons.prems(1)] by blast
  consider "\<not> is_present cfg fn" | "is_present cfg fn" "256 \<le> ?n" | "is_present cfg fn" "?n < 256" by linarith
  then show ?case
  proof cases
    case 1
    then show ?thesis
      using Cons.IH [of "on_mach (\<lambda>_. m) s"] Cons.prems m fn by (simp add: is_present_def)
  next
    case 2
    then have "?n = 256" using Cons.prems(3) by simp
    moreover have "entries_of cfg 256 fns (pci_devices s) = pci_devices s" for fns
      using Cons.prems(2) by (auto intro!: nth_equalityI simp: entries_of_def)
    ultimately show ?thesis
      using 2 m fn by (simp add: is_present_def MAX_PCI_DEVICES_def)
  next
    case 3
    let ?dev = "device_of cfg (pci_devices s ! ?n) fn"
    obtain m1 where m1: "scan_function b d f (cfg (config_address b d f 0)) (pci_devices s ! ?n) m = (?dev, m1)"
        "env m1 = env m"
      using scan_function_eq [of cfg m b d f "pci_devices s ! ?n"] m(2) Cons.prems(1) fn by auto
    let ?s = "on_mach (\<lambda>_. m1) (s\<lparr>pci_devices := (pci_devices s)[?n := ?dev],
                 pci_device_count := pci_device_count s + 1\<rparr>)"
    have count: "unat (pci_device_count s + 1) = Suc ?n"
      using 3(2) unat_add_nowrap [of "pci_device_count s" 1] by simp
    have "pci_scan_from (fn # l) s = pci_scan_from l ?s"
      using 3 m(1) m1(1) fn by (simp add: is_present_def MAX_PCI_DEVICES_def Let_def)
    moreover have "filter (is_present cfg) (fn # l) = fn # filter (is_present cfg) l" using 3(1) by simp
    ultimately show ?thesis
      using Cons.IH [of ?s] Cons.prems m(2) m1(2) count 3(2)
      by (simp add: entries_of_Cons)
  qed
qed


lemma unat_of_nat_u8: "n < 256 \<Longrightarrow> unat (of_nat n :: u8) = n"
  by (simp add: unat_of_nat)

lemma of_nat_u8_inject: "m < 256 \<Longrightarrow> n < 256 \<Longrightarrow> (of_nat m :: u8) = of_nat n \<longleftrightarrow> m = n"
  using unat_of_nat_u8 by metis

lemma scan_order_distinct: "distinct scan_order"
  unfolding scan_order_def distinct_map
  by (auto simp: distinct_product inj_on_def of_nat_u8_inject)

lemma scan_order_set: "set scan_order = {(b, d, f). unat d < 32 \<and> unat f < 8}"
proof (intro equalityI subsetI)
  fix x assume "x \<in> set scan_order"
  then show "x \<in> {(b, d, f). unat d < 32 \<and> unat f < 8}"
    by (auto simp: scan_order_def unat_of_nat_u8)
next
  fix x assume x: "x \<in> {(b :: u8, d :: u8, f :: u8). unat d < 32 \<and> unat f < 8}"
  obtain b d f where bdf: "x = (b, d, f)" by (cases x)
  then have "x = (\<lambda>(b, d, f). (of_nat b, of_nat d, of_nat f)) (unat b, unat d, unat f)" by simp
  moreover have "(unat b, unat d, unat f) \<in> set (List.product [0..<256] (List.product [0..<32] [0..<8]))"
    using x bdf by simp
  ultimately show "x \<in> set scan_order" unfolding scan_order_def set_map by (rule image_eqI)
qed

text \<open>The address register names bus, device and function without ambiguity.\<close>

lemma bit_bounded:
  fixes x :: "'a::len word"
  assumes "unat x < 2 ^ k" and "bit x n"
  shows "n < k"
proof (rule ccontr)
  assume "\<not> n < k"
  then have "(2 :: nat) ^ k \<le> 2 ^ n" by (intro power_increasing) simp_all
  then have "unat x div 2 ^ n = 0" using assms(1) by (intro div_less) linarith
  then show False using assms(2) by (simp add: bit_unat_digit)
qed

lemma bit_config_address:
  "bit (config_address b d f off) n \<longleftrightarrow> n = 31 \<or> 16 \<le> n \<and> n < 32 \<and> bit b (n - 16) \<or> 11 \<le> n \<and> n < 32 \<and> bit d (n - 11) \<or>
     8 \<le> n \<and> n < 32 \<and> bit f (n - 8) \<or> n < 8 \<and> 2 \<le> n \<and> bit off n"
proof -
  have "bit (push_bit 31 (1 :: u32)) n = (n = 31)" by (simp only: bit_push_bit_iff bit_1_iff) auto
  moreover have "bit (ucast off AND 0xFC :: u32) n \<longleftrightarrow> n < 8 \<and> 2 \<le> n \<and> bit off n"
  proof -
    have eq: "(0xFC :: u32) = mask 8 AND NOT (mask 2)" by (simp add: mask_eq_exp_minus_1)
    show ?thesis unfolding eq using bit_imp_le_length [of off n] by (auto simp: bit_simps)
  qed
  moreover have "bit (push_bit k (ucast x :: u32)) n \<longleftrightarrow> k \<le> n \<and> n < 32 \<and> bit x (n - k)" for k and x :: u8
    using bit_imp_le_length [of x "n - k"] by (auto simp: bit_simps)
  ultimately show ?thesis by (simp only: config_address_def bit_or_iff)
qed

lemma config_address_fields:
  assumes "unat d < 32" and "unat f < 8"
  shows "ucast (drop_bit 16 (config_address b d f off)) = b"
    and "ucast (take_bit 5 (drop_bit 11 (config_address b d f off))) = d"
    and "ucast (take_bit 3 (drop_bit 8 (config_address b d f off))) = f"
proof -
  have d: "bit d n \<Longrightarrow> n < 5" and f: "bit f n \<Longrightarrow> n < 3" for n
    using assms bit_bounded [of d 5 n] bit_bounded [of f 3 n] by simp_all
  have b: "bit b n \<Longrightarrow> n < 8" for n using bit_imp_le_length [of b n] by simp
  note bits = bit_simps bit_config_address
  show "ucast (drop_bit 16 (config_address b d f off)) = b"
  proof (rule bit_word_eqI)
    fix n assume n: "n < LENGTH(8)"
    then show "bit (ucast (drop_bit 16 (config_address b d f off)) :: u8) n = bit b n"
      using d [of "5 + n"] f [of "8 + n"] by (auto simp: bits)
  qed
  show "ucast (take_bit 5 (drop_bit 11 (config_address b d f off))) = d"
  proof (rule bit_word_eqI)
    fix n assume n: "n < LENGTH(8)"
    then show "bit (ucast (take_bit 5 (drop_bit 11 (config_address b d f off))) :: u8) n = bit d n"
      using d [of n] f [of "3 + n"] by (auto simp: bits)
  qed
  show "ucast (take_bit 3 (drop_bit 8 (config_address b d f off))) = f"
  proof (rule bit_word_eqI)
    fix n assume n: "n < LENGTH(8)"
    then show "bit (ucast (take_bit 3 (drop_bit 8 (config_address b d f off))) :: u8) n = bit f n"
      using f [of n] by (auto simp: bits)
  qed
qed

section \<open>Properties\<close>

text \<open>
  C16. The bus scan finds every PCI function exactly once: with a configuration space behind the two
  ports, the functions recorded are those that answer (all buses, 32 devices, 8 functions), each
  once, in the order of the scan, at most 256 of them; each entry holds the identification, class
  and interrupt registers of its function and its decoded base addresses, the slot of the upper
  half of a 64-bit address keeping its old value; the entries behind them are untouched.
\<close>

theorem pci_scan_finds_devices:
  assumes "config_space cfg (env (mach (con s)))" and "length (pci_devices s) = 256"
  shows "set (present cfg) = {(b, d, f). unat d < 32 \<and> unat f < 8 \<and> cfg (config_address b d f 0) \<noteq> 0xFFFFFFFF} \<and>
    distinct (present cfg) \<and>
    unat (pci_device_count (pci_scan s)) = min 256 (length (present cfg)) \<and>
    pci_devices (pci_scan s) =
      map (\<lambda>i. if i < length (present cfg) then device_of cfg (pci_devices s ! i) (present cfg ! i)
               else pci_devices s ! i) [0..<256]"
proof -
  have "set (present cfg) = {(b, d, f). unat d < 32 \<and> unat f < 8 \<and> cfg (config_address b d f 0) \<noteq> 0xFFFFFFFF}"
    by (auto simp: present_def scan_order_set is_present_def)
  moreover have "distinct (present cfg)" by (simp add: present_def scan_order_distinct)
  ultimately show ?thesis
    using pci_scan_from_eq [of cfg "s\<lparr>pci_device_count := 0\<rparr>" scan_order] assms
    by (simp add: pci_scan_def present_def entries_of_def)
qed

definition zero_pci_device :: pci_device where
  "zero_pci_device = \<lparr>vendor_id = 0, device_id = 0, class_code = 0, sub_class = 0, prog_if = 0, bus = 0,
     device = 0, pfunction = 0, bar = replicate 6 0, is_memory_mapped = replicate 6 0, interrupt_line = 0,
     interrupt_pin = 0\<rparr>"

text \<open>A machine with one UHCI controller at bus 0, device 1, function 2, port base 0xC040, interrupt 11.\<close>

definition demo_config :: "u32 \<Rightarrow> u32" where
  "demo_config a = (if a = 0x80000A00 then 0x70208086 else if a = 0x80000A08 then 0x0C030001
     else if a = 0x80000A20 then 0xC041 else if a = 0x80000A3C then 0x040B
     else if a AND 0xFFFFFF00 = 0x80000A00 then 0 else 0xFFFFFFFF)"

definition demo_bridge :: "io_event list \<Rightarrow> io_width \<Rightarrow> u16 \<Rightarrow> u32" where
  "demo_bridge tr w p =
     (if w = W32 \<and> p = PCI_CONFIG_DATA
      then (case tr of Out32 q a # _ \<Rightarrow> if q = PCI_CONFIG_ADDRESS then demo_config a else 0 | _ \<Rightarrow> 0)
      else crtc_device tr w p)"

definition demo_pci :: pci where
  "demo_pci = cmdline.extend (on_mach (\<lambda>m. m\<lparr>env := demo_bridge\<rparr>) demo_cmdline)
     \<lparr>pci_devices = replicate 256 zero_pci_device, pci_device_count = 0\<rparr>"

lemma demo_pci_bridge: "config_space demo_config (env (mach (con demo_pci)))"
  by (simp add: demo_pci_def cmdline.defs config_space_def demo_bridge_def)

lemma demo_present: "present demo_config = [(0, 1, 2)]"
proof -
  have "b = 0 \<and> d = 1 \<and> f = 2" if "unat d < 32" "unat f < 8" "demo_config (config_address b d f 0) \<noteq> 0xFFFFFFFF" for b d f
  proof -
    let ?a = "config_address b d f 0"
    have "?a AND 0xFFFFFF00 = 0x80000A00"
      using that(3) by (auto simp: demo_config_def split: if_splits)
    then have "drop_bit 8 (?a AND 0xFFFFFF00) = 0x80000A" by simp
    moreover have "drop_bit 8 (?a AND 0xFFFFFF00) = drop_bit 8 ?a"
    proof -
      have eq: "(0xFFFFFF00 :: u32) = NOT (mask 8)" by (simp add: mask_eq_exp_minus_1)
      show ?thesis unfolding eq by (rule bit_word_eqI) (auto simp: bit_simps dest: bit_imp_le_length)
    qed
    ultimately have a: "drop_bit 8 ?a = 0x80000A" by simp
    have "drop_bit 16 ?a = drop_bit 8 (drop_bit 8 ?a)" "drop_bit 11 ?a = drop_bit 3 (drop_bit 8 ?a)" by simp_all
    then show ?thesis
      using config_address_fields [OF that(1,2), of b 0] a by simp
  qed
  moreover have "demo_config (config_address 0 1 2 0) \<noteq> 0xFFFFFFFF"
    by (simp add: demo_config_def config_address_def)
  ultimately have "set (present demo_config) = {(0, 1, 2)}"
    by (auto simp: present_def scan_order_set is_present_def)
  moreover have "distinct (present demo_config)" by (simp add: present_def scan_order_distinct)
  ultimately have "length (present demo_config) = Suc 0" by (metis card_1_singleton_iff distinct_card)
  then show ?thesis using \<open>set (present demo_config) = {(0, 1, 2)}\<close> by (auto simp: length_Suc_conv)
qed


theorem pci_scan_finds_devices_witness:
  "unat (pci_device_count (pci_scan demo_pci)) = 1 \<and>
   pci_devices (pci_scan demo_pci) ! 0 = zero_pci_device\<lparr>vendor_id := 0x8086, device_id := 0x7020, class_code := 0x0C,
     sub_class := 3, device := 1, pfunction := 2, bar := [0, 0, 0, 0, 0xC040, 0], interrupt_line := 11, interrupt_pin := 4\<rparr>"
proof -
  have len: "length (pci_devices demo_pci) = 256" "pci_devices demo_pci ! 0 = zero_pci_device"
    by (simp_all add: demo_pci_def cmdline.defs)
  have dev: "device_of demo_config zero_pci_device (0, 1, 2) = zero_pci_device\<lparr>vendor_id := 0x8086, device_id := 0x7020,
     class_code := 0x0C, sub_class := 3, device := 1, pfunction := 2, bar := [0, 0, 0, 0, 0xC040, 0],
     interrupt_line := 11, interrupt_pin := 4\<rparr>"
  proof -
    have six: "[0..<6] = [0, 1, 2, 3, 4, 5]" by (simp add: upt_rec)
    have regs: "map (bar_register demo_config 0 1 2) [0..<6] = [0, 0, 0, 0, 0xC041, 0]"
      by (simp add: six bar_register_def demo_config_def config_address_def)
    then have v: "bar_register demo_config 0 1 2 i = (if i = 4 then 0xC041 else 0)" if "i < 6" for i
      using that arg_cong [OF regs, of "\<lambda>l. l ! i"] by (auto simp: nth_Cons' less_Suc_eq numeral_eq_Suc)
    have nu: "\<not> upper (bar_register demo_config 0 1 2) i" if "i < 6" for i
      using that v [of "i - 1"] by (cases i) (auto simp: wide_def)
    have "bars_of (bar_register demo_config 0 1 2) fst 0 (replicate 6 0) = [0, 0, 0, 0, 0xC040, 0]"
      by (simp add: bars_of_def six v nu decode_bar_def)
    moreover have "bars_of (bar_register demo_config 0 1 2) snd 0 (replicate 6 0) = replicate 6 0"
      by (simp add: bars_of_def six v nu decode_bar_def numeral_eq_Suc)
    ultimately show ?thesis
      by (simp add: device_of_def Let_def zero_pci_device_def decode_bar_def six
          demo_config_def config_address_def config_byte_def)
  qed
  show ?thesis
    using pci_scan_finds_devices [OF demo_pci_bridge len(1)] by (simp add: demo_present len dev)
qed

end
