(* ===== verification/Usb_Desc.thy ===== *)
theory Usb_Desc
  imports Pci
begin

text \<open>
  \<^verbatim>\<open>src/drivers/usb/usb_descriptors.h\<close>, the log macros of \<^verbatim>\<open>src/drivers/usb/usb.h\<close> and
  \<^verbatim>\<open>src/drivers/usb/uhci/uhci.h\<close>, and the parser of configuration descriptors of
  \<^verbatim>\<open>src/drivers/usb/uhci/enumerate.c\<close>.

  A descriptor structure is packed, so it is read off consecutive bytes, 16-bit fields little
  endian.  The blob the parser walks is byte memory from the offset 0; the parser may read bytes
  behind the end of a descriptor that is shorter than its type says, and then sees whatever the
  memory holds there.  Log output below the level \<open>WARN\<close> is compiled out (the default of
  \<open>USB_LOG_LEVEL\<close>), the rest goes to \<open>printf\<close>.
\<close>

section \<open>Descriptors\<close>

definition USB_DESC_TYPE_DEVICE :: u8 where "USB_DESC_TYPE_DEVICE = 0x01"
definition USB_DESC_TYPE_CONFIGURATION :: u8 where "USB_DESC_TYPE_CONFIGURATION = 0x02"
definition USB_DESC_TYPE_INTERFACE :: u8 where "USB_DESC_TYPE_INTERFACE = 0x04"
definition USB_DESC_TYPE_ENDPOINT :: u8 where "USB_DESC_TYPE_ENDPOINT = 0x05"
definition USB_CLASS_HID :: u8 where "USB_CLASS_HID = 0x03"
definition USB_SUBCLASS_BOOT :: u8 where "USB_SUBCLASS_BOOT = 0x01"
definition USB_PROTOCOL_KEYBOARD :: u8 where "USB_PROTOCOL_KEYBOARD = 0x01"
definition MAX_USB_DEVICES :: nat where "MAX_USB_DEVICES = 128"

lemmas usb_consts = USB_DESC_TYPE_DEVICE_def USB_DESC_TYPE_CONFIGURATION_def USB_DESC_TYPE_INTERFACE_def
  USB_DESC_TYPE_ENDPOINT_def USB_CLASS_HID_def USB_SUBCLASS_BOOT_def USB_PROTOCOL_KEYBOARD_def MAX_USB_DEVICES_def

record usb_configuration_descriptor =
  cd_length :: u8
  cd_descriptor_type :: u8
  total_length :: u16
  num_interfaces :: u8
  configuration_value :: u8
  configuration_index :: u8
  cd_attributes :: u8
  max_power :: u8

record usb_interface_descriptor =
  id_length :: u8
  id_descriptor_type :: u8
  interface_number :: u8
  alternate_setting :: u8
  num_endpoints :: u8
  interface_class :: u8
  interface_subclass :: u8
  interface_protocol :: u8
  interface_index :: u8

record usb_endpoint_descriptor =
  ep_length :: u8
  ep_descriptor_type :: u8
  endpoint_address :: u8
  ep_attributes :: u8
  max_packet_size :: u16
  ep_interval :: u8

text \<open>
  The device descriptor of a \<open>usb_device_t\<close> is only ever written by the controller and read by log
  output that is compiled out; its bytes live in the memory the controller writes to, not here.
\<close>

record usb_device =
  usb_address :: u8
  config_descriptor :: usb_configuration_descriptor
  interface_descriptor :: usb_interface_descriptor
  endpoint_descriptors :: "usb_endpoint_descriptor list"

definition le16 :: "u8 \<Rightarrow> u8 \<Rightarrow> u16" where
  "le16 lo hi = ucast lo OR push_bit 8 (ucast hi)"

definition configuration_at :: "bytemem \<Rightarrow> nat \<Rightarrow> usb_configuration_descriptor" where
  "configuration_at buf off = \<lparr>cd_length = buf off, cd_descriptor_type = buf (off + 1),
     total_length = le16 (buf (off + 2)) (buf (off + 3)), num_interfaces = buf (off + 4),
     configuration_value = buf (off + 5), configuration_index = buf (off + 6), cd_attributes = buf (off + 7),
     max_power = buf (off + 8)\<rparr>"

definition interface_at :: "bytemem \<Rightarrow> nat \<Rightarrow> usb_interface_descriptor" where
  "interface_at buf off = \<lparr>id_length = buf off, id_descriptor_type = buf (off + 1), interface_number = buf (off + 2),
     alternate_setting = buf (off + 3), num_endpoints = buf (off + 4), interface_class = buf (off + 5),
     interface_subclass = buf (off + 6), interface_protocol = buf (off + 7), interface_index = buf (off + 8)\<rparr>"

definition endpoint_at :: "bytemem \<Rightarrow> nat \<Rightarrow> usb_endpoint_descriptor" where
  "endpoint_at buf off = \<lparr>ep_length = buf off, ep_descriptor_type = buf (off + 1), endpoint_address = buf (off + 2),
     ep_attributes = buf (off + 3), max_packet_size = le16 (buf (off + 4)) (buf (off + 5)), ep_interval = buf (off + 6)\<rparr>"

section \<open>Logging\<close>

definition USB_LOG_WARN :: "string \<Rightarrow> va_arg list \<Rightarrow> console \<Rightarrow> console" where
  "USB_LOG_WARN fmt args c = printf (lit ''[USB][WRN] '' @ lit fmt @ [10]) args c"

definition USB_LOG_ERROR :: "string \<Rightarrow> va_arg list \<Rightarrow> console \<Rightarrow> console" where
  "USB_LOG_ERROR fmt args c = printf (lit ''[USB][ERR] '' @ lit fmt @ [10]) args c"

definition UHCI_WARN :: "string \<Rightarrow> va_arg list \<Rightarrow> console \<Rightarrow> console" where
  "UHCI_WARN fmt args c = printf (lit ''[USB][UHCI][WRN] '' @ lit fmt @ [10]) args c"

definition UHCI_ERR :: "string \<Rightarrow> va_arg list \<Rightarrow> console \<Rightarrow> console" where
  "UHCI_ERR fmt args c = printf (lit ''[USB][UHCI][ERR] '' @ lit fmt @ [10]) args c"

section \<open>Parsing a configuration\<close>

definition is_boot_keyboard :: "usb_interface_descriptor \<Rightarrow> bool" where
  "is_boot_keyboard i \<longleftrightarrow> interface_class i = USB_CLASS_HID \<and> interface_subclass i = USB_SUBCLASS_BOOT \<and>
     interface_protocol i = USB_PROTOCOL_KEYBOARD"

text \<open>Pass 1 from \<open>off\<close> on: the first interface seen so far, and the last boot keyboard among them.\<close>

function choose_interface ::
    "bytemem \<Rightarrow> nat \<Rightarrow> nat \<Rightarrow> usb_interface_descriptor option \<Rightarrow> usb_interface_descriptor option \<Rightarrow>
     usb_interface_descriptor option \<times> usb_interface_descriptor option" where
  "choose_interface buf total_len off first_if best_if =
     (if off + 2 \<le> total_len
      then let len = buf off; type = buf (off + 1) in
           if len = 0 \<or> total_len < off + unat len then (first_if, best_if)
           else if type = USB_DESC_TYPE_INTERFACE
           then let i = interface_at buf off
                in choose_interface buf total_len (off + unat len)
                     (if first_if = None then Some i else first_if)
                     (if is_boot_keyboard i then Some i else best_if)
           else choose_interface buf total_len (off + unat len) first_if best_if
      else (first_if, best_if))"
  by pat_completeness auto
termination
  by (relation "measure (\<lambda>(buf, total_len, off, f, b). total_len - off)") (auto intro!: diff_less_mono2 simp: unat_gt_0)

declare choose_interface.simps [simp del]

definition is_interrupt_in :: "usb_endpoint_descriptor \<Rightarrow> bool" where
  "is_interrupt_in e \<longleftrightarrow> ep_attributes e AND 3 = 3 \<and> endpoint_address e AND 0x80 \<noteq> 0"

text \<open>Pass 2 from \<open>off\<close> on: the first interrupt IN endpoint behind an interface with the chosen numbers.\<close>

function find_endpoint ::
    "bytemem \<Rightarrow> nat \<Rightarrow> usb_interface_descriptor \<Rightarrow> nat \<Rightarrow> bool \<Rightarrow> usb_endpoint_descriptor option" where
  "find_endpoint buf total_len chosen off in_block =
     (if off + 2 \<le> total_len
      then let len = buf off; type = buf (off + 1) in
           if len = 0 \<or> total_len < off + unat len then None
           else if type = USB_DESC_TYPE_INTERFACE
           then let i = interface_at buf off
                in find_endpoint buf total_len chosen (off + unat len)
                     (interface_number i = interface_number chosen \<and> alternate_setting i = alternate_setting chosen)
           else if type = USB_DESC_TYPE_ENDPOINT \<and> in_block
           then let e = endpoint_at buf off
                in if is_interrupt_in e then Some e else find_endpoint buf total_len chosen (off + unat len) in_block
           else find_endpoint buf total_len chosen (off + unat len) in_block
      else None)"
  by pat_completeness auto
termination
  by (relation "measure (\<lambda>(buf, total_len, chosen, off, ib). total_len - off)") (auto intro!: diff_less_mono2 simp: unat_gt_0)

declare find_endpoint.simps [simp del]

definition usb_parse_config_blob_into_device ::
    "bytemem option \<Rightarrow> u16 \<Rightarrow> usb_device \<Rightarrow> console \<Rightarrow> bool \<times> usb_device \<times> console" where
  "usb_parse_config_blob_into_device blob total_len dev c =
     (case blob of
        None \<Rightarrow> (False, dev, c)
      | Some buf \<Rightarrow>
          if unat total_len < 9 then (False, dev, c)
          else let dev1 = dev\<lparr>config_descriptor := configuration_at buf 0\<rparr>;
                   (first_if, best_if) = choose_interface buf (unat total_len) 0 None None in
          case first_if of
            None \<Rightarrow> (False, dev1, UHCI_ERR ''No interface descriptors in configuration blob'' [] c)
          | Some first \<Rightarrow>
              let chosen = (case best_if of None \<Rightarrow> first | Some best \<Rightarrow> best);
                  dev2 = dev1\<lparr>interface_descriptor := chosen\<rparr> in
              case find_endpoint buf (unat total_len) chosen 0 False of
                None \<Rightarrow> (False, dev2,
                   UHCI_ERR ''No interrupt IN endpoint found for interface %u (alt %u)''
                     [Num (ucast (interface_number chosen)), Num (ucast (alternate_setting chosen))] c)
              | Some e \<Rightarrow> (True, dev2\<lparr>endpoint_descriptors := (endpoint_descriptors dev2)[0 := e]\<rparr>, c))"


section \<open>What the parser must choose\<close>

text \<open>
  A configuration as the device sends it is a sequence of descriptors, each as long as its first
  byte says and long enough for its type.  An interface is identified by its number and its
  alternate setting.
\<close>

definition is_iface :: "u8 list \<Rightarrow> bool" where
  "is_iface d \<longleftrightarrow> d ! 1 = USB_DESC_TYPE_INTERFACE"

definition is_ep :: "u8 list \<Rightarrow> bool" where
  "is_ep d \<longleftrightarrow> d ! 1 = USB_DESC_TYPE_ENDPOINT"

definition iface_of :: "u8 list \<Rightarrow> usb_interface_descriptor" where
  "iface_of d = interface_at ((!) d) 0"

definition ep_of :: "u8 list \<Rightarrow> usb_endpoint_descriptor" where
  "ep_of d = endpoint_at ((!) d) 0"

definition wf_desc :: "u8 list \<Rightarrow> bool" where
  "wf_desc d \<longleftrightarrow> 2 \<le> length d \<and> unat (d ! 0) = length d \<and> (is_iface d \<longrightarrow> 9 \<le> length d) \<and> (is_ep d \<longrightarrow> 7 \<le> length d)"

definition if_key :: "usb_interface_descriptor \<Rightarrow> u8 \<times> u8" where
  "if_key i = (interface_number i, alternate_setting i)"

definition ifaces :: "u8 list list \<Rightarrow> usb_interface_descriptor list" where
  "ifaces ds = map iface_of (filter is_iface ds)"

definition blob_at :: "bytemem \<Rightarrow> nat \<Rightarrow> u8 list list \<Rightarrow> bool" where
  "blob_at buf off ds \<longleftrightarrow> fetch buf off (length (concat ds)) = concat ds"

lemma blob_at_Cons:
  assumes "blob_at buf off (d # ds)"
  shows "\<forall>i < length d. buf (off + i) = d ! i" and "blob_at buf (off + length d) ds"
proof -
  have eq: "buf (off + i) = concat (d # ds) ! i" if "i < length (concat (d # ds))" for i
    using assms that nth_fetch [of i "length (concat (d # ds))" buf off] by (simp add: blob_at_def)
  then show "\<forall>i < length d. buf (off + i) = d ! i"
    by (metis concat.simps(2) length_append nth_append trans_less_add1)
  have "buf (off + length d + i) = concat ds ! i" if "i < length (concat ds)" for i
    using eq [of "length d + i"] that by (simp add: add.assoc)
  then show "blob_at buf (off + length d) ds"
    unfolding blob_at_def by (intro nth_equalityI) auto
qed

lemma blob_desc:
  assumes "blob_at buf off (d # ds)" and "wf_desc d"
  shows "unat (buf off) = length d" and "buf off \<noteq> 0" and "buf (off + 1) = d ! 1"
    and "is_iface d \<Longrightarrow> interface_at buf off = iface_of d" and "is_ep d \<Longrightarrow> endpoint_at buf off = ep_of d"
proof -
  have b: "buf (off + i) = d ! i" if "i < length d" for i using blob_at_Cons(1) [OF assms(1)] that by blast
  have len: "2 \<le> length d" using assms(2) by (simp add: wf_desc_def)
  have "0 < length d" using len by (cases d) simp_all
  then have b0: "buf off = d ! 0" using b [of 0] by simp
  then show "unat (buf off) = length d" using assms(2) by (simp add: wf_desc_def)
  then show "buf off \<noteq> 0" using len by auto
  show "buf (off + 1) = d ! 1" using b [of 1] len by simp
  show "interface_at buf off = iface_of d" if "is_iface d"
    using b0 b [of 1] b [of 2] b [of 3] b [of 4] b [of 5] b [of 6] b [of 7] b [of 8] that assms(2)
    by (simp add: wf_desc_def interface_at_def iface_of_def numeral_2_eq_2)
  show "endpoint_at buf off = ep_of d" if "is_ep d"
    using b0 b [of 1] b [of 2] b [of 3] b [of 4] b [of 5] b [of 6] that assms(2)
    by (simp add: wf_desc_def endpoint_at_def ep_of_def numeral_2_eq_2)
qed

lemma ifaces_simps [simp]:
  "ifaces [] = []" "ifaces (d # ds) = (if is_iface d then iface_of d # ifaces ds else ifaces ds)"
  "ifaces (ds @ ds') = ifaces ds @ ifaces ds'"
  by (simp_all add: ifaces_def)

lemma ifaces_block: "filter is_iface ds = [] \<Longrightarrow> ifaces ds = []"
  by (simp add: ifaces_def)

lemma choose_interface_blob:
  assumes "blob_at buf off ds" and "list_all wf_desc ds"
  shows "choose_interface buf (off + length (concat ds)) off f b =
    (case f of None \<Rightarrow> (case ifaces ds of [] \<Rightarrow> None | i # _ \<Rightarrow> Some i) | Some i \<Rightarrow> Some i,
     fold (\<lambda>i b. if is_boot_keyboard i then Some i else b) (ifaces ds) b)"
  using assms
proof (induction ds arbitrary: off f b)
  case Nil
  then show ?case by (subst choose_interface.simps) (simp add: split: option.splits)
next
  case (Cons d ds)
  have wf: "wf_desc d" "2 \<le> length d" using Cons.prems(2) by (simp_all add: wf_desc_def)
  note hd = blob_desc [OF Cons.prems(1) wf(1)]
  have IH: "choose_interface buf (off + (length d + length (concat ds))) (off + length d) f b =
      (case f of None \<Rightarrow> (case ifaces ds of [] \<Rightarrow> None | i # _ \<Rightarrow> Some i) | Some i \<Rightarrow> Some i,
       fold (\<lambda>i b. if is_boot_keyboard i then Some i else b) (ifaces ds) b)" for f b
    using Cons.IH [OF blob_at_Cons(2) [OF Cons.prems(1)]] Cons.prems(2) by (simp add: add.assoc)
  show ?case
  proof (cases "is_iface d")
    case True
    then show ?thesis
      using wf(2) hd by (subst choose_interface.simps) (simp add: IH is_iface_def Let_def split: option.splits)
  next
    case False
    then show ?thesis
      using wf(2) hd by (subst choose_interface.simps) (simp add: IH is_iface_def split: option.split)
  qed
qed


primrec block_endpoint :: "u8 \<times> u8 \<Rightarrow> bool \<Rightarrow> u8 list list \<Rightarrow> usb_endpoint_descriptor option" where
  "block_endpoint key in_block [] = None"
| "block_endpoint key in_block (d # ds) =
     (if is_iface d then block_endpoint key (if_key (iface_of d) = key) ds
      else if is_ep d \<and> in_block \<and> is_interrupt_in (ep_of d) then Some (ep_of d)
      else block_endpoint key in_block ds)"

lemma find_endpoint_blob:
  assumes "blob_at buf off ds" and "list_all wf_desc ds"
  shows "find_endpoint buf (off + length (concat ds)) chosen off ib = block_endpoint (if_key chosen) ib ds"
  using assms
proof (induction ds arbitrary: off ib)
  case Nil
  then show ?case by (subst find_endpoint.simps) simp
next
  case (Cons d ds)
  have wf: "wf_desc d" "2 \<le> length d" using Cons.prems(2) by (simp_all add: wf_desc_def)
  note hd = blob_desc [OF Cons.prems(1) wf(1)]
  have IH: "find_endpoint buf (off + (length d + length (concat ds))) chosen (off + length d) ib =
      block_endpoint (if_key chosen) ib ds" for ib
    using Cons.IH [OF blob_at_Cons(2) [OF Cons.prems(1)]] Cons.prems(2) by (simp add: add.assoc)
  consider "is_iface d" | "is_ep d" "\<not> is_iface d" | "\<not> is_iface d" "\<not> is_ep d" by blast
  then show ?case
  proof cases
    case 1
    then show ?thesis
      using wf(2) hd by (subst find_endpoint.simps) (simp add: IH is_iface_def if_key_def Let_def)
  next
    case 2
    then show ?thesis
      using wf(2) hd by (subst find_endpoint.simps) (simp add: IH is_iface_def is_ep_def Let_def)
  next
    case 3
    then show ?thesis
      using wf(2) hd by (subst find_endpoint.simps) (simp add: IH is_iface_def is_ep_def Let_def)
  qed
qed

text \<open>With distinct interface keys only the block of the chosen interface counts.\<close>

lemma block_endpoint_skip:
  "key \<notin> if_key ` set (ifaces ds) \<Longrightarrow> block_endpoint key False ds = None"
  by (induction ds) (auto simp: ifaces_def)

lemma block_endpoint_prefix:
  "key \<notin> if_key ` set (ifaces pre) \<Longrightarrow> block_endpoint key False (pre @ ds) = block_endpoint key False ds"
  by (induction pre) (auto simp: ifaces_def)

lemma block_endpoint_block:
  "filter is_iface block = [] \<Longrightarrow> rest = [] \<or> is_iface (hd rest) \<Longrightarrow> key \<notin> if_key ` set (ifaces rest) \<Longrightarrow>
   block_endpoint key True (block @ rest) = find is_interrupt_in (map ep_of (filter is_ep block))"
proof (induction block)
  case Nil
  then show ?case
  proof (cases rest)
    case (Cons r rest')
    then show ?thesis using Nil block_endpoint_skip [of key rest'] by (auto simp: ifaces_def)
  qed simp
next
  case (Cons d block)
  then show ?case by (auto split: if_splits)
qed

lemma fold_last_keyboard:
  "fold (\<lambda>i b. if P i then Some i else b) xs b = (case filter P xs of [] \<Rightarrow> b | _ \<Rightarrow> Some (last (filter P xs)))"
  by (induction xs arbitrary: b) (auto split: list.splits)

section \<open>Properties\<close>

definition chosen_by_rule :: "u8 list list \<Rightarrow> u8 list \<Rightarrow> u8 list list \<Rightarrow> bool" where
  "chosen_by_rule before d behind \<longleftrightarrow>
     (if filter is_boot_keyboard (ifaces (before @ d # behind)) = [] then ifaces before = []
      else is_boot_keyboard (iface_of d) \<and> filter is_boot_keyboard (ifaces behind) = [])"

text \<open>
  C15. Parsing a configuration: on a blob that is a sequence of well-formed descriptors with distinct
  interfaces, the interface chosen is the last boot keyboard interface, or the first interface when
  there is none; the parse succeeds exactly when the descriptors between it and the next interface
  hold an interrupt IN endpoint, and then the device gets the configuration, that interface and the
  first such endpoint; otherwise the failure is reported and no endpoint is stored.
\<close>

theorem config_parse_correct:
  assumes "blob_at buf 0 ds" and "list_all wf_desc ds" and "unat total_len = length (concat ds)" and "9 \<le> length (concat ds)"
    and "ds = before @ d # block @ rest" and "is_iface d" and "filter is_iface block = []" and "rest = [] \<or> is_iface (hd rest)"
    and "distinct (map if_key (ifaces ds))" and "chosen_by_rule before d (block @ rest)"
  shows "usb_parse_config_blob_into_device (Some buf) total_len dev c =
    (let dev1 = dev\<lparr>config_descriptor := configuration_at buf 0, interface_descriptor := iface_of d\<rparr>
     in case find is_interrupt_in (map ep_of (filter is_ep block)) of
          Some e \<Rightarrow> (True, dev1\<lparr>endpoint_descriptors := (endpoint_descriptors dev)[0 := e]\<rparr>, c)
        | None \<Rightarrow> (False, dev1, UHCI_ERR ''No interrupt IN endpoint found for interface %u (alt %u)''
                     [Num (ucast (interface_number (iface_of d))), Num (ucast (alternate_setting (iface_of d)))] c))"
proof -
  have ifs: "ifaces ds = ifaces before @ iface_of d # ifaces rest"
    using assms(5-7) by (simp add: ifaces_block)
  then have ne: "ifaces ds \<noteq> []" by simp
  have key: "if_key (iface_of d) \<notin> if_key ` set (ifaces before)" "if_key (iface_of d) \<notin> if_key ` set (ifaces rest)"
    using assms(9) ifs by auto
  have chosen: "choose_interface buf (unat total_len) 0 None None =
      (Some (hd (ifaces ds)), case filter is_boot_keyboard (ifaces ds) of [] \<Rightarrow> None
        | _ \<Rightarrow> Some (last (filter is_boot_keyboard (ifaces ds))))"
    using choose_interface_blob [OF assms(1,2), of None None] assms(3) ne
    by (simp add: fold_last_keyboard list.case_eq_if)
  have pick: "(case (case filter is_boot_keyboard (ifaces ds) of [] \<Rightarrow> None
        | _ \<Rightarrow> Some (last (filter is_boot_keyboard (ifaces ds)))) of None \<Rightarrow> hd (ifaces ds) | Some best \<Rightarrow> best) = iface_of d"
    using assms(10) ifs ifaces_block [OF assms(7)] assms(5,6) unfolding chosen_by_rule_def
    by (auto simp: list.case_eq_if split: if_splits)
  have "find_endpoint buf (unat total_len) (iface_of d) 0 False = find is_interrupt_in (map ep_of (filter is_ep block))"
    using find_endpoint_blob [OF assms(1,2), of "iface_of d" False] block_endpoint_prefix [OF key(1)]
      block_endpoint_block [OF assms(7,8) key(2)] assms(3,5,6) by simp
  then show ?thesis
    using assms(3,4) unfolding usb_parse_config_blob_into_device_def option.case chosen prod.case Let_def pick
    by (simp split: option.split)
qed


definition demo_descriptors :: "u8 list list" where
  "demo_descriptors = [[9, 2, 34, 0, 1, 1, 0, 0xA0, 50], [9, 4, 0, 0, 1, 3, 1, 1, 0], [9, 0x21, 0x11, 1, 0, 1, 0x22, 63, 0],
     [7, 5, 0x81, 3, 8, 0, 10]]"

definition demo_blob :: bytemem where
  "demo_blob i = (if i < 34 then concat demo_descriptors ! i else 0)"

definition zero_usb_device :: usb_device where
  "zero_usb_device = \<lparr>usb_address = 0, config_descriptor = configuration_at (\<lambda>_. 0) 0,
     interface_descriptor = interface_at (\<lambda>_. 0) 0, endpoint_descriptors = replicate 16 (endpoint_at (\<lambda>_. 0) 0)\<rparr>"

lemma demo_blob_at: "blob_at demo_blob 0 demo_descriptors"
  unfolding blob_at_def by (rule nth_equalityI) (simp_all add: demo_blob_def demo_descriptors_def)

theorem config_parse_correct_witness:
  "fst (usb_parse_config_blob_into_device (Some demo_blob) 34 zero_usb_device demo_vga) \<and>
   endpoint_address (endpoint_descriptors (fst (snd (usb_parse_config_blob_into_device (Some demo_blob) 34
     zero_usb_device demo_vga))) ! 0) = 0x81"
proof -
  have ds: "demo_descriptors = [[9, 2, 34, 0, 1, 1, 0, 0xA0, 50]] @ [9, 4, 0, 0, 1, 3, 1, 1, 0] #
      [[9, 0x21, 0x11, 1, 0, 1, 0x22, 63, 0], [7, 5, 0x81, 3, 8, 0, 10]] @ []"
    by (simp add: demo_descriptors_def)
  note defs = wf_desc_def is_iface_def is_ep_def usb_consts if_key_def iface_of_def ep_of_def interface_at_def
    endpoint_at_def chosen_by_rule_def is_boot_keyboard_def is_interrupt_in_def
  have "list_all wf_desc demo_descriptors" "unat (34 :: u16) = length (concat demo_descriptors)"
      "9 \<le> length (concat demo_descriptors)" "distinct (map if_key (ifaces demo_descriptors))"
    by (simp_all add: demo_descriptors_def defs)
  then show ?thesis
    using config_parse_correct [OF demo_blob_at _ _ _ ds, of 34 zero_usb_device demo_vga]
    by (simp add: defs zero_usb_device_def)
qed

end
