(* ===== verification/Uhci.thy ===== *)
theory Uhci
  imports Usb_Desc "HOL-Library.Monad_Syntax"
begin

text \<open>
  The UHCI host controller driver: \<^verbatim>\<open>src/drivers/usb/uhci/controller.c\<close> (bring-up),
  \<^verbatim>\<open>hid_kbd.c\<close> (keyboard pipes) and \<^verbatim>\<open>uhci_isr.c\<close> (the interrupt handler).

  \<open>uhci\<close> adds to the kernel state the statics of these files and of \<^verbatim>\<open>usb.c\<close>, the allocator of
  theory \<open>Mem\<close>, and the memory the controller shares with the driver: transfer descriptors and
  queue heads as typed stores by address, and the bytes of data buffers (\<open>dma\<close>).  A pointer is a
  64-bit address with 0 for \<open>NULL\<close>; a pointer to a PCI entry is its index in \<open>pci_devices\<close>.

  The controller works on that memory on its own, and interrupts arrive, while the driver sleeps.
  \<open>pause ms\<close>, an argument of every routine that sleeps, is the effect of one \<open>sleep_ms(ms)\<close> on the
  whole state: an arbitrary function, so that a theorem without hypotheses on it holds for every
  behaviour of the hardware.  A routine that allocates is \<open>None\<close> when the allocator does not return.
\<close>

section \<open>State\<close>

record uhci_td =
  link_pointer :: u32
  control_status :: u32
  token :: u32
  buffer_pointer :: u32

record uhci_qh =
  horizontal_link_pointer :: u32
  vertical_link_pointer :: u32

record uhci_isr_ctx =
  ctx_io_base :: u16
  irq_line :: u8

record uhci_kbd_pipe =
  in_use :: bool
  p_io_base :: u16
  dev_addr :: u8
  p_ep :: u8
  p_interval :: u8
  dev_index :: u8
  toggle :: u8
  p_first_slot :: u16
  p_buf :: u64
  p_td :: u64
  p_qh :: u64

record usb_controller =
  uc_pci_device :: "nat option"
  base_address :: u32

record uhci = pci +
  usb_controllers :: "usb_controller list"
  usb_controller_count :: u8
  usb_devices :: "usb_device list"
  usb_device_count :: u8
  frame_list :: "u32 list"
  heap :: heap
  td_at :: "u64 \<Rightarrow> uhci_td"
  qh_at :: "u64 \<Rightarrow> uhci_qh"
  dma :: "u64 \<Rightarrow> u8"
  g_uhci_ctx :: uhci_isr_ctx
  g_kbd_pipes :: "uhci_kbd_pipe list"

definition zero_td :: uhci_td where
  "zero_td = \<lparr>link_pointer = 0, control_status = 0, token = 0, buffer_pointer = 0\<rparr>"

definition zero_qh :: uhci_qh where
  "zero_qh = \<lparr>horizontal_link_pointer = 0, vertical_link_pointer = 0\<rparr>"

definition zero_pipe :: uhci_kbd_pipe where
  "zero_pipe = \<lparr>in_use = False, p_io_base = 0, dev_addr = 0, p_ep = 0, p_interval = 0, dev_index = 0, toggle = 0,
     p_first_slot = 0, p_buf = 0, p_td = 0, p_qh = 0\<rparr>"

definition UHCI_MAX_KBD_PIPES :: nat where "UHCI_MAX_KBD_PIPES = 4"
definition TD_ACTIVE :: u32 where "TD_ACTIVE = 0x800000"
definition TD_IOC :: u32 where "TD_IOC = 0x1000000"
definition TD_SPD :: u32 where "TD_SPD = 0x20000000"
definition TD_NAK :: u32 where "TD_NAK = 0x80000"
definition TD_ERR_MASK :: u32 where "TD_ERR_MASK = 0x400000 OR 0x200000 OR 0x100000 OR 0x40000 OR 0x20000"
definition TD_ACTLEN_MASK :: u32 where "TD_ACTLEN_MASK = 0x7FF"

lemmas td_consts = TD_ACTIVE_def TD_IOC_def TD_SPD_def TD_NAK_def TD_ERR_MASK_def TD_ACTLEN_MASK_def

text \<open>Physical addresses are stored in 32-bit fields.\<close>

definition phys :: "u64 \<Rightarrow> u32" where
  "phys p = ucast (get_physical_address p)"

definition in16 :: "u16 \<Rightarrow> 'a cpu_scheme \<Rightarrow> u16 \<times> 'a cpu_scheme" where
  "in16 p s = (let (v, m) = port_word_in p (mach (con s)) in (v, on_mach (\<lambda>_. m) s))"

definition in32 :: "u16 \<Rightarrow> 'a cpu_scheme \<Rightarrow> u32 \<times> 'a cpu_scheme" where
  "in32 p s = (let (v, m) = port_dword_in p (mach (con s)) in (v, on_mach (\<lambda>_. m) s))"

abbreviation out16 :: "u16 \<Rightarrow> u16 \<Rightarrow> 'a cpu_scheme \<Rightarrow> 'a cpu_scheme" where
  "out16 p v s \<equiv> on_mach (port_word_out p v) s"

section \<open>Bringing a controller up\<close>

definition find_uhci_io_base :: "pci_device \<Rightarrow> u32" where
  "find_uhci_io_base dev =
     (case find (\<lambda>i. bar dev ! i \<noteq> 0 \<and> is_memory_mapped dev ! i = 0) [0..<6] of
        None \<Rightarrow> 0
      | Some i \<Rightarrow> ucast (ucast (bar dev ! i AND 0xFFFFFFFC) :: u16))"

definition uhci_reset_controller ::
    "(u64 \<Rightarrow> 'a uhci_scheme \<Rightarrow> 'a uhci_scheme) \<Rightarrow> u16 \<Rightarrow> 'a uhci_scheme \<Rightarrow> bool \<times> 'a uhci_scheme" where
  "uhci_reset_controller pause io_base s =
     (let s1 = out16 io_base 0x0002 s; s2 = pause 10 s1; s3 = out16 io_base 0x0000 s2;
          (status, s4) = in16 (io_base + 2) s3
      in if status AND 32 \<noteq> 0 then (True, s4)
         else (False, on_con (UHCI_ERR ''Controller is NOT halted. Status: 0x%x'' [Num (ucast status)]) s4))"

definition uhci_initialize_frame_list :: "'a uhci_scheme \<Rightarrow> 'a uhci_scheme" where
  "uhci_initialize_frame_list s = s\<lparr>frame_list := map (\<lambda>_. 1) (frame_list s)\<rparr>"

definition uhci_set_frame_list_base_address :: "u16 \<Rightarrow> u32 \<Rightarrow> 'a uhci_scheme \<Rightarrow> bool \<times> 'a uhci_scheme" where
  "uhci_set_frame_list_base_address io_base addr s =
     (let s1 = on_mach (port_dword_out (io_base + 8) addr) s; (rd, s2) = in32 (io_base + 8) s1
      in if rd = addr then (True, s2)
         else (False, on_con (UHCI_ERR ''Frame List set failed. Expected: 0x%x, Got: 0x%x''
                                [Num (ucast addr), Num (ucast rd)]) s2))"

definition uhci_enable_interrupts :: "u16 \<Rightarrow> 'a uhci_scheme \<Rightarrow> bool \<times> 'a uhci_scheme" where
  "uhci_enable_interrupts io_base s =
     (let (intr, s1) = in16 (io_base + 4) (out16 (io_base + 4) 0x0006 s)
      in if intr \<noteq> 0x0006
         then (False, on_con (UHCI_WARN ''Interrupt mask mismatch: wrote 0x0006, read 0x%x'' [Num (ucast intr)]) s1)
         else (True, s1))"

definition uhci_start_controller :: "u16 \<Rightarrow> 'a uhci_scheme \<Rightarrow> bool \<times> 'a uhci_scheme" where
  "uhci_start_controller io_base s =
     (let (status, s1) = in16 (io_base + 2) (out16 io_base 0x0001 s)
      in (True, if status \<noteq> 0
                then on_con (UHCI_WARN ''Controller start reported non-zero status: 0x%x'' [Num (ucast status)]) s1
                else s1))"

section \<open>The interrupt handler's registration\<close>

definition irq_to_vector :: "u8 \<Rightarrow> u8" where
  "irq_to_vector line = IRQ0 + line"

definition uhci_install_isr :: "usb_controller \<Rightarrow> 'a uhci_scheme \<Rightarrow> 'a uhci_scheme" where
  "uhci_install_isr ctrl s =
     (case uc_pci_device ctrl of
        None \<Rightarrow> on_con (\<lambda>c. c\<lparr>ub := True\<rparr>) s
      | Some d \<Rightarrow>
          let line = interrupt_line (pci_devices s ! d);
              s1 = s\<lparr>g_uhci_ctx := \<lparr>ctx_io_base = ucast (base_address ctrl), irq_line = line\<rparr>\<rparr>
          in if 16 \<le> line then on_con (UHCI_ERR ''UHCI: invalid PCI interrupt_line=%u'' [Num (ucast line)]) s1
             else register_interrupt_handler (irq_to_vector line) Uhci_irq_top s1)"

text \<open>\<open>fl_phys\<close> is the address of the frame list, which the linker chooses.\<close>

definition uhci_initialize_controller ::
    "(u64 \<Rightarrow> 'a uhci_scheme \<Rightarrow> 'a uhci_scheme) \<Rightarrow> u64 \<Rightarrow> usb_controller \<Rightarrow> 'a uhci_scheme \<Rightarrow> bool \<times> 'a uhci_scheme" where
  "uhci_initialize_controller pause fl_phys ctrl s =
     (let io_base = ucast (base_address ctrl);
          s1 = (case uc_pci_device ctrl of
                  None \<Rightarrow> on_con (\<lambda>c. c\<lparr>ub := True\<rparr>) s
                | Some d \<Rightarrow> on_mach (pci_enable_bus_mastering (pci_devices s ! d)) s);
          (ok, s2) = uhci_reset_controller pause io_base s1 in
      if \<not> ok then (False, s2)
      else let (ok, s3) = uhci_set_frame_list_base_address io_base (ucast fl_phys) (uhci_initialize_frame_list s2) in
      if \<not> ok then (False, s3)
      else let (ok, s4) = uhci_enable_interrupts io_base s3;
               s5 = (if ok then s4 else on_con (UHCI_WARN ''Interrupt enable failed; continuing with polling'' []) s4);
               (ok, s6) = uhci_start_controller io_base s5
      in if \<not> ok then (False, on_con (UHCI_ERR ''Failed to start UHCI controller'' []) s6)
         else (True, uhci_install_isr ctrl s6))"

section \<open>Keyboard pipes\<close>

definition ep_number_from_addr :: "u8 \<Rightarrow> u8" where
  "ep_number_from_addr a = a AND 0x0F"

definition uhci_build_in_token :: "u8 \<Rightarrow> u8 \<Rightarrow> u8 \<Rightarrow> u16 \<Rightarrow> u32" where
  "uhci_build_in_token addr endp tog max_len =
     (let m1 = (if max_len \<noteq> 0 then ucast max_len - 1 else 0) AND 0x7FF
      in 0x69 OR push_bit 8 (ucast addr) OR push_bit 15 (ucast (endp AND 0x0F))
         OR push_bit 19 (if tog \<noteq> 0 then 1 else 0) OR push_bit 21 m1)"

text \<open>
  The loop over the frame slots, from \<open>f\<close> on: \<open>None\<close> when it never ends.  \<open>(f + interval) % 1024\<close> is
  computed in \<open>int\<close> and always fits the 16-bit loop variable.
\<close>

partial_function (option) slot_loop :: "u32 \<Rightarrow> nat \<Rightarrow> nat \<Rightarrow> nat \<Rightarrow> u32 list \<Rightarrow> u32 list option" where
  "slot_loop v step first f fl =
     (if f < 1024
      then if step = 0 then Some fl
           else let fl1 = fl[f := v]; f1 = (f + step) mod 1024
                in if f1 = first then Some fl1 else slot_loop v step first f1 fl1
      else Some fl)"

definition place_qh_every_interval :: "nat \<Rightarrow> 'a uhci_scheme \<Rightarrow> 'a uhci_scheme option" where
  "place_qh_every_interval i s =
     (let p = g_kbd_pipes s ! i;
          (frnum, s1) = in16 (p_io_base p + 6) s;
          start = (frnum AND 0x7FF) + 1;
          first = start mod 1024;
          s2 = s1\<lparr>g_kbd_pipes := (g_kbd_pipes s1)[i := p\<lparr>p_first_slot := first\<rparr>]\<rparr>
      in map_option (\<lambda>fl. s2\<lparr>frame_list := fl\<rparr>)
           (slot_loop (phys (p_qh p) OR 2) (unat (p_interval p)) (unat first) (unat first) (frame_list s2)))"

definition uhci_kbd_rearm_td :: "nat \<Rightarrow> bool \<Rightarrow> 'a uhci_scheme \<Rightarrow> 'a uhci_scheme" where
  "uhci_kbd_rearm_td i advance_toggle s =
     (let p = g_kbd_pipes s ! i;
          p1 = (if advance_toggle then p\<lparr>toggle := toggle p XOR 1\<rparr> else p);
          td = (td_at s (p_td p))\<lparr>token := uhci_build_in_token (dev_addr p1) (p_ep p1) (toggle p1) 8,
                 control_status := TD_ACTLEN_MASK OR (TD_SPD OR TD_IOC OR TD_ACTIVE)\<rparr>
      in s\<lparr>g_kbd_pipes := (g_kbd_pipes s)[i := p1], td_at := (td_at s)(p_td p := td),
           qh_at := (qh_at s)(p_qh p := (qh_at s (p_qh p))\<lparr>vertical_link_pointer := phys (p_td p)\<rparr>)\<rparr>)"

definition dma_clear :: "u64 \<Rightarrow> nat \<Rightarrow> 'a uhci_scheme \<Rightarrow> 'a uhci_scheme" where
  "dma_clear a n s = s\<lparr>dma := fold (\<lambda>i m. m(a + of_nat i := 0)) [0..<n] (dma s)\<rparr>"

definition alloc16 :: "u64 \<Rightarrow> 'a uhci_scheme \<Rightarrow> (u64 \<times> 'a uhci_scheme) option" where
  "alloc16 n s = map_option (\<lambda>(a, h). (a, s\<lparr>heap := h\<rparr>)) (aligned_alloc 16 n (heap s))"

definition free_ptr :: "u64 \<Rightarrow> 'a uhci_scheme \<Rightarrow> 'a uhci_scheme" where
  "free_ptr a s = s\<lparr>heap := aligned_free a (heap s)\<rparr>"

text \<open>Free what is not null, in the order of the code, and clear the pipe.\<close>

definition release_pipe :: "nat \<Rightarrow> 'a uhci_scheme \<Rightarrow> 'a uhci_scheme" where
  "release_pipe i s =
     (let p = g_kbd_pipes s ! i;
          s1 = (if p_td p \<noteq> 0 then free_ptr (p_td p) s else s);
          s2 = (if p_qh p \<noteq> 0 then free_ptr (p_qh p) s1 else s1);
          s3 = (if p_buf p \<noteq> 0 then free_ptr (p_buf p) s2 else s2)
      in s3\<lparr>g_kbd_pipes := (g_kbd_pipes s3)[i := zero_pipe]\<rparr>)"

definition set_pipe :: "nat \<Rightarrow> uhci_kbd_pipe \<Rightarrow> 'a uhci_scheme \<Rightarrow> 'a uhci_scheme" where
  "set_pipe i p s = s\<lparr>g_kbd_pipes := (g_kbd_pipes s)[i := p]\<rparr>"

definition uhci_kbd_open_interrupt_in ::
    "u16 \<Rightarrow> u8 \<Rightarrow> u8 \<Rightarrow> u8 \<Rightarrow> u16 \<Rightarrow> int \<Rightarrow> 'a uhci_scheme \<Rightarrow> (int \<times> 'a uhci_scheme) option" where
  "uhci_kbd_open_interrupt_in io_base addr endpoint_addr interval_frames wMax keyboard_dev_index s =
     (case find (\<lambda>i. \<not> in_use (g_kbd_pipes s ! i)) [0..<UHCI_MAX_KBD_PIPES] of
        None \<Rightarrow> Some (-1, s)
      | Some i \<Rightarrow>
          let p = zero_pipe\<lparr>in_use := True, p_io_base := io_base, dev_addr := addr,
                    p_ep := ep_number_from_addr endpoint_addr,
                    p_interval := (if interval_frames = 0 then 1 else interval_frames),
                    dev_index := word_of_int keyboard_dev_index, toggle := 0\<rparr> in
          do {
            (b, s) \<leftarrow> alloc16 8 s;
            let s = set_pipe i (p\<lparr>p_buf := b\<rparr>) s;
            if b = 0 then Some (-1, release_pipe i s)
            else do {
              let s = dma_clear b 8 s;
              (td, s) \<leftarrow> alloc16 16 s;
              (qh, s) \<leftarrow> alloc16 16 s;
              let s = set_pipe i (p\<lparr>p_buf := b, p_td := td, p_qh := qh\<rparr>) s;
              if td = 0 \<or> qh = 0 then Some (-1, release_pipe i s)
              else do {
                let s = s\<lparr>td_at := (td_at s)(td := zero_td\<lparr>link_pointer := 1, buffer_pointer := phys b\<rparr>),
                          qh_at := (qh_at s)(qh := zero_qh)\<rparr>;
                let s = uhci_kbd_rearm_td i False s;
                let s = s\<lparr>qh_at := (qh_at s)(qh := \<lparr>horizontal_link_pointer = 1, vertical_link_pointer = phys td\<rparr>)\<rparr>;
                s \<leftarrow> place_qh_every_interval i s;
                Some (int i, s)
              }
            }
          })"

definition uhci_kbd_close :: "int \<Rightarrow> 'a uhci_scheme \<Rightarrow> 'a uhci_scheme option" where
  "uhci_kbd_close pipe_id s =
     (if pipe_id < 0 \<or> int UHCI_MAX_KBD_PIPES \<le> pipe_id then Some s
      else let i = nat pipe_id; p = g_kbd_pipes s ! i in
      if \<not> in_use p then Some s
      else do {
        s \<leftarrow> (if p_interval p \<noteq> 0
             then map_option (\<lambda>fl. s\<lparr>frame_list := fl\<rparr>)
                    (slot_loop 1 (unat (p_interval p)) (unat (p_first_slot p)) (unat (p_first_slot p)) (frame_list s))
             else Some s);
        Some (release_pipe i s)
      })"

section \<open>Servicing the keyboard pipes\<close>

definition service_pipe :: "nat \<Rightarrow> 'a uhci_scheme \<Rightarrow> 'a uhci_scheme" where
  "service_pipe i s =
     (let p = g_kbd_pipes s ! i in
      if \<not> in_use p then s
      else let cs = control_status (td_at s (p_td p)) in
      if cs AND TD_ACTIVE \<noteq> 0 then s
      else if cs AND TD_NAK \<noteq> 0 then uhci_kbd_rearm_td i False s
      else if cs AND TD_ERR_MASK \<noteq> 0
      then uhci_kbd_rearm_td i False (on_con (UHCI_WARN ''UHCI KBD TD error (cs=0x%x)'' [Num (ucast cs)]) s)
      else let report = map (\<lambda>k. dma s (p_buf p + of_nat k)) [0..<8]
           in uhci_kbd_rearm_td i True (keyboard_usb_on_boot_report (int (unat (dev_index p))) report s))"

definition uhci_kbd_service :: "'a uhci_scheme \<Rightarrow> 'a uhci_scheme" where
  "uhci_kbd_service s = fold service_pipe [0..<UHCI_MAX_KBD_PIPES] s"

definition uhci_irq_top :: "registers \<Rightarrow> 'a uhci_scheme \<Rightarrow> 'a uhci_scheme" where
  "uhci_irq_top r s =
     (let io = ctx_io_base (g_uhci_ctx s); (st, s1) = in16 (io + 2) s in
      if st = 0 then s1
      else let s2 = out16 (io + 2) st s1;
               s3 = (if st AND 1 \<noteq> 0 then uhci_kbd_service s2 else s2);
               s4 = (if st AND 2 \<noteq> 0
                     then uhci_kbd_service (on_con (UHCI_WARN ''UHCI: USBERRINT (USBSTS=0x%x)'' [Num (ucast st)]) s3)
                     else s3);
               s5 = (if st AND 8 \<noteq> 0
                     then on_con (UHCI_ERR ''UHCI: Host Controller Process Error (USBSTS=0x%x)'' [Num (ucast st)]) s4
                     else s4)
           in if st AND 32 \<noteq> 0 then on_con (UHCI_WARN ''UHCI: HCHalted observed'' []) s5 else s5)"


section \<open>The frame slots of a pipe\<close>

text \<open>Stepping through 1024 slots by \<open>step\<close> from \<open>first\<close>: where the walk is after \<open>k\<close> steps, and after how many it closes.\<close>

definition walk :: "nat \<Rightarrow> nat \<Rightarrow> nat \<Rightarrow> nat" where
  "walk step first k = (first + k * step) mod 1024"

definition period :: "nat \<Rightarrow> nat" where
  "period step = 1024 div gcd step 1024"

lemma period_pos: "0 < period step"
  by (simp add: period_def div_greater_zero_iff dvd_imp_le)

lemma walk_less [simp]: "walk step first k < 1024"
  by (simp add: walk_def)

lemma walk_Suc: "(walk step first k + step) mod 1024 = walk step first (Suc k)"
  by (simp add: walk_def mod_simps) (simp add: algebra_simps)

lemma slots_dvd: "1024 dvd k * step \<longleftrightarrow> period step dvd k"
proof -
  let ?g = "gcd step 1024"
  have "coprime (period step) (step div ?g)"
    unfolding period_def using div_gcd_coprime [of step 1024] by (simp add: coprime_commute)
  moreover have "1024 = period step * ?g" "step = (step div ?g) * ?g" "?g \<noteq> 0" by (simp_all add: period_def)
  then have "1024 dvd k * step \<longleftrightarrow> period step * ?g dvd (k * (step div ?g)) * ?g" by (metis mult.assoc)
  moreover have "\<dots> \<longleftrightarrow> period step dvd k * (step div ?g)" using \<open>?g \<noteq> 0\<close> by (rule dvd_times_right_cancel_iff)
  ultimately show ?thesis using coprime_dvd_mult_left_iff by blast
qed

lemma walk_eq_iff:
  assumes "j \<le> k"
  shows "walk step first j = walk step first k \<longleftrightarrow> period step dvd k - j"
proof -
  have "walk step first k = walk step first j \<longleftrightarrow> 1024 dvd (first + k * step) - (first + j * step)"
    unfolding walk_def using assms by (intro mod_eq_dvd_iff_nat) simp
  also have "(first + k * step) - (first + j * step) = (k - j) * step" by (simp add: diff_mult_distrib)
  finally show ?thesis by (auto simp: slots_dvd)
qed

lemma walk_inj: "inj_on (walk step first) {0..<period step}"
proof (rule linorder_inj_onI)
  fix j k assume "j < k" "j \<in> {0..<period step}" "k \<in> {0..<period step}"
  then show "walk step first j \<noteq> walk step first k"
    using walk_eq_iff [of j k step first] by (auto dest: dvd_imp_le)
qed auto

lemma walk_image: "walk step first ` {0..<period step} = {f. f < 1024 \<and> f mod gcd step 1024 = first mod gcd step 1024}"
proof (rule card_subset_eq)
  let ?g = "gcd step 1024" and ?S = "{f. f < 1024 \<and> f mod gcd step 1024 = first mod gcd step 1024}"
  have g: "?g dvd 1024" "?g dvd step" "0 < ?g" by simp_all
  show "finite ?S" by simp
  show "walk step first ` {0..<period step} \<subseteq> ?S"
  proof
    fix f assume "f \<in> walk step first ` {0..<period step}"
    then obtain k where k: "f = walk step first k" by auto
    obtain q where q: "step = ?g * q" using g(2) by (rule dvdE)
    have "walk step first k mod ?g = (first + k * step) mod ?g" by (simp add: walk_def mod_mod_cancel g(1))
    also have "\<dots> = (first + k * (?g * q)) mod ?g" by (subst q) simp
    also have "\<dots> = (first + (k * q) * ?g) mod ?g" by (simp only: ac_simps)
    also have "\<dots> = first mod ?g" by (rule mod_mult_self1)
    finally show "f \<in> ?S" using k by simp
  qed
  have "?S = (\<lambda>q. q * ?g + first mod ?g) ` {0..<period step}" (is "_ = ?f ` _")
  proof (intro equalityI subsetI)
    fix f assume f: "f \<in> ?S"
    then have "f = ?f (f div ?g)" by simp (metis div_mult_mod_eq)
    moreover have "f div ?g < period step"
      using f g by (simp add: period_def less_mult_imp_div_less)
    ultimately show "f \<in> ?f ` {0..<period step}" by auto
  next
    fix f assume "f \<in> ?f ` {0..<period step}"
    then obtain q where q: "f = ?f q" "q < period step" by auto
    have "?f q < (q + 1) * ?g" using g by simp
    also have "\<dots> \<le> period step * ?g" using q(2) by (intro mult_le_mono1) simp
    also have "\<dots> = 1024" by (simp add: period_def)
    finally show "f \<in> ?S" using q(1) by simp
  qed
  then have "card ?S = card (?f ` {0..<period step})" by simp
  also have "\<dots> = period step" using g(3) by (subst card_image) (auto simp: inj_on_def)
  finally show "card (walk step first ` {0..<period step}) = card ?S"
    using card_image [OF walk_inj, of step first] by simp
qed


lemma slot_loop_walk:
  assumes "first < 1024" and "step \<noteq> 0" and "k < period step"
  shows "slot_loop v step first (walk step first k) fl =
    Some (fold (\<lambda>j fl. fl[walk step first j := v]) [k..<period step] fl)"
  using assms(3)
proof (induction "period step - k" arbitrary: k fl)
  case (Suc n)
  have first: "walk step first (Suc k) = first \<longleftrightarrow> Suc k = period step"
    using walk_eq_iff [of 0 "Suc k" step first] assms(1) Suc.prems by (auto simp: walk_def dest: dvd_imp_le)
  have up: "[k..<period step] = k # [Suc k..<period step]" using Suc.prems by (simp add: upt_conv_Cons)
  show ?case
  proof (cases "Suc k = period step")
    case True
    then show ?thesis using first assms(2) up by (subst slot_loop.simps) (simp add: walk_Suc Let_def)
  next
    case False
    then have "slot_loop v step first (walk step first (Suc k)) (fl[walk step first k := v]) =
        Some (fold (\<lambda>j fl. fl[walk step first j := v]) [Suc k..<period step] (fl[walk step first k := v]))"
      using Suc by (intro Suc.hyps(1)) auto
    then show ?thesis using False first assms(2) up by (subst slot_loop.simps) (simp add: walk_Suc Let_def)
  qed
qed simp

lemma fold_update_nth:
  "fold (\<lambda>j fl. fl[w j := v]) js fl = map (\<lambda>i. if i \<in> w ` set js then v else fl ! i) [0..<length fl]"
  by (induction js arbitrary: fl) (auto intro!: nth_equalityI simp: nth_list_update)

definition fill_slots :: "u32 \<Rightarrow> nat \<Rightarrow> nat \<Rightarrow> u32 list \<Rightarrow> u32 list" where
  "fill_slots v step first fl =
     map (\<lambda>f. if f mod gcd step 1024 = first mod gcd step 1024 then v else fl ! f) [0..<1024]"

lemma slot_loop_fills:
  assumes "first < 1024" and "step \<noteq> 0" and "length fl = 1024"
  shows "slot_loop v step first first fl = Some (fill_slots v step first fl)"
proof -
  have "walk step first 0 = first" using assms(1) by (simp add: walk_def)
  then have "slot_loop v step first first fl = Some (fold (\<lambda>j fl. fl[walk step first j := v]) [0..<period step] fl)"
    using slot_loop_walk [OF assms(1,2) period_pos, of v fl] by simp
  then show ?thesis
    using walk_image [of step first] assms(3) by (auto simp: fold_update_nth fill_slots_def)
qed

lemma length_fill_slots [simp]: "length (fill_slots v step first fl) = 1024"
  by (simp add: fill_slots_def)

lemma fill_slots_again: "fill_slots v step first (fill_slots v' step first fl) = fill_slots v step first fl"
  by (auto simp: fill_slots_def)


lemma place_qh_fills:
  assumes "i < length (g_kbd_pipes s)" and "p_interval (g_kbd_pipes s ! i) \<noteq> 0" and "length (frame_list s) = 1024"
  shows "\<exists>s' first. place_qh_every_interval i s = Some s' \<and> first < 1024 \<and>
    (\<exists>c. s' = s\<lparr>con := c, g_kbd_pipes := (g_kbd_pipes s)[i := (g_kbd_pipes s ! i)\<lparr>p_first_slot := of_nat first\<rparr>],
      frame_list := fill_slots (phys (p_qh (g_kbd_pipes s ! i)) OR 2) (unat (p_interval (g_kbd_pipes s ! i))) first (frame_list s)\<rparr>)"
proof -
  let ?p = "g_kbd_pipes s ! i"
  obtain v m where v: "port_word_in (p_io_base ?p + 6) (mach (con s)) = (v, m)" by fastforce
  let ?w = "((v AND 0x7FF) + 1) mod 1024"
  have w: "unat ?w < 1024" by (simp add: unat_mod)
  have step: "unat (p_interval ?p) \<noteq> 0" using assms(2) by (simp add: unat_gt_0)
  have "place_qh_every_interval i s = Some (s\<lparr>con := (con s)\<lparr>mach := m\<rparr>,
      g_kbd_pipes := (g_kbd_pipes s)[i := ?p\<lparr>p_first_slot := ?w\<rparr>],
      frame_list := fill_slots (phys (p_qh ?p) OR 2) (unat (p_interval ?p)) (unat ?w) (frame_list s)\<rparr>)"
    using slot_loop_fills [OF w step assms(3)] by (simp add: place_qh_every_interval_def in16_def v Let_def)
  then show ?thesis using w
    by (intro exI [of _ "s\<lparr>con := (con s)\<lparr>mach := m\<rparr>,
      g_kbd_pipes := (g_kbd_pipes s)[i := ?p\<lparr>p_first_slot := ?w\<rparr>],
      frame_list := fill_slots (phys (p_qh ?p) OR 2) (unat (p_interval ?p)) (unat ?w) (frame_list s)\<rparr>"] exI [of _ "unat ?w"])
      (auto intro: exI [of _ "(con s)\<lparr>mach := m\<rparr>"])
qed

lemma kbd_close_fills:
  assumes "i < 4" and "in_use (g_kbd_pipes s ! i)" and "p_interval (g_kbd_pipes s ! i) \<noteq> 0"
    and "unat (p_first_slot (g_kbd_pipes s ! i)) < 1024" and "length (frame_list s) = 1024" and "i < length (g_kbd_pipes s)"
  shows "\<exists>s'. uhci_kbd_close (int i) s = Some s' \<and> g_kbd_pipes s' = (g_kbd_pipes s)[i := zero_pipe] \<and>
    frame_list s' = fill_slots 1 (unat (p_interval (g_kbd_pipes s ! i))) (unat (p_first_slot (g_kbd_pipes s ! i))) (frame_list s)"
proof -
  have step: "unat (p_interval (g_kbd_pipes s ! i)) \<noteq> 0" using assms(3) by (simp add: unat_gt_0)
  show ?thesis
    using slot_loop_fills [OF assms(4) step assms(5), of 1] assms
    by (simp add: uhci_kbd_close_def UHCI_MAX_KBD_PIPES_def Let_def release_pipe_def free_ptr_def)
qed

section \<open>The keyboard layer and the driver\<close>

text \<open>
  The keyboard layer works on its part of the state (\<open>usb_kbd.truncate\<close>) and does not see the rest
  (\<open>usb_kbd.more\<close>): dispatching commutes with the projection and keeps the rest.
\<close>

lemma fold_hom: "(\<And>x s. h (f x s) = g x (h s)) \<Longrightarrow> h (fold f xs s) = fold g xs (h s)"
  by (induction xs arbitrary: s) simp_all

lemma truncate_fields [simp]:
  "con (usb_kbd.truncate s) = con s" "ev_ring (usb_kbd.truncate s) = ev_ring s"
  "ascii_ring (usb_kbd.truncate s) = ascii_ring s" "g_auto_echo (usb_kbd.truncate s) = g_auto_echo s"
  "g_mods (usb_kbd.truncate s) = g_mods s" "tbl_norm (usb_kbd.truncate s) = tbl_norm s"
  "tbl_shift (usb_kbd.truncate s) = tbl_shift s" "g_kbds (usb_kbd.truncate s) = g_kbds s"
  by (simp_all add: usb_kbd.defs)

lemma truncate_update [simp]:
  "usb_kbd.truncate (s\<lparr>con := a\<rparr>) = (usb_kbd.truncate s)\<lparr>con := a\<rparr>"
  "usb_kbd.truncate (s\<lparr>ev_ring := b\<rparr>) = (usb_kbd.truncate s)\<lparr>ev_ring := b\<rparr>"
  "usb_kbd.truncate (s\<lparr>ascii_ring := d\<rparr>) = (usb_kbd.truncate s)\<lparr>ascii_ring := d\<rparr>"
  "usb_kbd.truncate (s\<lparr>g_mods := e\<rparr>) = (usb_kbd.truncate s)\<lparr>g_mods := e\<rparr>"
  "usb_kbd.truncate (s\<lparr>g_kbds := f\<rparr>) = (usb_kbd.truncate s)\<lparr>g_kbds := f\<rparr>"
  by (simp_all add: usb_kbd.defs)

lemma truncate_upd:
  "usb_kbd.truncate x = y \<Longrightarrow> usb_kbd.truncate (x\<lparr>g_kbds := F (g_kbds x)\<rparr>) = y\<lparr>g_kbds := F (g_kbds y)\<rparr>"
  by (auto simp: usb_kbd.defs)

lemma dispatch_truncate: "usb_kbd.truncate (kbd_dispatch_event e s) = kbd_dispatch_event e (usb_kbd.truncate s)"
  by (simp add: kbd_dispatch_event_def push_event_def push_ascii_def kb_console_putc_def Let_def)

lemma dispatch_more: "usb_kbd.more (kbd_dispatch_event e s) = usb_kbd.more s"
  by (simp add: kbd_dispatch_event_def push_event_def push_ascii_def kb_console_putc_def Let_def)

lemma deltas_truncate:
  "usb_kbd.truncate (emit_modifier_deltas a b d s) = emit_modifier_deltas a b d (usb_kbd.truncate s)"
  unfolding emit_modifier_deltas_def Let_def
  by (rule fold_hom) (auto simp: emit_key_def dispatch_truncate)

lemma ascii_truncate: "hid_usage_to_ascii u m (usb_kbd.truncate s) = hid_usage_to_ascii u m s"
  by (simp add: hid_usage_to_ascii_def kbd_layout_ascii_from_set1_def Let_def)

lemma mods_truncate: "kbd_mods_state (usb_kbd.truncate s) = kbd_mods_state s"
  by (simp add: kbd_mods_state_def)

lemma release_truncate: "usb_kbd.truncate (emit_release r m d u s) = emit_release r m d u (usb_kbd.truncate s)"
  by (simp add: emit_release_def emit_key_def dispatch_truncate ascii_truncate Let_def)

lemma press_truncate: "usb_kbd.truncate (emit_press r m d u s) = emit_press r m d u (usb_kbd.truncate s)"
  by (simp add: emit_press_def emit_key_def dispatch_truncate ascii_truncate mods_truncate Let_def)

lemma boot_report_truncate:
  "usb_kbd.truncate (keyboard_usb_on_boot_report i r s) = keyboard_usb_on_boot_report i r (usb_kbd.truncate s)"
  for s :: "'b usb_kbd_scheme"
proof -
  have "usb_kbd.truncate (fold (emit_release x m d) us t) = fold (emit_release x m d) us (usb_kbd.truncate t)"
    for x m d us and t :: "'b usb_kbd_scheme" by (rule fold_hom) (rule release_truncate)
  moreover have "usb_kbd.truncate (fold (emit_press x m d) us t) = fold (emit_press x m d) us (usb_kbd.truncate t)"
    for x m d us and t :: "'b usb_kbd_scheme" by (rule fold_hom) (rule press_truncate)
  ultimately have "usb_kbd.truncate (fold (emit_press a m d) us (fold (emit_release r m d) vs
        (if b then emit_modifier_deltas x y d s else s))) =
      fold (emit_press a m d) us (fold (emit_release r m d) vs
        (if b then emit_modifier_deltas x y d (usb_kbd.truncate s) else usb_kbd.truncate s))" for a b d m us vs x y
    by (simp add: deltas_truncate)
  note upd = truncate_upd [OF this, of "\<lambda>l. l[nat i := (l ! nat i)\<lparr>last_mods := r ! 0, last_report := take 8 r\<rparr>]"]
  show ?thesis unfolding keyboard_usb_on_boot_report_def Let_def truncate_fields by (simp only: if_distrib [of usb_kbd.truncate] upd)
qed

lemma fold_keeps: "(\<And>x s. h (f x s) = h s) \<Longrightarrow> h (fold f xs s) = h s"
  by (induction xs arbitrary: s) simp_all

lemma boot_report_more: "usb_kbd.more (keyboard_usb_on_boot_report i r s) = usb_kbd.more s" for s :: "'b usb_kbd_scheme"
proof -
  have "usb_kbd.more (emit_modifier_deltas a b d s) = usb_kbd.more s" for a b d and s :: "'b usb_kbd_scheme"
    unfolding emit_modifier_deltas_def Let_def by (rule fold_keeps) (auto simp: emit_key_def dispatch_more)
  moreover have "usb_kbd.more (fold (emit_release x m d) us s) = usb_kbd.more s" for x m d us and s :: "'b usb_kbd_scheme"
    by (rule fold_keeps) (simp add: emit_release_def emit_key_def dispatch_more Let_def)
  moreover have "usb_kbd.more (fold (emit_press x m d) us s) = usb_kbd.more s" for x m d us and s :: "'b usb_kbd_scheme"
    by (rule fold_keeps) (simp add: emit_press_def emit_key_def dispatch_more Let_def)
  ultimately show ?thesis by (simp add: keyboard_usb_on_boot_report_def Let_def)
qed

lemma uhci_more_fields:
  assumes "usb_kbd.more s = usb_kbd.more t"
  shows "td_at s = td_at t" and "qh_at s = qh_at t" and "g_kbd_pipes s = g_kbd_pipes t" and "dma s = dma t"
  using assms by (cases s; cases t; simp)+

lemmas boot_report_keeps [simp] = uhci_more_fields [OF boot_report_more]

section \<open>Servicing\<close>

definition ARMED :: u32 where
  "ARMED = TD_ACTLEN_MASK OR (TD_SPD OR TD_IOC OR TD_ACTIVE)"

definition idle_td :: "'a uhci_scheme \<Rightarrow> nat \<Rightarrow> bool" where
  "idle_td s i \<longleftrightarrow> in_use (g_kbd_pipes s ! i) \<and> control_status (td_at s (p_td (g_kbd_pipes s ! i))) AND TD_ACTIVE = 0"

definition completed :: "'a uhci_scheme \<Rightarrow> nat \<Rightarrow> bool" where
  "completed s i \<longleftrightarrow> idle_td s i \<and> control_status (td_at s (p_td (g_kbd_pipes s ! i))) AND TD_NAK = 0 \<and>
     control_status (td_at s (p_td (g_kbd_pipes s ! i))) AND TD_ERR_MASK = 0"

definition report_of :: "'a uhci_scheme \<Rightarrow> nat \<Rightarrow> u8 list" where
  "report_of s i = map (\<lambda>k. dma s (p_buf (g_kbd_pipes s ! i) + of_nat k)) [0..<8]"

definition serviced_pipe :: "'a uhci_scheme \<Rightarrow> nat \<Rightarrow> uhci_kbd_pipe" where
  "serviced_pipe s i = (let p = g_kbd_pipes s ! i in if completed s i then p\<lparr>toggle := toggle p XOR 1\<rparr> else p)"

definition rearmed_td :: "'a uhci_scheme \<Rightarrow> nat \<Rightarrow> uhci_td" where
  "rearmed_td s i = (let p = serviced_pipe s i in
     (td_at s (p_td p))\<lparr>token := uhci_build_in_token (dev_addr p) (p_ep p) (toggle p) 8, control_status := ARMED\<rparr>)"

text \<open>What the keyboard layer sees of servicing one pipe.\<close>

definition pipe_effect :: "'a uhci_scheme \<Rightarrow> nat \<Rightarrow> usb_kbd \<Rightarrow> usb_kbd" where
  "pipe_effect s i k =
     (let cs = control_status (td_at s (p_td (g_kbd_pipes s ! i))) in
      if \<not> idle_td s i then k
      else if completed s i then keyboard_usb_on_boot_report (int (unat (dev_index (g_kbd_pipes s ! i)))) (report_of s i) k
      else if cs AND TD_NAK \<noteq> 0 then k
      else on_con (UHCI_WARN ''UHCI KBD TD error (cs=0x%x)'' [Num (ucast cs)]) k)"

lemma truncate_rearm [simp]: "usb_kbd.truncate (uhci_kbd_rearm_td i b s) = usb_kbd.truncate s"
  by (simp add: uhci_kbd_rearm_td_def Let_def usb_kbd.defs)

lemma service_pipe_step:
  shows "g_kbd_pipes (service_pipe i s) = (if idle_td s i then (g_kbd_pipes s)[i := serviced_pipe s i] else g_kbd_pipes s)"
    and "td_at (service_pipe i s) =
      (if idle_td s i then (td_at s)(p_td (g_kbd_pipes s ! i) := rearmed_td s i) else td_at s)"
    and "dma (service_pipe i s) = dma s"
    and "usb_kbd.truncate (service_pipe i s) = pipe_effect s i (usb_kbd.truncate s)"
proof -
  let ?cs = "control_status (td_at s (p_td (g_kbd_pipes s ! i)))"
  note defs = service_pipe_def Let_def idle_td_def completed_def serviced_pipe_def rearmed_td_def ARMED_def
    uhci_kbd_rearm_td_def
  show "g_kbd_pipes (service_pipe i s) = (if idle_td s i then (g_kbd_pipes s)[i := serviced_pipe s i] else g_kbd_pipes s)"
    by (simp add: defs)
  show "td_at (service_pipe i s) =
      (if idle_td s i then (td_at s)(p_td (g_kbd_pipes s ! i) := rearmed_td s i) else td_at s)"
    by (simp add: defs)
  show "dma (service_pipe i s) = dma s" by (simp add: defs)
  show "usb_kbd.truncate (service_pipe i s) = pipe_effect s i (usb_kbd.truncate s)"
    by (simp add: service_pipe_def pipe_effect_def idle_td_def completed_def report_of_def Let_def boot_report_truncate)
qed

definition separate_pipes :: "'a uhci_scheme \<Rightarrow> bool" where
  "separate_pipes s \<longleftrightarrow> length (g_kbd_pipes s) = 4 \<and>
     (\<forall>i j. i < 4 \<longrightarrow> j < 4 \<longrightarrow> in_use (g_kbd_pipes s ! i) \<longrightarrow> in_use (g_kbd_pipes s ! j) \<longrightarrow>
            p_td (g_kbd_pipes s ! i) = p_td (g_kbd_pipes s ! j) \<longrightarrow> i = j)"

definition serviced_upto :: "nat \<Rightarrow> 'a uhci_scheme \<Rightarrow> 'a uhci_scheme \<Rightarrow> bool" where
  "serviced_upto n s s' \<longleftrightarrow> length (g_kbd_pipes s') = 4 \<and> dma s' = dma s \<and>
     usb_kbd.truncate s' = fold (pipe_effect s) [0..<n] (usb_kbd.truncate s) \<and>
     (\<forall>i < 4. g_kbd_pipes s' ! i = (if i < n then serviced_pipe s i else g_kbd_pipes s ! i) \<and>
        (in_use (g_kbd_pipes s ! i) \<longrightarrow> td_at s' (p_td (g_kbd_pipes s ! i)) =
           (if i < n \<and> idle_td s i then rearmed_td s i else td_at s (p_td (g_kbd_pipes s ! i)))))"

lemma serviced_pipe_fields [simp]:
  "in_use (serviced_pipe s i) = in_use (g_kbd_pipes s ! i)" "p_td (serviced_pipe s i) = p_td (g_kbd_pipes s ! i)"
  "dev_addr (serviced_pipe s i) = dev_addr (g_kbd_pipes s ! i)" "p_ep (serviced_pipe s i) = p_ep (g_kbd_pipes s ! i)"
  by (simp_all add: serviced_pipe_def Let_def)

lemma service_next:
  assumes "separate_pipes s" and "serviced_upto n s s'" and n: "n < 4"
  shows "serviced_upto (Suc n) s (service_pipe n s')"
proof -
  let ?p = "g_kbd_pipes s ! n"
  have pn: "g_kbd_pipes s' ! n = ?p" "dma s' = dma s" "length (g_kbd_pipes s') = 4"
    using assms(2) n by (simp_all add: serviced_upto_def)
  have td: "td_at s' (p_td ?p) = td_at s (p_td ?p)" if "in_use ?p"
    using assms(2) n that by (simp add: serviced_upto_def)
  have same: "idle_td s' n = idle_td s n" "completed s' n = completed s n" "report_of s' n = report_of s n"
      "serviced_pipe s' n = serviced_pipe s n"
    using pn td by (auto simp: idle_td_def completed_def report_of_def serviced_pipe_def Let_def)
  have td': "rearmed_td s' n = rearmed_td s n" if "idle_td s n"
    using that td same pn by (simp add: rearmed_td_def idle_td_def Let_def)
  have eff: "pipe_effect s' n = pipe_effect s n"
    using pn td same by (auto simp: pipe_effect_def idle_td_def fun_eq_iff Let_def)
  have keep: "serviced_pipe s n = ?p" if "\<not> idle_td s n" using that by (simp add: serviced_pipe_def completed_def)
  have other: "p_td (g_kbd_pipes s ! i) \<noteq> p_td ?p" if "i < 4" "i \<noteq> n" "in_use (g_kbd_pipes s ! i)" "idle_td s n" for i
    using assms(1) that n by (auto simp: separate_pipes_def idle_td_def)
  show ?thesis
    using assms(2) n pn td' keep other eff unfolding serviced_upto_def service_pipe_step same
    by (auto simp: less_Suc_eq nth_list_update)
qed

lemma kbd_service_all:
  assumes "separate_pipes s"
  shows "serviced_upto 4 s (uhci_kbd_service s)"
proof -
  have "serviced_upto n s (fold service_pipe [0..<n] s)" if "n \<le> 4" for n
    using that
  proof (induction n)
    case 0
    then show ?case using assms by (simp add: serviced_upto_def separate_pipes_def)
  next
    case (Suc n)
    then show ?case using service_next [OF assms, of n] by simp
  qed
  then show ?thesis by (simp add: uhci_kbd_service_def UHCI_MAX_KBD_PIPES_def)
qed

section \<open>Properties\<close>

definition demo_pipe :: uhci_kbd_pipe where
  "demo_pipe = zero_pipe\<lparr>in_use := True, p_io_base := 0xC040, dev_addr := 1, p_ep := 1, p_interval := 10, p_buf := 0x1000,
     p_td := 0x2000, p_qh := 0x3000\<rparr>"

text \<open>A keyboard pipe with interval 10 whose descriptor has completed; the report says that key \<open>a\<close> is down.\<close>

definition demo_uhci :: uhci where
  "demo_uhci = pci.extend demo_pci
     \<lparr>usb_controllers = replicate 16 \<lparr>uc_pci_device = None, base_address = 0\<rparr>, usb_controller_count = 0,
      usb_devices = replicate 128 zero_usb_device, usb_device_count = 0, frame_list = replicate 1024 1,
      heap = heap_init 0x200000, td_at = (\<lambda>_. zero_td), qh_at = (\<lambda>_. zero_qh),
      dma = (\<lambda>a. if a = 0x1002 then 4 else 0), g_uhci_ctx = \<lparr>ctx_io_base = 0, irq_line = 0\<rparr>,
      g_kbd_pipes = [demo_pipe, zero_pipe, zero_pipe, zero_pipe]\<rparr>"

lemma demo_uhci_fields [simp]:
  "frame_list demo_uhci = replicate 1024 1" "g_kbd_pipes demo_uhci = [demo_pipe, zero_pipe, zero_pipe, zero_pipe]"
  "td_at demo_uhci = (\<lambda>_. zero_td)" "usb_device_count demo_uhci = 0" "heap demo_uhci = heap_init 0x200000"
  "con demo_uhci = con demo_pci"
  by (simp_all add: demo_uhci_def pci.defs)

lemma demo_separate: "separate_pipes demo_uhci"
  by (simp add: separate_pipes_def zero_pipe_def nth_Cons' demo_pipe_def)

text \<open>
  C24. The slots of a keyboard pipe: for every polling interval except 0 the loop that schedules the
  queue head returns, and it fills exactly the slots congruent to the first one modulo
  \<open>gcd interval 1024\<close>, leaving the others alone; so the keyboard is polled every \<open>interval\<close> frames when
  the interval is a power of two, and more often otherwise.  Closing the pipe empties exactly the
  slots it had filled and clears the pipe.
\<close>

theorem keyboard_slots:
  assumes "i < 4" and "length (g_kbd_pipes s) = 4" and "in_use (g_kbd_pipes s ! i)"
    and "p_interval (g_kbd_pipes s ! i) \<noteq> 0" and "length (frame_list s) = 1024"
  shows "\<exists>s' s'' first. place_qh_every_interval i s = Some s' \<and> uhci_kbd_close (int i) s' = Some s'' \<and>
    frame_list s' = map (\<lambda>f. if f mod gcd (unat (p_interval (g_kbd_pipes s ! i))) 1024 =
                               first mod gcd (unat (p_interval (g_kbd_pipes s ! i))) 1024
                             then phys (p_qh (g_kbd_pipes s ! i)) OR 2 else frame_list s ! f) [0..<1024] \<and>
    frame_list s'' = map (\<lambda>f. if f mod gcd (unat (p_interval (g_kbd_pipes s ! i))) 1024 =
                               first mod gcd (unat (p_interval (g_kbd_pipes s ! i))) 1024
                             then 1 else frame_list s ! f) [0..<1024] \<and>
    g_kbd_pipes s'' ! i = zero_pipe"
proof -
  let ?p = "g_kbd_pipes s ! i"
  obtain s' first c where s': "place_qh_every_interval i s = Some s'" "first < 1024"
      "s' = s\<lparr>con := c, g_kbd_pipes := (g_kbd_pipes s)[i := ?p\<lparr>p_first_slot := of_nat first\<rparr>],
        frame_list := fill_slots (phys (p_qh ?p) OR 2) (unat (p_interval ?p)) first (frame_list s)\<rparr>"
    using place_qh_fills [of i s] assms by auto
  have "unat (of_nat first :: u16) = first" using s'(2) by (simp add: unat_of_nat)
  then obtain s'' where "uhci_kbd_close (int i) s' = Some s''" "g_kbd_pipes s'' ! i = zero_pipe"
      "frame_list s'' = fill_slots 1 (unat (p_interval ?p)) first (frame_list s)"
    using kbd_close_fills [of i s'] s' assms by (auto simp: fill_slots_again)
  then show ?thesis using s'(1,3) by (auto simp: fill_slots_def)
qed


theorem keyboard_slots_witness:
  "\<exists>s' s'' first. place_qh_every_interval 0 demo_uhci = Some s' \<and> uhci_kbd_close 0 s' = Some s'' \<and>
     frame_list s' = map (\<lambda>f. if f mod 2 = first mod 2 then 0x3002 else 1) [0..<1024] \<and>
     frame_list s'' = replicate 1024 1"
proof -
  have g: "gcd (unat (p_interval demo_pipe)) 1024 = 2"
    by (simp add: demo_pipe_def) (simp add: gcd_nat.simps)
  have q: "phys (p_qh demo_pipe) OR 2 = 0x3002" by (simp add: demo_pipe_def phys_def get_physical_address_def)
  have p: "g_kbd_pipes demo_uhci ! 0 = demo_pipe" by simp
  have e: "map (\<lambda>f. if f mod 2 = first mod 2 then v else frame_list demo_uhci ! f) [0..<1024] =
      map (\<lambda>f. if f mod 2 = first mod 2 then v else 1) [0..<1024]" for first v
    by simp
  have r: "map (\<lambda>f. if f mod 2 = first mod 2 then 1 else 1 :: u32) [0..<1024] = replicate 1024 1" for first
    by (auto intro!: nth_equalityI)
  have "0 < (4 :: nat)" "length (g_kbd_pipes demo_uhci) = 4" "in_use (g_kbd_pipes demo_uhci ! 0)"
      "p_interval (g_kbd_pipes demo_uhci ! 0) \<noteq> 0" "length (frame_list demo_uhci) = 1024"
    by (simp_all add: demo_pipe_def)
  from keyboard_slots [OF this] show ?thesis unfolding p g q e r int_ops(1) by blast
qed

text \<open>
  C14. Servicing the keyboard pipes (at most four, with separate descriptors): afterwards every pipe
  in use is armed, the data toggle of a pipe has changed exactly when its report was consumed and
  a consumed pipe's token carries the new toggle; the keyboard layer has seen exactly the reports of
  the pipes that completed without error, in the order of the pipes, plus a warning for each pipe
  with an error, and nothing of a pipe that is still active or was answered with NAK.
\<close>

theorem kbd_service_correct:
  assumes "separate_pipes s"
  shows "(\<forall>i < 4. in_use (g_kbd_pipes s ! i) \<longrightarrow>
      control_status (td_at (uhci_kbd_service s) (p_td (g_kbd_pipes s ! i))) AND TD_ACTIVE \<noteq> 0 \<and>
      toggle (g_kbd_pipes (uhci_kbd_service s) ! i) =
        (if completed s i then toggle (g_kbd_pipes s ! i) XOR 1 else toggle (g_kbd_pipes s ! i)) \<and>
      (completed s i \<longrightarrow> token (td_at (uhci_kbd_service s) (p_td (g_kbd_pipes s ! i))) =
         uhci_build_in_token (dev_addr (g_kbd_pipes s ! i)) (p_ep (g_kbd_pipes s ! i)) (toggle (g_kbd_pipes s ! i) XOR 1) 8)) \<and>
    usb_kbd.truncate (uhci_kbd_service s) = fold (pipe_effect s) [0..<4] (usb_kbd.truncate s)"
proof -
  have "control_status (rearmed_td s i) AND TD_ACTIVE \<noteq> 0" for i
    by (simp add: rearmed_td_def ARMED_def td_consts Let_def)
  moreover have "completed s i \<Longrightarrow> idle_td s i" for i by (simp add: completed_def)
  ultimately show ?thesis
    using kbd_service_all [OF assms]
    by (auto simp: serviced_upto_def rearmed_td_def serviced_pipe_def idle_td_def Let_def)
qed


theorem kbd_service_correct_witness:
  "completed demo_uhci 0 \<and> toggle (g_kbd_pipes (uhci_kbd_service demo_uhci) ! 0) = 1 \<and>
   usb_kbd.truncate (uhci_kbd_service demo_uhci) = fold (pipe_effect demo_uhci) [0..<4] (usb_kbd.truncate demo_uhci)"
proof -
  have "completed demo_uhci 0" "in_use demo_pipe" "toggle demo_pipe = 0"
    by (simp_all add: completed_def idle_td_def demo_pipe_def zero_td_def zero_pipe_def)
  then show ?thesis
    using kbd_service_correct [OF demo_separate] by auto
qed

end
