(* ===== verification/Uhci_Transfer.thy ===== *)
theory Uhci_Transfer
  imports Uhci
begin

text \<open>
  \<^verbatim>\<open>src/drivers/usb/uhci/transfer.c\<close>: the control transfers on endpoint 0.

  Each routine allocates a setup packet, transfer descriptors and a queue head, links them, puts the
  queue head into one or two slots of the frame list, waits for the controller and reads the status
  back.  The results are 1 (done) and 0, here \<open>True\<close> and \<open>False\<close>.
\<close>

section \<open>Building blocks\<close>

record usb_setup_packet =
  bmRequestType :: u8
  bRequest :: u8
  wValue :: u16
  wIndex :: u16
  wLength :: u16

definition setup_bytes :: "usb_setup_packet \<Rightarrow> u8 list" where
  "setup_bytes p = [bmRequestType p, bRequest p, ucast (wValue p), ucast (drop_bit 8 (wValue p)),
     ucast (wIndex p), ucast (drop_bit 8 (wIndex p)), ucast (wLength p), ucast (drop_bit 8 (wLength p))]"

definition put_setup :: "u64 \<Rightarrow> usb_setup_packet \<Rightarrow> 'a uhci_scheme \<Rightarrow> 'a uhci_scheme" where
  "put_setup a p s = s\<lparr>dma := fold (\<lambda>i m. m(a + of_nat i := setup_bytes p ! i)) [0..<8] (dma s)\<rparr>"

definition put_td :: "u64 \<Rightarrow> uhci_td \<Rightarrow> 'a uhci_scheme \<Rightarrow> 'a uhci_scheme" where
  "put_td a td s = s\<lparr>td_at := (td_at s)(a := td)\<rparr>"

definition put_qh :: "u64 \<Rightarrow> uhci_qh \<Rightarrow> 'a uhci_scheme \<Rightarrow> 'a uhci_scheme" where
  "put_qh a qh s = s\<lparr>qh_at := (qh_at s)(a := qh)\<rparr>"

definition set_slot :: "u16 \<Rightarrow> u32 \<Rightarrow> 'a uhci_scheme \<Rightarrow> 'a uhci_scheme" where
  "set_slot fr v s = s\<lparr>frame_list := (frame_list s)[unat fr mod 1024 := v]\<rparr>"

text \<open>\<open>frame_list[fr % 1024]\<close> and \<open>frame_list[(fr + 1) % 1024]\<close>.\<close>

definition set_two_slots :: "u16 \<Rightarrow> u32 \<Rightarrow> 'a uhci_scheme \<Rightarrow> 'a uhci_scheme" where
  "set_two_slots fr v s = set_slot (fr + 1) v (set_slot fr v s)"

definition uhci_err :: "string \<Rightarrow> va_arg list \<Rightarrow> 'a uhci_scheme \<Rightarrow> 'a uhci_scheme" where
  "uhci_err fmt args s = on_con (UHCI_ERR fmt args) s"

definition uhci_warn :: "string \<Rightarrow> va_arg list \<Rightarrow> 'a uhci_scheme \<Rightarrow> 'a uhci_scheme" where
  "uhci_warn fmt args s = on_con (UHCI_WARN fmt args) s"

definition allocate_td :: "'a uhci_scheme \<Rightarrow> (u64 \<times> 'a uhci_scheme) option" where
  "allocate_td s = do {
     (td, s) \<leftarrow> alloc16 16 s;
     if td = 0 then Some (0, uhci_err ''TD allocation failed'' [] s) else Some (td, put_td td zero_td s)
   }"

definition allocate_qh :: "'a uhci_scheme \<Rightarrow> (u64 \<times> 'a uhci_scheme) option" where
  "allocate_qh s = do {
     (qh, s) \<leftarrow> alloc16 16 s;
     if qh = 0 then Some (0, uhci_err ''QH allocation failed'' [] s) else Some (qh, put_qh qh zero_qh s)
   }"

definition allocate_setup_packet :: "'a uhci_scheme \<Rightarrow> (u64 \<times> 'a uhci_scheme) option" where
  "allocate_setup_packet s = do {
     (p, s) \<leftarrow> alloc16 8 s;
     if p = 0 then Some (0, uhci_err ''Failed to allocate Setup Packet'' [] s) else Some (p, dma_clear p 8 s)
   }"

definition free_td :: "u64 \<Rightarrow> 'a uhci_scheme \<Rightarrow> 'a uhci_scheme" where "free_td td s = free_ptr td s"
definition free_qh :: "u64 \<Rightarrow> 'a uhci_scheme \<Rightarrow> 'a uhci_scheme" where "free_qh qh s = free_ptr qh s"
definition free_setup_packet :: "u64 \<Rightarrow> 'a uhci_scheme \<Rightarrow> 'a uhci_scheme" where "free_setup_packet p s = free_ptr p s"

section \<open>Waiting\<close>

text \<open>\<open>while ((td->control_status & 0x800000) && timeout-- > 0) sleep_ms(1);\<close>\<close>

function wait_loop ::
    "(u64 \<Rightarrow> 'a uhci_scheme \<Rightarrow> 'a uhci_scheme) \<Rightarrow> u64 \<Rightarrow> int \<Rightarrow> 'a uhci_scheme \<Rightarrow> int \<times> 'a uhci_scheme" where
  "wait_loop pause td timeout s =
     (if control_status (td_at s td) AND 0x800000 \<noteq> 0
      then if 0 < timeout then wait_loop pause td (timeout - 1) (pause 1 s) else (timeout - 1, s)
      else (timeout, s))"
  by pat_completeness auto
termination
  by (relation "measure (\<lambda>(pause, td, timeout, s). nat timeout)") auto

declare wait_loop.simps [simp del]

definition uhci_wait_for_transfer_complete ::
    "(u64 \<Rightarrow> 'a uhci_scheme \<Rightarrow> 'a uhci_scheme) \<Rightarrow> u64 \<Rightarrow> 'a uhci_scheme \<Rightarrow> int \<times> 'a uhci_scheme" where
  "uhci_wait_for_transfer_complete pause td s =
     (let (timeout, s1) = wait_loop pause td 3000 s; cs = control_status (td_at s1 td) in
      if timeout \<le> 0 then (-1, uhci_err ''Transfer timeout (TD=0x%x)'' [Num (ucast cs)] s1)
      else if cs AND 0x400000 \<noteq> 0 then (-2, uhci_err ''Transfer stalled'' [] s1)
      else if cs AND 0x200000 \<noteq> 0 then (-3, uhci_err ''Data Buffer Error'' [] s1)
      else if cs AND 0x100000 \<noteq> 0 then (-4, uhci_err ''Babble Detected'' [] s1)
      else if cs AND 0x80000 \<noteq> 0 then (-5, uhci_warn ''NAK Received'' [] s1)
      else if cs AND 0x40000 \<noteq> 0 then (-6, uhci_err ''CRC/Timeout Error'' [] s1)
      else if cs AND 0x20000 \<noteq> 0 then (-7, uhci_err ''Bit Stuff Error'' [] s1)
      else (1, s1))"

section \<open>The five control transfers\<close>

definition setup_token :: "u8 \<Rightarrow> u32" where
  "setup_token addr = 0x2D OR push_bit 8 (ucast addr) OR push_bit 21 7"

definition uhci_set_device_address ::
    "(u64 \<Rightarrow> 'a uhci_scheme \<Rightarrow> 'a uhci_scheme) \<Rightarrow> u16 \<Rightarrow> u8 \<Rightarrow> u8 \<Rightarrow> 'a uhci_scheme \<Rightarrow> (bool \<times> 'a uhci_scheme) option" where
  "uhci_set_device_address pause io_base port new_address s = do {
     (sp, s) \<leftarrow> allocate_setup_packet s;
     if sp = 0 then Some (False, s)
     else do {
       let s = put_setup sp \<lparr>bmRequestType = 0x00, bRequest = 0x05, wValue = ucast new_address, wIndex = 0, wLength = 0\<rparr> s;
       (td_setup, s) \<leftarrow> allocate_td s;
       (td_status, s) \<leftarrow> allocate_td s;
       (qh, s) \<leftarrow> allocate_qh s;
       if td_setup = 0 \<or> td_status = 0 \<or> qh = 0 then Some (False, uhci_err ''Alloc TD/QH SET_ADDRESS'' [] s)
       else do {
         let s = put_td td_setup \<lparr>link_pointer = phys td_status OR 4, control_status = 0x800000,
                   token = 0x2D OR push_bit 21 7, buffer_pointer = phys sp\<rparr> s;
         let s = put_td td_status \<lparr>link_pointer = 1, control_status = 0x800000, token = 0x69, buffer_pointer = 0\<rparr> s;
         let s = put_qh qh \<lparr>horizontal_link_pointer = 1, vertical_link_pointer = phys td_setup\<rparr> s;
         let (cur, s) = in16 (io_base + 6) s;
         let fr = (cur AND 0x7FF) + 1;
         let s = set_two_slots fr (phys qh OR 2) s;
         let (cmd, s) = in16 io_base s;
         if cmd AND 1 = 0 then Some (False, uhci_err ''Controller not running'' [] s)
         else do {
           let (r, s) = uhci_wait_for_transfer_complete pause td_status s;
           if r \<noteq> 1 then Some (False, uhci_err ''SET_ADDRESS completion failed'' [] s)
           else do {
             let (st, s) = in16 (io_base + 2) s;
             let s = (if st AND 2 \<noteq> 0
                      then out16 (io_base + 2) 2 (uhci_warn ''USBERRINT during SET_ADDRESS, clearing'' [] s) else s);
             let cs = control_status (td_at s td_setup);
             let failed = (cs AND 0x400000 \<noteq> 0);
             let s = (if failed then uhci_err ''Error in SET_ADDRESS transfer (CS=0x%x)'' [Num (ucast cs)] s else s);
             let s = free_setup_packet sp (free_qh qh (free_td td_status (free_td td_setup (set_two_slots fr 1 s))));
             if failed then Some (False, s) else Some (True, pause 10 s)
           }
         }
       }
     }
   }"

text \<open>
  \<open>desc\<close> is the address of the structure the descriptor is read into.  The setup packet is not
  freed, neither on success nor on failure.
\<close>

definition uhci_get_device_descriptor ::
    "(u64 \<Rightarrow> 'a uhci_scheme \<Rightarrow> 'a uhci_scheme) \<Rightarrow> u16 \<Rightarrow> u8 \<Rightarrow> u64 \<Rightarrow> 'a uhci_scheme \<Rightarrow> (bool \<times> 'a uhci_scheme) option" where
  "uhci_get_device_descriptor pause io_base addr desc s = do {
     (sp, s) \<leftarrow> allocate_setup_packet s;
     if sp = 0 then Some (False, s)
     else do {
       let s = put_setup sp \<lparr>bmRequestType = 0x80, bRequest = 0x06, wValue = push_bit 8 (ucast USB_DESC_TYPE_DEVICE),
                 wIndex = 0, wLength = 18\<rparr> s;
       (td_setup, s) \<leftarrow> allocate_td s;
       (td_data, s) \<leftarrow> allocate_td s;
       (td_status, s) \<leftarrow> allocate_td s;
       (qh, s) \<leftarrow> allocate_qh s;
       if td_setup = 0 \<or> td_data = 0 \<or> td_status = 0 \<or> qh = 0 then Some (False, uhci_err ''Alloc TD/QH GET_DEVICE'' [] s)
       else do {
         let s = put_td td_setup \<lparr>link_pointer = phys td_data OR 4, control_status = 0x800000,
                   token = setup_token addr, buffer_pointer = phys sp\<rparr> s;
         let s = put_td td_data \<lparr>link_pointer = phys td_status OR 4, control_status = 0x800000,
                   token = 0x69 OR push_bit 8 (ucast addr) OR push_bit 19 1 OR push_bit 21 17, buffer_pointer = phys desc\<rparr> s;
         let s = put_td td_status \<lparr>link_pointer = 1, control_status = 0x800000,
                   token = 0xE1 OR push_bit 8 (ucast addr) OR push_bit 19 1, buffer_pointer = 0\<rparr> s;
         let s = put_qh qh \<lparr>horizontal_link_pointer = 1, vertical_link_pointer = phys td_setup\<rparr> s;
         let (cur, s) = in16 (io_base + 6) s;
         let fr = (cur AND 0x7FF) + 1;
         let s = set_two_slots fr (phys qh OR 2) s;
         let (r, s) = uhci_wait_for_transfer_complete pause td_status s;
         if r \<noteq> 1 then Some (False, uhci_err ''GET_DEVICE completion failed'' [] s)
         else do {
           let failed = (control_status (td_at s td_data) AND 0x400000 \<noteq> 0);
           let s = (if failed then uhci_err ''Error in GET_DEVICE transfer'' [] s else s);
           Some (\<not> failed, free_qh qh (free_td td_status (free_td td_data (free_td td_setup (set_two_slots fr 1 s)))))
         }
       }
     }
   }"

definition uhci_get_configuration_descriptor ::
    "(u64 \<Rightarrow> 'a uhci_scheme \<Rightarrow> 'a uhci_scheme) \<Rightarrow> u16 \<Rightarrow> u8 \<Rightarrow> u64 \<Rightarrow> 'a uhci_scheme \<Rightarrow> (bool \<times> 'a uhci_scheme) option" where
  "uhci_get_configuration_descriptor pause io_base addr cfg s = do {
     (sp, s) \<leftarrow> allocate_setup_packet s;
     if sp = 0 then Some (False, s)
     else do {
       let s = put_setup sp \<lparr>bmRequestType = 0x80, bRequest = 0x06,
                 wValue = push_bit 8 (ucast USB_DESC_TYPE_CONFIGURATION), wIndex = 0, wLength = 9\<rparr> s;
       (td_setup, s) \<leftarrow> allocate_td s;
       (td_data, s) \<leftarrow> allocate_td s;
       (td_status, s) \<leftarrow> allocate_td s;
       (qh, s) \<leftarrow> allocate_qh s;
       if td_setup = 0 \<or> td_data = 0 \<or> td_status = 0 \<or> qh = 0 then Some (False, uhci_err ''Alloc TD/QH GET_CONFIG'' [] s)
       else do {
         let s = put_td td_setup \<lparr>link_pointer = phys td_data OR 4, control_status = 0x800000,
                   token = setup_token addr, buffer_pointer = phys sp\<rparr> s;
         let s = put_td td_data \<lparr>link_pointer = phys td_status OR 4, control_status = 0x800000,
                   token = 0x69 OR push_bit 8 (ucast addr) OR push_bit 19 1 OR push_bit 21 8, buffer_pointer = phys cfg\<rparr> s;
         let s = put_td td_status \<lparr>link_pointer = 1, control_status = 0x800000,
                   token = 0xE1 OR push_bit 8 (ucast addr) OR push_bit 19 1, buffer_pointer = 0\<rparr> s;
         let s = put_qh qh \<lparr>horizontal_link_pointer = 1, vertical_link_pointer = phys td_setup\<rparr> s;
         let (cur, s) = in16 (io_base + 6) s;
         let fr = cur AND 0x7FF;
         let s = set_slot fr (phys qh OR 2) s;
         let (r, s) = uhci_wait_for_transfer_complete pause td_data s;
         if r \<noteq> 1
         then Some (False, free_qh qh (free_td td_status (free_td td_data (free_td td_setup
                             (uhci_err ''GET_CONFIG completion failed'' [] s)))))
         else Some (True, free_qh qh (free_td td_status (free_td td_data (free_td td_setup (set_slot fr 1 s)))))
       }
     }
   }"

text \<open>\<open>(total_len - 1) << 21\<close> is computed in \<open>int\<close> and kept at 32 bits.\<close>

definition uhci_get_full_configuration_descriptor ::
    "(u64 \<Rightarrow> 'a uhci_scheme \<Rightarrow> 'a uhci_scheme) \<Rightarrow> u16 \<Rightarrow> u8 \<Rightarrow> u64 \<Rightarrow> u16 \<Rightarrow> 'a uhci_scheme \<Rightarrow>
     (bool \<times> 'a uhci_scheme) option" where
  "uhci_get_full_configuration_descriptor pause io_base addr buf total_len s = do {
     (sp, s) \<leftarrow> allocate_setup_packet s;
     if sp = 0 then Some (False, s)
     else do {
       let s = put_setup sp \<lparr>bmRequestType = 0x80, bRequest = 0x06,
                 wValue = push_bit 8 (ucast USB_DESC_TYPE_CONFIGURATION), wIndex = 0, wLength = total_len\<rparr> s;
       (td_setup, s) \<leftarrow> allocate_td s;
       (td_data, s) \<leftarrow> allocate_td s;
       (td_status, s) \<leftarrow> allocate_td s;
       (qh, s) \<leftarrow> allocate_qh s;
       if td_setup = 0 \<or> td_data = 0 \<or> td_status = 0 \<or> qh = 0
       then Some (False, uhci_err ''Alloc TD/QH GET_CONFIG(full)'' [] s)
       else do {
         let s = put_td td_setup \<lparr>link_pointer = phys td_data OR 4, control_status = 0x800000,
                   token = setup_token addr, buffer_pointer = phys sp\<rparr> s;
         let s = put_td td_data \<lparr>link_pointer = phys td_status OR 4, control_status = 0x800000,
                   token = 0x69 OR push_bit 8 (ucast addr) OR push_bit 19 1 OR push_bit 21 (ucast total_len - 1),
                   buffer_pointer = phys buf\<rparr> s;
         let s = put_td td_status \<lparr>link_pointer = 1, control_status = 0x800000,
                   token = 0xE1 OR push_bit 8 (ucast addr) OR push_bit 19 1, buffer_pointer = 0\<rparr> s;
         let s = put_qh qh \<lparr>horizontal_link_pointer = 1, vertical_link_pointer = phys td_setup\<rparr> s;
         let (cur, s) = in16 (io_base + 6) s;
         let fr = cur AND 0x7FF;
         let s = set_slot fr (phys qh OR 2) s;
         let (r, s) = uhci_wait_for_transfer_complete pause td_data s;
         let s = (if r \<noteq> 1 then uhci_err ''GET_DESCRIPTOR (full config) failed'' [] s else set_slot fr 1 s);
         Some (r = 1, free_setup_packet sp (free_qh qh (free_td td_status (free_td td_data (free_td td_setup s)))))
       }
     }
   }"

definition uhci_set_configuration ::
    "(u64 \<Rightarrow> 'a uhci_scheme \<Rightarrow> 'a uhci_scheme) \<Rightarrow> u16 \<Rightarrow> u8 \<Rightarrow> u8 \<Rightarrow> 'a uhci_scheme \<Rightarrow> (bool \<times> 'a uhci_scheme) option" where
  "uhci_set_configuration pause io_base addr cfg_val s = do {
     (sp, s) \<leftarrow> allocate_setup_packet s;
     if sp = 0 then Some (False, s)
     else do {
       let s = put_setup sp \<lparr>bmRequestType = 0x00, bRequest = 0x09, wValue = ucast cfg_val, wIndex = 0, wLength = 0\<rparr> s;
       (td_setup, s) \<leftarrow> allocate_td s;
       (td_status, s) \<leftarrow> allocate_td s;
       (qh, s) \<leftarrow> allocate_qh s;
       if td_setup = 0 \<or> td_status = 0 \<or> qh = 0 then Some (False, uhci_err ''Alloc TD/QH SET_CONFIG'' [] s)
       else do {
         let s = put_td td_setup \<lparr>link_pointer = phys td_status OR 4, control_status = 0x800000,
                   token = setup_token addr, buffer_pointer = phys sp\<rparr> s;
         let s = put_td td_status \<lparr>link_pointer = 1, control_status = 0x800000,
                   token = 0x69 OR push_bit 8 (ucast addr) OR push_bit 19 1, buffer_pointer = 0\<rparr> s;
         let s = put_qh qh \<lparr>horizontal_link_pointer = 1, vertical_link_pointer = phys td_setup\<rparr> s;
         let (cur, s) = in16 (io_base + 6) s;
         let fr = (cur AND 0x7FF) + 1;
         let s = set_two_slots fr (phys qh OR 2) s;
         let (r, s) = uhci_wait_for_transfer_complete pause td_status s;
         if r \<noteq> 1 then Some (False, uhci_err ''SET_CONFIGURATION completion failed'' [] s)
         else do {
           let failed = (control_status (td_at s td_status) AND 0x400000 \<noteq> 0);
           let s = (if failed then uhci_err ''SET_CONFIGURATION stalled'' [] s else s);
           Some (\<not> failed, free_qh qh (free_td td_status (free_td td_setup (set_two_slots fr 1 s))))
         }
       }
     }
   }"


section \<open>What the transfers do to the allocator\<close>

text \<open>
  \<open>hp m Q\<close>: the computation returns, and its result and the allocator state satisfy \<open>Q\<close>.  The rules
  follow the shape of the code; everything but allocation and release leaves the allocator alone.
\<close>

definition hp :: "('r \<times> 'a uhci_scheme) option \<Rightarrow> ('r \<Rightarrow> heap \<Rightarrow> bool) \<Rightarrow> bool" where
  "hp m Q \<longleftrightarrow> (\<exists>r s. m = Some (r, s) \<and> Q r (heap s))"

named_theorems heap_simps

lemma hp_return: "Q r (heap s) \<Longrightarrow> hp (Some (r, s)) Q"
  by (simp add: hp_def)

lemma hp_bind:
  assumes "hp m P" and "\<And>r s. P r (heap s) \<Longrightarrow> hp (f r s) Q"
  shows "hp (m \<bind> (\<lambda>(r, s). f r s)) Q"
  using assms by (auto simp: hp_def)

lemma hp_let_state: "(\<And>s'. heap s' = heap x \<Longrightarrow> hp (f s') Q) \<Longrightarrow> hp (Let x f) Q"
  by simp

lemma hp_let_pair: "(\<And>v s'. heap s' = heap (snd x) \<Longrightarrow> hp (f v s') Q) \<Longrightarrow> hp (Let x (\<lambda>(v, s'). f v s')) Q"
  by (cases x) simp

lemma hp_let_word: "(\<And>v. hp (f v) Q) \<Longrightarrow> hp (Let x f) Q" for x :: "'w::len word"
  by simp

lemma hp_let_bool: "(\<And>v. hp (f v) Q) \<Longrightarrow> hp (Let x f) Q" for x :: bool
  by simp

lemma hp_if: "(c \<Longrightarrow> hp x Q) \<Longrightarrow> (\<not> c \<Longrightarrow> hp y Q) \<Longrightarrow> hp (if c then x else y) Q"
  by simp

lemmas hp_rules = hp_let_pair hp_let_state hp_let_word hp_let_bool hp_if hp_return

lemma heap_keeps [heap_simps]:
  "heap (put_setup a sp s) = heap s" "heap (put_td a td s) = heap s" "heap (put_qh a qh s) = heap s"
  "heap (set_slot fr v s) = heap s" "heap (set_two_slots fr v s) = heap s" "heap (uhci_err fmt args s) = heap s"
  "heap (uhci_warn fmt args s) = heap s" "heap (snd (in16 p s)) = heap s" "heap (dma_clear a n s) = heap s"
  "heap (on_con g s) = heap s" "heap (if c then s else s) = heap s"
  by (simp_all add: put_setup_def put_td_def put_qh_def set_slot_def set_two_slots_def uhci_err_def uhci_warn_def in16_def
      dma_clear_def split: prod.split)

lemma heap_if [heap_simps]: "heap (if c then a else b) = (if c then heap a else heap b)"
  by simp

lemma heap_free [heap_simps]:
  "heap (free_td a s) = aligned_free a (heap s)" "heap (free_qh a s) = aligned_free a (heap s)"
  "heap (free_setup_packet a s) = aligned_free a (heap s)"
  by (simp_all add: free_td_def free_qh_def free_setup_packet_def free_ptr_def)

definition keeps_heap :: "(u64 \<Rightarrow> 'a uhci_scheme \<Rightarrow> 'a uhci_scheme) \<Rightarrow> bool" where
  "keeps_heap pause \<longleftrightarrow> (\<forall>ms s. heap (pause ms s) = heap s)"

lemma wait_loop_heap: "keeps_heap pause \<Longrightarrow> heap (snd (wait_loop pause td timeout s)) = heap s"
proof (induction pause td timeout s rule: wait_loop.induct)
  case (1 pause td timeout s)
  then show ?case by (subst wait_loop.simps) (simp add: keeps_heap_def)
qed

lemma wait_heap: "keeps_heap pause \<Longrightarrow> heap (snd (uhci_wait_for_transfer_complete pause td s)) = heap s"
  using wait_loop_heap [of pause td 3000 s]
  by (auto simp: uhci_wait_for_transfer_complete_def heap_simps Let_def split: prod.split)

text \<open>An allocation adds one block to the live ones, or none when it fails.\<close>

definition grown :: "(u64 \<rightharpoonup> u64) \<Rightarrow> u64 \<Rightarrow> u64 \<Rightarrow> heap \<Rightarrow> bool" where
  "grown L n p h \<longleftrightarrow> (if p = 0 then heap_inv h L else L p = None \<and> heap_inv h (L(p := Some n)))"

lemma alloc16_grown:
  assumes "heap_inv (heap s) L" and "reasonable n"
  shows "hp (alloc16 n s) (grown L n)"
proof -
  obtain p h where p: "aligned_alloc 16 n (heap s) = Some (p, h)" "p = 0 \<or> L p = None"
      "heap_inv h (if p = 0 then L else L(p := Some n))"
    using ha.alloc_step [OF assms] by blast
  then have "grown L n p h" by (auto simp: grown_def split: if_splits)
  then show ?thesis using p(1) by (simp add: alloc16_def hp_def)
qed

lemma allocate_grown:
  assumes "heap_inv (heap s) L"
  shows "hp (allocate_td s) (grown L 16)" and "hp (allocate_qh s) (grown L 16)"
    and "hp (allocate_setup_packet s) (grown L 8)"
proof -
  have r: "reasonable 16" "reasonable 8" by (simp_all add: reasonable_def)
  note step = hp_bind hp_if hp_return
  show "hp (allocate_td s) (grown L 16)"
    unfolding allocate_td_def
    by (rule hp_bind [OF alloc16_grown [OF assms r(1)]]) (auto intro!: hp_if hp_return simp: heap_simps grown_def)
  show "hp (allocate_qh s) (grown L 16)"
    unfolding allocate_qh_def
    by (rule hp_bind [OF alloc16_grown [OF assms r(1)]]) (auto intro!: hp_if hp_return simp: heap_simps grown_def)
  show "hp (allocate_setup_packet s) (grown L 8)"
    unfolding allocate_setup_packet_def
    by (rule hp_bind [OF alloc16_grown [OF assms r(2)]]) (auto intro!: hp_if hp_return simp: heap_simps grown_def)
qed


definition added :: "u64 \<Rightarrow> u64 \<Rightarrow> (u64 \<rightharpoonup> u64) \<Rightarrow> (u64 \<rightharpoonup> u64)" where
  "added p n L = (if p = 0 then L else L(p := Some n))"

lemma grown_added: "grown L n p h \<longleftrightarrow> heap_inv h (added p n L) \<and> (p = 0 \<or> L p = None)"
  by (auto simp: grown_def added_def)

lemma added_le: "p = 0 \<or> L p = None \<Longrightarrow> L \<subseteq>\<^sub>m added p n L"
  by (auto simp: added_def map_le_def)

text \<open>
  \<open>settled L leak b h\<close>: the allocator is consistent, no block live before was released, and on
  success the live blocks are those of before, plus one block of 8 bytes when the routine leaks.
\<close>

definition settled :: "(u64 \<rightharpoonup> u64) \<Rightarrow> bool \<Rightarrow> bool \<Rightarrow> heap \<Rightarrow> bool" where
  "settled L leak b h \<longleftrightarrow> (\<exists>L'. heap_inv h L' \<and> L \<subseteq>\<^sub>m L' \<and>
     (b \<longrightarrow> (if leak then \<exists>sp. L sp = None \<and> L' = L(sp := Some 8) else L' = L)))"

lemma settled_failed: "heap_inv h L' \<Longrightarrow> L \<subseteq>\<^sub>m L' \<Longrightarrow> settled L leak False h"
  by (auto simp: settled_def)

lemma settled_mono: "settled L leak True h \<Longrightarrow> settled L leak b h"
  by (auto simp: settled_def)

lemma heap_inv_free: "heap_inv h L \<Longrightarrow> L p = Some n \<Longrightarrow> heap_inv (aligned_free p h) (L(p := None))"
  by (rule ha.dealloc_live)

text \<open>Releasing freshly allocated blocks brings the live blocks back.\<close>

lemma heap_inv_free_new:
  assumes "heap_inv h (M(p := Some n))" and "M p = None"
  shows "heap_inv (aligned_free p h) M"
  using heap_inv_free [OF assms(1), of p n] assms(2) by (simp add: fun_upd_idem)

lemma free_two:
  assumes "heap_inv h (L(sp := Some 8, a := Some 16, b := Some 16, q := Some 16))"
    and "L sp = None" and "(L(sp := Some 8)) a = None" and "(L(sp := Some 8, a := Some 16)) b = None"
    and "(L(sp := Some 8, a := Some 16, b := Some 16)) q = None"
  shows "heap_inv (aligned_free q (aligned_free b (aligned_free a h))) (L(sp := Some 8))"
proof -
  have d: "a \<noteq> sp" "b \<noteq> sp" "b \<noteq> a" "q \<noteq> sp" "q \<noteq> a" "q \<noteq> b" and n: "L a = None" "L b = None" "L q = None"
    using assms(3-5) by (auto split: if_splits)
  have "L(sp := Some 8, a := Some 16, b := Some 16, q := Some 16) = (L(sp := Some 8, b := Some 16, q := Some 16))(a := Some 16)"
    using d by (auto simp: fun_eq_iff)
  then have "heap_inv (aligned_free a h) (L(sp := Some 8, b := Some 16, q := Some 16))"
    by (intro heap_inv_free_new [where n = 16]) (use assms(1) d n in simp_all)
  moreover have "L(sp := Some 8, b := Some 16, q := Some 16) = (L(sp := Some 8, q := Some 16))(b := Some 16)"
    using d by (auto simp: fun_eq_iff)
  ultimately have "heap_inv (aligned_free b (aligned_free a h)) (L(sp := Some 8, q := Some 16))"
    by (intro heap_inv_free_new [where h = "aligned_free a h" and n = 16]) (use d n in simp_all)
  then show ?thesis by (rule heap_inv_free_new [where n = 16]) (use d n in simp_all)
qed

lemma free_three:
  assumes "heap_inv h (L(sp := Some 8, a := Some 16, d := Some 16, b := Some 16, q := Some 16))"
    and "L sp = None" and "(L(sp := Some 8)) a = None" and "(L(sp := Some 8, a := Some 16)) d = None"
    and "(L(sp := Some 8, a := Some 16, d := Some 16)) b = None"
    and "(L(sp := Some 8, a := Some 16, d := Some 16, b := Some 16)) q = None"
  shows "heap_inv (aligned_free q (aligned_free b (aligned_free d (aligned_free a h)))) (L(sp := Some 8))"
proof -
  have d: "a \<noteq> sp" "d \<noteq> sp" "d \<noteq> a" "b \<noteq> sp" "b \<noteq> a" "b \<noteq> d" "q \<noteq> sp" "q \<noteq> a" "q \<noteq> d" "q \<noteq> b"
    and n: "L a = None" "L d = None" "L b = None" "L q = None"
    using assms(3-6) by (auto split: if_splits)
  have "L(sp := Some 8, a := Some 16, d := Some 16, b := Some 16, q := Some 16) =
      (L(sp := Some 8, d := Some 16, b := Some 16, q := Some 16))(a := Some 16)"
    using d by (auto simp: fun_eq_iff)
  then have "heap_inv (aligned_free a h) (L(sp := Some 8, d := Some 16, b := Some 16, q := Some 16))"
    by (intro heap_inv_free_new [where n = 16]) (use assms(1) d n in simp_all)
  then show ?thesis by (rule free_two) (use assms(2) d n in simp_all)
qed


definition two_new :: "(u64 \<rightharpoonup> u64) \<Rightarrow> u64 \<Rightarrow> u64 \<Rightarrow> u64 \<Rightarrow> heap \<Rightarrow> bool" where
  "two_new M a b q h \<longleftrightarrow> heap_inv h (added q 16 (added b 16 (added a 16 M))) \<and> (a = 0 \<or> M a = None) \<and>
     (b = 0 \<or> added a 16 M b = None) \<and> (q = 0 \<or> added b 16 (added a 16 M) q = None)"

definition three_new :: "(u64 \<rightharpoonup> u64) \<Rightarrow> u64 \<Rightarrow> u64 \<Rightarrow> u64 \<Rightarrow> u64 \<Rightarrow> heap \<Rightarrow> bool" where
  "three_new M a d b q h \<longleftrightarrow> (a = 0 \<or> M a = None) \<and> two_new (added a 16 M) d b q h"

lemma hp_alloc_td: "heap_inv (heap s) M \<Longrightarrow>
  (\<And>p s. heap_inv (heap s) (added p 16 M) \<Longrightarrow> p = 0 \<or> M p = None \<Longrightarrow> hp (f p s) Q) \<Longrightarrow>
  hp (allocate_td s \<bind> (\<lambda>(p, s). f p s)) Q"
  by (rule hp_bind [OF allocate_grown(1)]) (auto simp: grown_added)

lemma hp_alloc_qh: "heap_inv (heap s) M \<Longrightarrow>
  (\<And>p s. heap_inv (heap s) (added p 16 M) \<Longrightarrow> p = 0 \<or> M p = None \<Longrightarrow> hp (f p s) Q) \<Longrightarrow>
  hp (allocate_qh s \<bind> (\<lambda>(p, s). f p s)) Q"
  by (rule hp_bind [OF allocate_grown(2)]) (auto simp: grown_added)

lemma hp_alloc_two:
  assumes "heap_inv (heap s) M" and "\<And>a b q s. two_new M a b q (heap s) \<Longrightarrow> hp (f a b q s) Q"
  shows "hp (allocate_td s \<bind> (\<lambda>(a, s). allocate_td s \<bind> (\<lambda>(b, s). allocate_qh s \<bind> (\<lambda>(q, s). f a b q s)))) Q"
  by (rule hp_alloc_td [OF assms(1)], erule hp_alloc_td, erule hp_alloc_qh) (auto intro!: assms(2) simp: two_new_def)

lemma hp_alloc_three:
  assumes "heap_inv (heap s) M" and "\<And>a d b q s. three_new M a d b q (heap s) \<Longrightarrow> hp (f a d b q s) Q"
  shows "hp (allocate_td s \<bind> (\<lambda>(a, s). allocate_td s \<bind> (\<lambda>(d, s). allocate_td s \<bind> (\<lambda>(b, s).
           allocate_qh s \<bind> (\<lambda>(q, s). f a d b q s))))) Q"
  by (rule hp_alloc_td [OF assms(1)], rule hp_alloc_two, assumption) (auto intro!: assms(2) simp: three_new_def)

lemma two_new_le: "two_new M a b q h \<Longrightarrow> \<exists>M'. heap_inv h M' \<and> M \<subseteq>\<^sub>m M'"
  unfolding two_new_def by (meson added_le map_le_trans)

lemma three_new_le: "three_new M a d b q h \<Longrightarrow> \<exists>M'. heap_inv h M' \<and> M \<subseteq>\<^sub>m M'"
  unfolding three_new_def by (meson added_le map_le_trans two_new_le)

lemma two_new_settled:
  assumes "two_new (L(sp := Some 8)) a b q h" and "L sp = None" and "a \<noteq> 0" "b \<noteq> 0" "q \<noteq> 0"
  shows "settled L True True (aligned_free q (aligned_free b (aligned_free a h)))"
    and "settled L False True (aligned_free sp (aligned_free q (aligned_free b (aligned_free a h))))"
proof -
  have "heap_inv (aligned_free q (aligned_free b (aligned_free a h))) (L(sp := Some 8))"
    using assms by (intro free_two) (simp_all add: two_new_def added_def)
  moreover from this have "heap_inv (aligned_free sp (aligned_free q (aligned_free b (aligned_free a h)))) L"
    using assms(2) by (rule heap_inv_free_new)
  moreover have "L \<subseteq>\<^sub>m L(sp := Some 8)" using assms(2) by (simp add: map_le_def dom_def)
  ultimately show "settled L True True (aligned_free q (aligned_free b (aligned_free a h)))"
    and "settled L False True (aligned_free sp (aligned_free q (aligned_free b (aligned_free a h))))"
    using assms(2) by (auto simp: settled_def)
qed

lemma three_new_settled:
  assumes "three_new (L(sp := Some 8)) a d b q h" and "L sp = None" and "a \<noteq> 0" "d \<noteq> 0" "b \<noteq> 0" "q \<noteq> 0"
  shows "settled L True True (aligned_free q (aligned_free b (aligned_free d (aligned_free a h))))"
    and "settled L False True (aligned_free sp (aligned_free q (aligned_free b (aligned_free d (aligned_free a h)))))"
proof -
  have "heap_inv (aligned_free q (aligned_free b (aligned_free d (aligned_free a h)))) (L(sp := Some 8))"
    using assms by (intro free_three) (simp_all add: three_new_def two_new_def added_def)
  moreover from this have "heap_inv (aligned_free sp (aligned_free q (aligned_free b (aligned_free d (aligned_free a h))))) L"
    using assms(2) by (rule heap_inv_free_new)
  moreover have "L \<subseteq>\<^sub>m L(sp := Some 8)" using assms(2) by (simp add: map_le_def dom_def)
  ultimately show "settled L True True (aligned_free q (aligned_free b (aligned_free d (aligned_free a h))))"
    and "settled L False True (aligned_free sp (aligned_free q (aligned_free b (aligned_free d (aligned_free a h)))))"
    using assms(2) by (auto simp: settled_def)
qed

lemma new_failed:
  assumes "L sp = None"
  shows "two_new (L(sp := Some 8)) a b q h \<Longrightarrow> settled L leak False h"
    and "three_new (L(sp := Some 8)) a d b q h \<Longrightarrow> settled L leak False h"
proof -
  have le: "L \<subseteq>\<^sub>m L(sp := Some 8)" using assms by (simp add: map_le_def dom_def)
  show "two_new (L(sp := Some 8)) a b q h \<Longrightarrow> settled L leak False h"
    using two_new_le [of "L(sp := Some 8)" a b q h] le by (meson map_le_trans settled_failed)
  show "three_new (L(sp := Some 8)) a d b q h \<Longrightarrow> settled L leak False h"
    using three_new_le [of "L(sp := Some 8)" a d b q h] le by (meson map_le_trans settled_failed)
qed

lemma hp_setup:
  assumes "heap_inv (heap s) L"
    and "\<And>sp s. sp \<noteq> 0 \<Longrightarrow> L sp = None \<Longrightarrow> heap_inv (heap s) (L(sp := Some 8)) \<Longrightarrow> hp (f sp s) (settled L leak)"
  shows "hp (allocate_setup_packet s \<bind> (\<lambda>(sp, s). if sp = 0 then Some (False, s) else f sp s)) (settled L leak)"
  using assms(2)
  by (intro hp_bind [OF allocate_grown(3) [OF assms(1)]] hp_if)
    (auto simp: grown_def intro!: hp_return settled_failed [where L' = L])


lemma keeps_heap_pause: "keeps_heap pause \<Longrightarrow> heap (pause ms s) = heap s"
  by (simp add: keeps_heap_def)

lemma set_address_settled:
  assumes k: "keeps_heap pause" and "heap_inv (heap s) L"
  shows "hp (uhci_set_device_address pause io_base port new_address s) (settled L False)"
  unfolding uhci_set_device_address_def
  by (rule hp_setup [OF assms(2)], rule hp_let_state, rule hp_alloc_two, simp add: heap_simps, intro hp_rules)
    (auto simp: heap_simps wait_heap [OF k] keeps_heap_pause [OF k]
      intro: new_failed(1) two_new_settled(2) settled_mono [OF two_new_settled(2)])

lemma get_device_settled:
  assumes k: "keeps_heap pause" and "heap_inv (heap s) L"
  shows "hp (uhci_get_device_descriptor pause io_base addr desc s) (settled L True)"
  unfolding uhci_get_device_descriptor_def
  by (rule hp_setup [OF assms(2)], rule hp_let_state, rule hp_alloc_three, simp add: heap_simps, intro hp_rules)
    (auto simp: heap_simps wait_heap [OF k] intro: new_failed(2) settled_mono [OF three_new_settled(1)])

lemma get_configuration_settled:
  assumes k: "keeps_heap pause" and "heap_inv (heap s) L"
  shows "hp (uhci_get_configuration_descriptor pause io_base addr cfg s) (settled L True)"
  unfolding uhci_get_configuration_descriptor_def
  by (rule hp_setup [OF assms(2)], rule hp_let_state, rule hp_alloc_three, simp add: heap_simps, intro hp_rules)
    (auto simp: heap_simps wait_heap [OF k] intro: new_failed(2) settled_mono [OF three_new_settled(1)])

lemma get_full_configuration_settled:
  assumes k: "keeps_heap pause" and "heap_inv (heap s) L"
  shows "hp (uhci_get_full_configuration_descriptor pause io_base addr buf n s) (settled L False)"
  unfolding uhci_get_full_configuration_descriptor_def
  by (rule hp_setup [OF assms(2)], rule hp_let_state, rule hp_alloc_three, simp add: heap_simps, intro hp_rules)
    (auto simp: heap_simps wait_heap [OF k] intro: new_failed(2) settled_mono [OF three_new_settled(2)])

lemma set_configuration_settled:
  assumes k: "keeps_heap pause" and "heap_inv (heap s) L"
  shows "hp (uhci_set_configuration pause io_base addr v s) (settled L True)"
  unfolding uhci_set_configuration_def
  by (rule hp_setup [OF assms(2)], rule hp_let_state, rule hp_alloc_two, simp add: heap_simps, intro hp_rules)
    (auto simp: heap_simps wait_heap [OF k] intro: new_failed(1) settled_mono [OF two_new_settled(1)])


section \<open>How long a transfer is waited for\<close>

definition busy :: "(u64 \<Rightarrow> 'a uhci_scheme \<Rightarrow> 'a uhci_scheme) \<Rightarrow> u64 \<Rightarrow> 'a uhci_scheme \<Rightarrow> nat \<Rightarrow> bool" where
  "busy pause td s n \<longleftrightarrow> control_status (td_at ((pause 1 ^^ n) s) td) AND 0x800000 \<noteq> 0"

lemma busy_Suc: "busy pause td (pause 1 s) n = busy pause td s (Suc n)"
  by (simp only: busy_def funpow_Suc_right o_apply)

lemma wait_loop_done:
  assumes "int n \<le> timeout" and "\<forall>k < n. busy pause td s k" and "\<not> busy pause td s n"
  shows "wait_loop pause td timeout s = (timeout - int n, (pause 1 ^^ n) s)"
  using assms
proof (induction n arbitrary: timeout s)
  case 0
  then show ?case by (subst wait_loop.simps) (simp add: busy_def)
next
  case (Suc n)
  have "busy pause td s 0" using Suc.prems(2) by blast
  moreover have "wait_loop pause td (timeout - 1) (pause 1 s) = (timeout - 1 - int n, (pause 1 ^^ n) (pause 1 s))"
    using Suc.prems by (intro Suc.IH) (auto simp: busy_Suc)
  ultimately show ?case
    using Suc.prems(1) by (subst wait_loop.simps) (simp add: busy_def funpow_Suc_right del: funpow.simps)
qed

lemma wait_loop_timeout:
  assumes "\<forall>k \<le> n. busy pause td s k"
  shows "wait_loop pause td (int n) s = (-1, (pause 1 ^^ n) s)"
  using assms
proof (induction n arbitrary: s)
  case 0
  then show ?case by (subst wait_loop.simps) (simp add: busy_def)
next
  case (Suc n)
  have "busy pause td s 0" using Suc.prems by blast
  moreover have "wait_loop pause td (int n) (pause 1 s) = (-1, (pause 1 ^^ n) (pause 1 s))"
    using Suc.prems by (intro Suc.IH) (auto simp: busy_Suc)
  ultimately show ?case
    by (subst wait_loop.simps) (simp add: busy_def funpow_Suc_right del: funpow.simps)
qed

definition transfer_code :: "u32 \<Rightarrow> int" where
  "transfer_code cs = (case find (\<lambda>(b, c). bit cs b) [(22, -2), (21, -3), (20, -4), (19, -5), (18, -6), (17, -7 :: int)] of
     None \<Rightarrow> 1 | Some (b, c) \<Rightarrow> c)"

lemma wait_code:
  assumes "wait_loop pause td 3000 s = (timeout, s1)" and "0 < timeout"
  shows "fst (uhci_wait_for_transfer_complete pause td s) = transfer_code (control_status (td_at s1 td))"
proof -
  let ?cs = "control_status (td_at s1 td)"
  have bits: "?cs AND 0x400000 = 0 \<longleftrightarrow> \<not> bit ?cs 22" "?cs AND 0x200000 = 0 \<longleftrightarrow> \<not> bit ?cs 21"
      "?cs AND 0x100000 = 0 \<longleftrightarrow> \<not> bit ?cs 20" "?cs AND 0x80000 = 0 \<longleftrightarrow> \<not> bit ?cs 19"
      "?cs AND 0x40000 = 0 \<longleftrightarrow> \<not> bit ?cs 18" "?cs AND 0x20000 = 0 \<longleftrightarrow> \<not> bit ?cs 17"
    using and_power_eq_0_iff [of ?cs 22] and_power_eq_0_iff [of ?cs 21] and_power_eq_0_iff [of ?cs 20]
      and_power_eq_0_iff [of ?cs 19] and_power_eq_0_iff [of ?cs 18] and_power_eq_0_iff [of ?cs 17]
    by (simp_all del: and_power_eq_0_iff)
  show ?thesis
    using assms by (simp add: uhci_wait_for_transfer_complete_def transfer_code_def bits)
qed

section \<open>Properties\<close>

text \<open>
  C37. Waiting for a transfer ends after at most 3000 one-millisecond sleeps whatever the controller
  does: when the descriptor becomes inactive after fewer than 3000 of them, the result is 1 exactly
  when none of the six error bits is set and otherwise the code of the highest error bit; when it
  was active before each of 3000 sleeps the result is the timeout, even if it has completed by then.
\<close>

theorem transfer_wait_bounded:
  "(\<forall>n < 3000. (\<forall>k < n. busy pause td s k) \<and> \<not> busy pause td s n \<longrightarrow>
      fst (uhci_wait_for_transfer_complete pause td s) = transfer_code (control_status (td_at ((pause 1 ^^ n) s) td))) \<and>
   ((\<forall>k < 3000. busy pause td s k) \<longrightarrow> fst (uhci_wait_for_transfer_complete pause td s) = -1)"
proof (intro conjI allI impI)
  fix n :: nat assume "n < 3000" and n: "(\<forall>k < n. busy pause td s k) \<and> \<not> busy pause td s n"
  then have "wait_loop pause td 3000 s = (3000 - int n, (pause 1 ^^ n) s)" by (intro wait_loop_done) auto
  then show "fst (uhci_wait_for_transfer_complete pause td s) =
      transfer_code (control_status (td_at ((pause 1 ^^ n) s) td))"
    using \<open>n < 3000\<close> by (intro wait_code) auto
next
  assume all: "\<forall>k < 3000. busy pause td s k"
  show "fst (uhci_wait_for_transfer_complete pause td s) = -1"
  proof (cases "busy pause td s 3000")
    case True
    then have "\<forall>k \<le> 3000. busy pause td s k" using all by (metis le_neq_implies_less)
    then show ?thesis
      using wait_loop_timeout [of 3000 pause td s] by (simp add: uhci_wait_for_transfer_complete_def)
  next
    case False
    then show ?thesis
      using wait_loop_done [of 3000 3000 pause td s] all by (simp add: uhci_wait_for_transfer_complete_def)
  qed
qed

definition instant_controller :: "u64 \<Rightarrow> 'a uhci_scheme \<Rightarrow> 'a uhci_scheme" where
  "instant_controller ms s = s\<lparr>td_at := (\<lambda>a. (td_at s a)\<lparr>control_status := 0\<rparr>)\<rparr>"

theorem transfer_wait_bounded_witness:
  "fst (uhci_wait_for_transfer_complete instant_controller 5 (put_td 5 (zero_td\<lparr>control_status := 0x800000\<rparr>) demo_uhci)) = 1"
proof -
  let ?s = "put_td 5 (zero_td\<lparr>control_status := 0x800000\<rparr>) demo_uhci"
  have "busy instant_controller 5 ?s 0" "\<not> busy instant_controller 5 ?s 1"
    by (simp_all add: busy_def put_td_def instant_controller_def)
  moreover have "control_status (td_at ((instant_controller 1 ^^ 1) ?s) 5) = 0"
    by (simp add: put_td_def instant_controller_def)
  moreover have "(1 :: nat) < 3000" by simp
  ultimately have "fst (uhci_wait_for_transfer_complete instant_controller 5 ?s) = transfer_code 0"
    using transfer_wait_bounded [of instant_controller 5 ?s] by (metis One_nat_def less_Suc0)
  then show ?thesis by (simp add: transfer_code_def)
qed

text \<open>
  C13. Memory of the control transfers: as long as sleeping leaves the allocator alone, each of the
  five routines returns with a consistent allocator and has released no block of its caller; after
  success SET_ADDRESS and the full GET_CONFIGURATION leave exactly the blocks that were live
  before, while GET_DEVICE, the short GET_CONFIGURATION and SET_CONFIGURATION leave one block of 8
  bytes more, their setup packet.
\<close>

theorem transfers_memory:
  assumes "keeps_heap pause" and "heap_inv (heap s) L"
  shows "hp (uhci_set_device_address pause io_base port addr s) (settled L False) \<and>
    hp (uhci_get_full_configuration_descriptor pause io_base addr buf n s) (settled L False) \<and>
    hp (uhci_get_device_descriptor pause io_base addr buf s) (settled L True) \<and>
    hp (uhci_get_configuration_descriptor pause io_base addr buf s) (settled L True) \<and>
    hp (uhci_set_configuration pause io_base addr v s) (settled L True)"
  using set_address_settled [OF assms] get_full_configuration_settled [OF assms] get_device_settled [OF assms]
    get_configuration_settled [OF assms] set_configuration_settled [OF assms] by blast

theorem transfers_memory_witness:
  "hp (uhci_get_device_descriptor instant_controller 0xC040 1 0x9000 demo_uhci) (settled Map.empty True)"
proof -
  have "keeps_heap instant_controller" by (simp add: keeps_heap_def instant_controller_def)
  moreover have "heap_inv (heap demo_uhci) Map.empty" by (simp add: heap_inv_init)
  ultimately show ?thesis using transfers_memory [of instant_controller demo_uhci Map.empty] by blast
qed

end
