(* ===== verification/Usb.thy ===== *)
theory Usb
  imports Uhci_Transfer
begin

text \<open>
  Enumeration: \<^verbatim>\<open>src/drivers/usb/uhci/enumerate.c\<close> (root ports and devices) and
  \<^verbatim>\<open>src/drivers/usb/usb.c\<close> (controllers).

  \<open>layout\<close> holds the addresses of static and local objects the controller reads and writes: the
  frame list, the array \<open>usb_devices\<close> (its entries are 149 bytes, the device descriptor at offset 1)
  and the local \<open>short_cfg\<close> of \<open>uhci_enumerate_device\<close>.
\<close>

record layout =
  frame_list_at :: u64
  usb_devices_at :: u64
  short_cfg_at :: u64

definition NUM_PORTS :: nat where "NUM_PORTS = 2"

definition port_register :: "u16 \<Rightarrow> nat \<Rightarrow> u16" where
  "port_register io_base port = io_base + 0x10 + of_nat port * 2"

section \<open>Ports\<close>

definition uhci_reset_port ::
    "(u64 \<Rightarrow> 'a uhci_scheme \<Rightarrow> 'a uhci_scheme) \<Rightarrow> u16 \<Rightarrow> nat \<Rightarrow> 'a uhci_scheme \<Rightarrow> 'a uhci_scheme" where
  "uhci_reset_port pause io_base port s =
     (let port_addr = port_register io_base port;
          s = pause 50 (out16 port_addr 0x200 s);
          (v, s) = in16 port_addr s;
          s = pause 50 (out16 port_addr (v AND NOT 0x200) s);
          (status, s) = in16 port_addr s;
          s = pause 10 (out16 port_addr (status OR 4) s);
          (_, s) = in16 port_addr s
      in s)"

section \<open>Devices\<close>

definition update_device :: "nat \<Rightarrow> usb_device \<Rightarrow> 'a uhci_scheme \<Rightarrow> 'a uhci_scheme" where
  "update_device i dev s = s\<lparr>usb_devices := (usb_devices s)[i := dev]\<rparr>"

definition dma_from :: "u64 \<Rightarrow> 'a uhci_scheme \<Rightarrow> bytemem" where
  "dma_from a s = (\<lambda>k. dma s (a + of_nat k))"

text \<open>The last part of \<open>uhci_enumerate_device\<close>: a boot keyboard gets a slot and an interrupt pipe.\<close>

definition attach_keyboard :: "u16 \<Rightarrow> usb_device \<Rightarrow> 'a uhci_scheme \<Rightarrow> 'a uhci_scheme option" where
  "attach_keyboard io_base dev s =
     (let e = endpoint_descriptors dev ! 0 in
      if is_boot_keyboard (interface_descriptor dev)
      then let (idx, s) = keyboard_register_usb_boot_keyboard (usb_address dev) (endpoint_address e) (ep_interval e)
                            (max_packet_size e) s in
           if 0 \<le> idx
           then do {
             (pipe_id, s) \<leftarrow> uhci_kbd_open_interrupt_in io_base (usb_address dev) (endpoint_address e) (ep_interval e)
                               (max_packet_size e) idx s;
             Some (if pipe_id < 0 then uhci_err ''Failed to open UHCI KBD interrupt pipe'' [] s else s)
           }
           else Some s
      else Some s)"

definition configure_device ::
    "(u64 \<Rightarrow> 'a uhci_scheme \<Rightarrow> 'a uhci_scheme) \<Rightarrow> u16 \<Rightarrow> nat \<Rightarrow> nat \<Rightarrow> 'a uhci_scheme \<Rightarrow> 'a uhci_scheme option" where
  "configure_device pause io_base port i s =
     (let dev = usb_devices s ! i in
      do {
        (ok, s) \<leftarrow> uhci_set_configuration pause io_base (usb_address dev) (configuration_value (config_descriptor dev)) s;
        if \<not> ok then Some (uhci_err ''Failed to set configuration on port %d'' [Num (of_nat port)] s)
        else attach_keyboard io_base (usb_devices s ! i) s
      })"

definition read_configuration ::
    "(u64 \<Rightarrow> 'a uhci_scheme \<Rightarrow> 'a uhci_scheme) \<Rightarrow> layout \<Rightarrow> u16 \<Rightarrow> nat \<Rightarrow> nat \<Rightarrow> 'a uhci_scheme \<Rightarrow> 'a uhci_scheme option" where
  "read_configuration pause lay io_base port i s =
     (let address = usb_address (usb_devices s ! i) in
      do {
        (ok, s) \<leftarrow> uhci_get_configuration_descriptor pause io_base address (short_cfg_at lay) s;
        if \<not> ok then Some (uhci_err ''Failed to get short configuration descriptor on port %d'' [Num (of_nat port)] s)
        else do {
          let total_len = total_length (configuration_at (dma_from (short_cfg_at lay) s) 0);
          (blob, s) \<leftarrow> alloc16 (ucast total_len) s;
          if blob = 0 then Some (uhci_err ''Alloc full configuration blob failed'' [] s)
          else do {
            (ok, s) \<leftarrow> uhci_get_full_configuration_descriptor pause io_base address blob total_len s;
            if \<not> ok then Some (free_ptr blob (uhci_err ''Failed to get full configuration descriptor'' [] s))
            else do {
              let (ok, dev, c) = usb_parse_config_blob_into_device (Some (dma_from blob s)) total_len (usb_devices s ! i) (con s);
              let s = update_device i dev (on_con (\<lambda>_. c) s);
              if \<not> ok
              then Some (free_ptr blob (uhci_warn ''Parsing configuration blob failed (no suitable interface/endpoint)'' [] s))
              else configure_device pause io_base port i (free_ptr blob s)
            }
          }
        }
      })"

definition describe_device ::
    "(u64 \<Rightarrow> 'a uhci_scheme \<Rightarrow> 'a uhci_scheme) \<Rightarrow> layout \<Rightarrow> u16 \<Rightarrow> nat \<Rightarrow> u8 \<Rightarrow> 'a uhci_scheme \<Rightarrow> 'a uhci_scheme option" where
  "describe_device pause lay io_base port addr s =
     (let i = unat (usb_device_count s);
          s = update_device i ((usb_devices s ! i)\<lparr>usb_address := addr\<rparr>) (s\<lparr>usb_device_count := usb_device_count s + 1\<rparr>)
      in do {
        (ok, s) \<leftarrow> uhci_get_device_descriptor pause io_base addr (usb_devices_at lay + of_nat i * 149 + 1) s;
        if \<not> ok then Some (uhci_err ''Failed to get device descriptor on port %d'' [Num (of_nat port)] s)
        else read_configuration pause lay io_base port i s
      })"

definition uhci_enumerate_device ::
    "(u64 \<Rightarrow> 'a uhci_scheme \<Rightarrow> 'a uhci_scheme) \<Rightarrow> layout \<Rightarrow> u16 \<Rightarrow> nat \<Rightarrow> 'a uhci_scheme \<Rightarrow> 'a uhci_scheme option" where
  "uhci_enumerate_device pause lay io_base port s =
     (if MAX_USB_DEVICES \<le> unat (usb_device_count s)
      then Some (uhci_warn ''Max USB devices reached. Cannot add device on port %d'' [Num (of_nat port)] s)
      else let addr = of_nat port + 1;
               (ps, s) = in16 (port_register io_base port) (uhci_reset_port pause io_base port s) in
      if \<not> (ps AND 4 \<noteq> 0 \<and> ps AND 1 \<noteq> 0) then Some s
      else do {
        (ok, s) \<leftarrow> uhci_set_device_address pause io_base (of_nat port) addr s;
        if \<not> ok then Some (uhci_err ''Failed to set device address on port %d'' [Num (of_nat port)] s)
        else describe_device pause lay io_base port addr (pause 10 s)
      })"

definition uhci_enumerate_devices ::
    "(u64 \<Rightarrow> 'a uhci_scheme \<Rightarrow> 'a uhci_scheme) \<Rightarrow> layout \<Rightarrow> usb_controller \<Rightarrow> 'a uhci_scheme \<Rightarrow> 'a uhci_scheme option" where
  "uhci_enumerate_devices pause lay ctrl s =
     fold (\<lambda>port m. m \<bind> uhci_enumerate_device pause lay (ucast (base_address ctrl)) port) [0..<NUM_PORTS] (Some s)"

section \<open>Controllers\<close>

definition is_usb_controller :: "pci_device \<Rightarrow> bool" where
  "is_usb_controller dev \<longleftrightarrow> vendor_id dev \<noteq> 0xFFFF \<and> class_code dev = 0x0C \<and> sub_class dev = 0x03"

definition controller_for :: "nat \<Rightarrow> pci_device \<Rightarrow> usb_controller" where
  "controller_for d dev = \<lparr>uc_pci_device = Some d,
     base_address = (if prog_if dev = 0 then find_uhci_io_base dev else bar dev ! 0)\<rparr>"

text \<open>A store behind the 16 entries of \<open>usb_controllers\<close> is recorded as undefined behaviour.\<close>

definition add_controller :: "usb_controller \<Rightarrow> 'a uhci_scheme \<Rightarrow> 'a uhci_scheme" where
  "add_controller ctrl s =
     (let n = unat (usb_controller_count s);
          s1 = (if n < 16 then s\<lparr>usb_controllers := (usb_controllers s)[n := ctrl]\<rparr> else on_con (\<lambda>c. c\<lparr>ub := True\<rparr>) s)
      in s1\<lparr>usb_controller_count := usb_controller_count s1 + 1\<rparr>)"

definition pci_scan_for_usb_controllers :: "'a uhci_scheme \<Rightarrow> 'a uhci_scheme" where
  "pci_scan_for_usb_controllers s =
     fold (\<lambda>d s. if is_usb_controller (pci_devices s ! d) then add_controller (controller_for d (pci_devices s ! d)) s else s)
       [0..<unat (pci_device_count s)] s"

definition enumerate_controller ::
    "(u64 \<Rightarrow> 'a uhci_scheme \<Rightarrow> 'a uhci_scheme) \<Rightarrow> layout \<Rightarrow> nat \<Rightarrow> 'a uhci_scheme \<Rightarrow> 'a uhci_scheme option" where
  "enumerate_controller pause lay i s =
     (if 16 \<le> i then Some (on_con (\<lambda>c. c\<lparr>ub := True\<rparr>) s)
      else case uc_pci_device (usb_controllers s ! i) of
        None \<Rightarrow> Some s
      | Some d \<Rightarrow>
          let ctrl = usb_controllers s ! i; p = prog_if (pci_devices s ! d) in
          if p = 0x00
          then uhci_enumerate_devices pause lay ctrl (snd (uhci_initialize_controller pause (frame_list_at lay) ctrl s))
          else if p = 0x10 then Some (on_con (USB_LOG_WARN ''USB driver for OHCI not yet available.'' []) s)
          else if p = 0x20 then Some (on_con (USB_LOG_WARN ''USB driver for EHCI not yet available.'' []) s)
          else if p = 0x30 then Some (on_con (USB_LOG_WARN ''USB driver for xHCI not yet available.'' []) s)
          else Some (on_con (USB_LOG_ERROR ''USB controller %d not recognized.'' [Num (of_nat i)]) s))"

definition usb_enumerate_devices ::
    "(u64 \<Rightarrow> 'a uhci_scheme \<Rightarrow> 'a uhci_scheme) \<Rightarrow> layout \<Rightarrow> 'a uhci_scheme \<Rightarrow> 'a uhci_scheme option" where
  "usb_enumerate_devices pause lay s =
     fold (\<lambda>i m. m \<bind> enumerate_controller pause lay i) [0..<unat (usb_controller_count s)]
       (Some (s\<lparr>usb_device_count := 0\<rparr>))"


section \<open>The invariant of the USB state\<close>

text \<open>
  \<open>uhci_ok\<close>: the arrays have their declared lengths, the keyboard queues are well formed and at most
  128 devices are recorded.  \<open>okn (n, r, x) s\<close> adds that \<open>n\<close> devices are recorded, whether the PS/2
  keyboard is registered and what the fields of later components hold, and \<open>okc n m\<close> says the same of
  the state a computation ends in.
\<close>

definition uhci_ok :: "'a uhci_scheme \<Rightarrow> bool" where
  "uhci_ok s \<longleftrightarrow> length (frame_list s) = 1024 \<and> length (g_kbd_pipes s) = 4 \<and> length (g_kbds s) = 4 \<and>
     length (usb_devices s) = 128 \<and> length (usb_controllers s) = 16 \<and> unat (usb_device_count s) \<le> 128 \<and>
     length (interrupt_handlers s) = 256 \<and> ring_ok (ev_ring s) \<and> ring_ok (ascii_ring s)"

type_synonym 'a frame = "bool \<times> 'a"

definition okn :: "u8 \<times> 'a frame \<Rightarrow> 'a uhci_scheme \<Rightarrow> bool" where
  "okn n s \<longleftrightarrow> uhci_ok s \<and> usb_device_count s = fst n \<and> (g_ps2_registered s, uhci.more s) = snd n"

definition okc :: "u8 \<times> 'a frame \<Rightarrow> ('r \<times> 'a uhci_scheme) option \<Rightarrow> bool" where
  "okc n m \<longleftrightarrow> (\<forall>r s. m = Some (r, s) \<longrightarrow> okn n s)"

definition keeps_ok :: "(u64 \<Rightarrow> 'a uhci_scheme \<Rightarrow> 'a uhci_scheme) \<Rightarrow> bool" where
  "keeps_ok pause \<longleftrightarrow> (\<forall>ms n s. okn n s \<longrightarrow> okn n (pause ms s))"

lemma keeps_okD: "keeps_ok pause \<Longrightarrow> okn n s \<Longrightarrow> okn n (pause ms s)"
  unfolding keeps_ok_def by blast

named_theorems okn_simps

lemma okc_return: "okn n s \<Longrightarrow> okc n (Some (r, s))"
  by (simp add: okc_def)

lemma okc_bind: "okc n m \<Longrightarrow> (\<And>r s. okn n s \<Longrightarrow> okc n (f r s)) \<Longrightarrow> okc n (m \<bind> (\<lambda>(r, s). f r s))"
  by (auto simp: okc_def bind_eq_Some_conv)

lemma okc_let_state: "okn n x \<Longrightarrow> (\<And>s'. okn n s' \<Longrightarrow> okc n (f s')) \<Longrightarrow> okc n (Let x f)"
  by simp

lemma okc_let_pair: "okn n (snd x) \<Longrightarrow> (\<And>v s'. okn n s' \<Longrightarrow> okc n (f v s')) \<Longrightarrow> okc n (Let x (\<lambda>(v, s'). f v s'))"
  by (cases x) simp

lemma okc_let_word: "(\<And>v. okc n (f v)) \<Longrightarrow> okc n (Let x f)" for x :: "'w::len word"
  by simp

lemma okc_let_bool: "(\<And>v. okc n (f v)) \<Longrightarrow> okc n (Let x f)" for x :: bool
  by simp

lemma okc_if: "(c \<Longrightarrow> okc n x) \<Longrightarrow> (\<not> c \<Longrightarrow> okc n y) \<Longrightarrow> okc n (if c then x else y)"
  by simp

lemmas okc_rules = okc_let_pair okc_let_state okc_let_word okc_let_bool okc_if okc_return

lemma okn_keeps [okn_simps]:
  "okn n (put_setup a sp s) = okn n s" "okn n (put_td a td s) = okn n s" "okn n (put_qh a qh s) = okn n s"
  "okn n (set_slot fr v s) = okn n s" "okn n (set_two_slots fr v s) = okn n s" "okn n (uhci_err fmt args s) = okn n s"
  "okn n (uhci_warn fmt args s) = okn n s" "okn n (snd (in16 p s)) = okn n s" "okn n (dma_clear a k s) = okn n s"
  "okn n (s\<lparr>con := c\<rparr>) = okn n s" "okn n (free_ptr a s) = okn n s" "okn n (free_td a s) = okn n s"
  "okn n (free_qh a s) = okn n s" "okn n (free_setup_packet a s) = okn n s" "okn n (s\<lparr>heap := h\<rparr>) = okn n s"
  by (simp_all add: okn_def uhci_ok_def put_setup_def put_td_def put_qh_def set_slot_def set_two_slots_def uhci_err_def
      uhci_warn_def in16_def dma_clear_def free_ptr_def free_td_def free_qh_def free_setup_packet_def split: prod.split)

lemma okn_if [okn_simps]: "okn n (if c then a else b) = (if c then okn n a else okn n b)"
  by simp

lemma okn_wait: "keeps_ok pause \<Longrightarrow> okn n s \<Longrightarrow> okn n (snd (uhci_wait_for_transfer_complete pause td s))"
proof -
  assume k: "keeps_ok pause"
  have "okn n s \<Longrightarrow> okn n (snd (wait_loop pause td t s))" for t s
    using k
  proof (induction pause td t s rule: wait_loop.induct)
    case (1 pause td timeout s)
    then show ?case by (subst wait_loop.simps) (simp add: keeps_okD)
  qed
  moreover assume "okn n s"
  moreover obtain t s1 where "wait_loop pause td 3000 s = (t, s1)" by fastforce
  ultimately have "okn n s1" and w: "wait_loop pause td 3000 s = (t, s1)" by (metis snd_conv)+
  then show "okn n (snd (uhci_wait_for_transfer_complete pause td s))"
    by (simp add: uhci_wait_for_transfer_complete_def w okn_simps Let_def)
qed

lemma okc_alloc16: "okn n s \<Longrightarrow> okc n (alloc16 k s)"
  by (auto simp: okc_def alloc16_def okn_simps)

lemma okc_allocate:
  assumes "okn n s"
  shows "okc n (allocate_td s)" and "okc n (allocate_qh s)" and "okc n (allocate_setup_packet s)"
  unfolding allocate_td_def allocate_qh_def allocate_setup_packet_def
  by (rule okc_bind [OF okc_alloc16 [OF assms]], auto intro!: okc_if okc_return simp: okn_simps)+

lemma okc_transfers:
  assumes k: "keeps_ok pause" and s: "okn n s"
  shows "okc n (uhci_set_device_address pause io_base port addr s)"
    and "okc n (uhci_get_device_descriptor pause io_base addr desc s)"
    and "okc n (uhci_get_configuration_descriptor pause io_base addr desc s)"
    and "okc n (uhci_get_full_configuration_descriptor pause io_base addr desc len s)"
    and "okc n (uhci_set_configuration pause io_base addr v s)"
proof -
  note rules = okc_rules okc_bind okc_allocate
  have p: "okn n s \<Longrightarrow> okn n (pause ms s)" for ms s using k by (simp add: keeps_okD)
  show "okc n (uhci_set_device_address pause io_base port addr s)"
    unfolding uhci_set_device_address_def by (intro rules) (simp_all add: okn_simps okn_wait [OF k] p s)
  show "okc n (uhci_get_device_descriptor pause io_base addr desc s)"
    unfolding uhci_get_device_descriptor_def by (intro rules) (simp_all add: okn_simps okn_wait [OF k] p s)
  show "okc n (uhci_get_configuration_descriptor pause io_base addr desc s)"
    unfolding uhci_get_configuration_descriptor_def by (intro rules) (simp_all add: okn_simps okn_wait [OF k] p s)
  show "okc n (uhci_get_full_configuration_descriptor pause io_base addr desc len s)"
    unfolding uhci_get_full_configuration_descriptor_def by (intro rules) (simp_all add: okn_simps okn_wait [OF k] p s)
  show "okc n (uhci_set_configuration pause io_base addr v s)"
    unfolding uhci_set_configuration_def by (intro rules) (simp_all add: okn_simps okn_wait [OF k] p s)
qed


section \<open>Enumeration returns and keeps the invariant\<close>

text \<open>
  \<open>ret L m\<close>: the computation returns a state with the invariant and a consistent allocator in which
  every block of \<open>L\<close> is still live.
\<close>

definition good :: "'a frame \<Rightarrow> (u64 \<rightharpoonup> u64) \<Rightarrow> 'a uhci_scheme \<Rightarrow> bool" where
  "good w L s \<longleftrightarrow> uhci_ok s \<and> (g_ps2_registered s, uhci.more s) = w \<and> (\<exists>L'. heap_inv (heap s) L' \<and> L \<subseteq>\<^sub>m L')"

definition ret :: "'a frame \<Rightarrow> (u64 \<rightharpoonup> u64) \<Rightarrow> 'a uhci_scheme option \<Rightarrow> bool" where
  "ret w L m \<longleftrightarrow> (\<exists>s. m = Some s \<and> good w L s)"

lemma ret_Some: "good w L s \<Longrightarrow> ret w L (Some s)"
  by (simp add: ret_def)

lemma good_mono: "good w L' s \<Longrightarrow> L \<subseteq>\<^sub>m L' \<Longrightarrow> good w L s"
  unfolding good_def by (meson map_le_trans)

lemma ret_mono: "ret w L' m \<Longrightarrow> L \<subseteq>\<^sub>m L' \<Longrightarrow> ret w L m"
  by (auto simp: ret_def intro: good_mono)

lemma goodI: "okn n s \<Longrightarrow> heap_inv (heap s) L' \<Longrightarrow> L \<subseteq>\<^sub>m L' \<Longrightarrow> good (snd n) L s"
  by (auto simp: good_def okn_def)

lemma ret_transfer:
  assumes "hp m (settled L leak)" and "okc n m"
    and "\<And>b s L'. heap_inv (heap s) L' \<Longrightarrow> L \<subseteq>\<^sub>m L' \<Longrightarrow> okn n s \<Longrightarrow> ret (snd n) L (f b s)"
  shows "ret (snd n) L (m \<bind> (\<lambda>(b, s). f b s))"
proof -
  obtain b s where m: "m = Some (b, s)" "settled L leak b (heap s)" using assms(1) by (auto simp: hp_def)
  then obtain L' where "heap_inv (heap s) L'" "L \<subseteq>\<^sub>m L'" by (auto simp: settled_def)
  then show ?thesis using m(1) assms(2,3) by (simp add: okc_def)
qed

lemma alloc16_added:
  assumes "heap_inv (heap s) L" and "reasonable k"
  shows "\<exists>a h. alloc16 k s = Some (a, s\<lparr>heap := h\<rparr>) \<and> (a = 0 \<or> L a = None) \<and> heap_inv h (added a k L)"
proof -
  obtain a h where a: "aligned_alloc 16 k (heap s) = Some (a, h)" "a = 0 \<or> L a = None"
      "heap_inv h (if a = 0 then L else L(a := Some k))"
    using ha.alloc_step [OF assms] by blast
  then have "alloc16 k s = Some (a, s\<lparr>heap := h\<rparr>)" by (simp add: alloc16_def)
  then show ?thesis using a(2,3) unfolding added_def by blast
qed

lemma alloc16_cases:
  assumes "heap_inv (heap s) L" and "reasonable k"
  obtains a h where "alloc16 k s = Some (a, s\<lparr>heap := h\<rparr>)" and "a = 0" and "heap_inv h L"
  | a h where "alloc16 k s = Some (a, s\<lparr>heap := h\<rparr>)" and "a \<noteq> 0" and "L a = None" and "heap_inv h (L(a := Some k))"
proof -
  obtain a h where a: "alloc16 k s = Some (a, s\<lparr>heap := h\<rparr>)" "a = 0 \<or> L a = None" "heap_inv h (added a k L)"
    using alloc16_added [OF assms] by blast
  show thesis
  proof (cases "a = 0")
    case True
    have "heap_inv h L" using a(3) unfolding added_def True by simp
    then show thesis by (rule that(1) [OF a(1) True])
  next
    case False
    have "L a = None" using a(2) False by blast
    moreover have "heap_inv h (L(a := Some k))" using a(3) False unfolding added_def by simp
    ultimately show thesis by (rule that(2) [OF a(1) False])
  qed
qed

lemma reasonable_small: "reasonable 8" "reasonable 16" "reasonable (ucast (n :: u16))"
  by (simp_all add: reasonable_def less_trans [OF unat_u16_less])

lemma heap_inv_free_if:
  assumes "heap_inv h (added p n M)" and "p = 0 \<or> M p = None"
  shows "heap_inv (if p \<noteq> 0 then aligned_free p h else h) M"
  using assms heap_inv_free_new [of h M p n] by (auto simp: added_def split: if_splits)

lemma okn_pipes [okn_simps]:
  "okn n (set_pipe i p s) = okn n s" "okn n (release_pipe i s) = okn n s" "okn n (uhci_kbd_rearm_td i b s) = okn n s"
  "okn n (s\<lparr>td_at := x\<rparr>) = okn n s" "okn n (s\<lparr>qh_at := y\<rparr>) = okn n s"
  by (simp_all add: okn_def uhci_ok_def set_pipe_def release_pipe_def free_ptr_def uhci_kbd_rearm_td_def Let_def)


lemma heap_pipes [heap_simps]:
  "heap (set_pipe i p s) = heap s" "heap (uhci_kbd_rearm_td i b s) = heap s"
  by (simp_all add: set_pipe_def uhci_kbd_rearm_td_def Let_def)

lemma heap_release:
  "heap (release_pipe i s) = (let p = g_kbd_pipes s ! i;
     h1 = (if p_td p \<noteq> 0 then aligned_free (p_td p) (heap s) else heap s);
     h2 = (if p_qh p \<noteq> 0 then aligned_free (p_qh p) h1 else h1)
   in if p_buf p \<noteq> 0 then aligned_free (p_buf p) h2 else h2)"
  by (simp add: release_pipe_def free_ptr_def Let_def)

lemma release_new:
  assumes "heap_inv h (added q 16 (added t 16 (L(b := Some 8))))" and "L b = None"
    and "t = 0 \<or> (L(b := Some 8)) t = None" and "q = 0 \<or> added t 16 (L(b := Some 8)) q = None"
  shows "heap_inv (let h1 = (if t \<noteq> 0 then aligned_free t h else h); h2 = (if q \<noteq> 0 then aligned_free q h1 else h1)
                   in aligned_free b h2) L"
proof -
  have swap: "added q 16 (added t 16 (L(b := Some 8))) = added t 16 (added q 16 (L(b := Some 8)))" if "t = 0 \<or> q = 0 \<or> q \<noteq> t"
    using that by (auto simp: added_def fun_eq_iff)
  have "q = 0 \<or> t = 0 \<or> q \<noteq> t" using assms(4) by (auto simp: added_def split: if_splits)
  then have "heap_inv h (added t 16 (added q 16 (L(b := Some 8))))" using assms(1) swap by auto
  moreover have "t = 0 \<or> added q 16 (L(b := Some 8)) t = None"
    using assms(3,4) by (auto simp: added_def split: if_splits)
  ultimately have "heap_inv (if t \<noteq> 0 then aligned_free t h else h) (added q 16 (L(b := Some 8)))"
    by (rule heap_inv_free_if)
  moreover have "q = 0 \<or> (L(b := Some 8)) q = None" using assms(4) by (auto simp: added_def split: if_splits)
  ultimately have "heap_inv (if q \<noteq> 0 then aligned_free q (if t \<noteq> 0 then aligned_free t h else h)
      else (if t \<noteq> 0 then aligned_free t h else h)) (L(b := Some 8))"
    by (rule heap_inv_free_if)
  then show ?thesis unfolding Let_def by (rule heap_inv_free_new) (rule assms(2))
qed

lemma new_block_le: "L b = None \<Longrightarrow> L \<subseteq>\<^sub>m L(b := Some n)"
  by (auto simp: map_le_def dom_def)

lemma place_qh_returns:
  assumes "okn n s" and "i < 4" and "p_interval (g_kbd_pipes s ! i) \<noteq> 0"
  shows "\<exists>s'. place_qh_every_interval i s = Some s' \<and> okn n s' \<and> heap s' = heap s"
proof -
  have "i < length (g_kbd_pipes s)" "length (frame_list s) = 1024" using assms(1,2) by (simp_all add: okn_def uhci_ok_def)
  from place_qh_fills [OF this(1) assms(3) this(2)] show ?thesis
    using assms(1) by (auto simp: okn_def uhci_ok_def)
qed

lemma kbd_open_returns:
  assumes s: "okn n s" and inv: "heap_inv (heap s) L"
  shows "\<exists>r s'. uhci_kbd_open_interrupt_in io addr e iv w idx s = Some (r, s') \<and> okn n s' \<and>
    (\<exists>L'. heap_inv (heap s') L' \<and> L \<subseteq>\<^sub>m L')"
proof (cases "find (\<lambda>i. \<not> in_use (g_kbd_pipes s ! i)) [0..<UHCI_MAX_KBD_PIPES]")
  case None
  then show ?thesis using s inv by (auto simp: uhci_kbd_open_interrupt_in_def)
next
  case (Some i)
  then have i: "i < 4" by (auto simp: UHCI_MAX_KBD_PIPES_def find_Some_iff)
  have len: "length (g_kbd_pipes s) = 4" using s by (simp add: okn_def uhci_ok_def)
  define p where "p = zero_pipe\<lparr>in_use := True, p_io_base := io, dev_addr := addr, p_ep := ep_number_from_addr e,
    p_interval := (if iv = 0 then 1 else iv), dev_index := word_of_int idx, toggle := 0\<rparr>"
  have pz: "p_td p = 0" "p_qh p = 0" "p_buf p = 0" "p_interval p \<noteq> 0" by (simp_all add: p_def zero_pipe_def)
  note body = uhci_kbd_open_interrupt_in_def Some option.case Let_def p_def [symmetric]
  show ?thesis
  proof (cases rule: alloc16_cases [OF inv reasonable_small(1)])
    case (1 b h)
    let ?s = "release_pipe i (set_pipe i (p\<lparr>p_buf := b\<rparr>) (s\<lparr>heap := h\<rparr>))"
    have "uhci_kbd_open_interrupt_in io addr e iv w idx s = Some (-1, ?s)" unfolding body using 1 by simp
    moreover have "heap ?s = h" using 1(2) i len pz by (simp add: heap_release heap_simps) (simp add: set_pipe_def)
    ultimately show ?thesis using s 1(3) by (auto simp: okn_simps)
  next
    case (2 b h)
    let ?s1 = "dma_clear b 8 (set_pipe i (p\<lparr>p_buf := b\<rparr>) (s\<lparr>heap := h\<rparr>))"
    obtain t h1 where t: "alloc16 16 ?s1 = Some (t, ?s1\<lparr>heap := h1\<rparr>)" "t = 0 \<or> (L(b := Some 8)) t = None"
        "heap_inv h1 (added t 16 (L(b := Some 8)))"
      using alloc16_added [of ?s1 "L(b := Some 8)" 16] 2(4) reasonable_small(2) by (auto simp: heap_simps)
    let ?s2 = "?s1\<lparr>heap := h1\<rparr>"
    obtain q h2 where q: "alloc16 16 ?s2 = Some (q, ?s2\<lparr>heap := h2\<rparr>)" "q = 0 \<or> added t 16 (L(b := Some 8)) q = None"
        "heap_inv h2 (added q 16 (added t 16 (L(b := Some 8))))"
      using alloc16_added [of ?s2 "added t 16 (L(b := Some 8))" 16] t(3) reasonable_small(2) by auto
    let ?p = "p\<lparr>p_buf := b, p_td := t, p_qh := q\<rparr>"
    let ?s3 = "set_pipe i ?p (?s2\<lparr>heap := h2\<rparr>)"
    have p3: "g_kbd_pipes ?s3 ! i = ?p" "heap ?s3 = h2"
      using i len by (simp_all add: set_pipe_def dma_clear_def)
    have ok3: "okn n ?s3" using s by (simp add: okn_simps)
    show ?thesis
    proof (cases "t = 0 \<or> q = 0")
      case True
      then have "uhci_kbd_open_interrupt_in io addr e iv w idx s = Some (-1, release_pipe i ?s3)"
        unfolding body using 2(1,2) t(1) q(1) by simp
      moreover have "heap_inv (heap (release_pipe i ?s3)) L"
        unfolding heap_release p3 using release_new [OF q(3) 2(3) t(2) q(2)] 2(2)
        by (simp add: Let_def split: if_splits)
      ultimately show ?thesis using ok3 by (auto simp: okn_simps)
    next
      case False
      let ?s4 = "?s3\<lparr>td_at := (td_at ?s3)(t := zero_td\<lparr>link_pointer := 1, buffer_pointer := phys b\<rparr>),
                     qh_at := (qh_at ?s3)(q := zero_qh)\<rparr>"
      let ?s5 = "uhci_kbd_rearm_td i False ?s4"
      let ?s6 = "?s5\<lparr>qh_at := (qh_at ?s5)(q := \<lparr>horizontal_link_pointer = 1, vertical_link_pointer = phys t\<rparr>)\<rparr>"
      have "okn n ?s6" using ok3 by (simp add: okn_simps)
      moreover have "p_interval (g_kbd_pipes ?s6 ! i) \<noteq> 0"
        using p3(1) pz(4) i len by (simp add: uhci_kbd_rearm_td_def Let_def set_pipe_def dma_clear_def)
      ultimately obtain s7 where s7: "place_qh_every_interval i ?s6 = Some s7" "okn n s7" "heap s7 = heap ?s6"
        using place_qh_returns [OF _ i] by blast
      have "uhci_kbd_open_interrupt_in io addr e iv w idx s = Some (int i, s7)"
        unfolding body using False 2(1,2) t(1) q(1) s7(1) by simp
      moreover have "heap_inv (heap s7) (added q 16 (added t 16 (L(b := Some 8))))"
        using s7(3) q(3) p3(2) by (simp add: heap_simps)
      moreover have "L \<subseteq>\<^sub>m added q 16 (added t 16 (L(b := Some 8)))"
        by (rule map_le_trans [OF map_le_trans [OF new_block_le [where L = L and b = b, OF 2(3)] added_le [where L = "L(b := Some 8)", OF t(2)]]
              added_le [where L = "added t 16 (L(b := Some 8))", OF q(2)]])
      ultimately show ?thesis using s7(2) by blast
    qed
  qed
qed


lemma okn_ok: "okn n s \<Longrightarrow> uhci_ok s"
  by (simp add: okn_def)

lemma good_okn: "good w L s \<Longrightarrow> \<exists>n L'. okn (n, w) s \<and> heap_inv (heap s) L' \<and> L \<subseteq>\<^sub>m L'"
  by (auto simp: good_def okn_def)

lemma okn_register: "okn n (snd (keyboard_register_usb_boot_keyboard a e iv w s)) = okn n s"
  by (simp add: keyboard_register_usb_boot_keyboard_def okn_def uhci_ok_def kbd_register_device_def Let_def split: option.split)

lemma heap_register: "heap (snd (keyboard_register_usb_boot_keyboard a e iv w s)) = heap s"
  by (simp add: keyboard_register_usb_boot_keyboard_def kbd_register_device_def Let_def split: option.split)

lemma attach_keyboard_ret:
  assumes s: "okn n s" and inv: "heap_inv (heap s) L"
  shows "ret (snd n) L (attach_keyboard io dev s)"
proof -
  let ?e = "endpoint_descriptors dev ! 0"
  obtain idx s1 where r: "keyboard_register_usb_boot_keyboard (usb_address dev) (endpoint_address ?e) (ep_interval ?e)
      (max_packet_size ?e) s = (idx, s1)" by fastforce
  have s1: "okn n s1" "heap s1 = heap s" using s okn_register heap_register r by (metis snd_conv)+
  have stay: "ret (snd n) L (Some s)" "ret (snd n) L (Some s1)" using s s1 inv by (auto intro!: ret_Some goodI)
  obtain pid s2 L' where o: "uhci_kbd_open_interrupt_in io (usb_address dev) (endpoint_address ?e) (ep_interval ?e)
      (max_packet_size ?e) idx s1 = Some (pid, s2)" "okn n s2" "heap_inv (heap s2) L'" "L \<subseteq>\<^sub>m L'"
    using kbd_open_returns [OF s1(1)] inv s1(2) by metis
  have "ret (snd n) L (Some (if pid < 0 then uhci_err ''Failed to open UHCI KBD interrupt pipe'' [] s2 else s2))"
    by (rule ret_Some, rule goodI [of n _ L']) (simp_all add: o okn_simps heap_simps)
  then show ?thesis using stay r o(1) by (simp add: attach_keyboard_def Let_def)
qed

text \<open>The state and the allocator after the parts of the code that do not allocate.\<close>

lemma okn_enumeration [okn_simps]:
  "okn n (update_device i d s) = okn n s" "okn n (snd (in32 p s)) = okn n s"
  "okn n (uhci_initialize_frame_list s) = okn n s" "okn n (s\<lparr>g_uhci_ctx := x\<rparr>) = okn n s"
  "okn n (register_interrupt_handler v f s) = okn n s" "okn n (uhci_install_isr ctrl s) = okn n s"
  by (simp_all add: okn_def uhci_ok_def update_device_def in32_def uhci_initialize_frame_list_def
      register_interrupt_handler_def uhci_install_isr_def Let_def split: prod.split option.split)

lemma heap_enumeration [heap_simps]:
  "heap (update_device i d s) = heap s" "heap (snd (in32 p s)) = heap s"
  "heap (uhci_initialize_frame_list s) = heap s" "heap (uhci_install_isr ctrl s) = heap s"
  by (simp_all add: update_device_def in32_def uhci_initialize_frame_list_def register_interrupt_handler_def
      uhci_install_isr_def Let_def split: prod.split option.split)

lemma reset_port_keeps:
  "keeps_heap pause \<Longrightarrow> heap (uhci_reset_port pause io port s) = heap s"
  "keeps_ok pause \<Longrightarrow> okn n s \<Longrightarrow> okn n (uhci_reset_port pause io port s)"
  by (simp_all add: uhci_reset_port_def Let_def case_prod_unfold heap_simps keeps_heap_def keeps_okD okn_simps)

lemma reset_controller_keeps:
  "keeps_heap pause \<Longrightarrow> heap (snd (uhci_reset_controller pause io s)) = heap s"
  "keeps_ok pause \<Longrightarrow> okn n s \<Longrightarrow> okn n (snd (uhci_reset_controller pause io s))"
  by (simp_all add: uhci_reset_controller_def Let_def case_prod_unfold heap_simps keeps_heap_def keeps_okD okn_simps)

lemma controller_steps_keep [heap_simps]:
  "heap (snd (uhci_set_frame_list_base_address io a s)) = heap s"
  "heap (snd (uhci_enable_interrupts io s)) = heap s" "heap (snd (uhci_start_controller io s)) = heap s"
  by (simp_all add: uhci_set_frame_list_base_address_def uhci_enable_interrupts_def uhci_start_controller_def Let_def
      case_prod_unfold heap_simps)

lemma controller_steps_okn [okn_simps]:
  "okn n (snd (uhci_set_frame_list_base_address io a s)) = okn n s"
  "okn n (snd (uhci_enable_interrupts io s)) = okn n s" "okn n (snd (uhci_start_controller io s)) = okn n s"
  by (simp_all add: uhci_set_frame_list_base_address_def uhci_enable_interrupts_def uhci_start_controller_def Let_def
      case_prod_unfold okn_simps)

lemma initialize_controller_keeps:
  "keeps_heap pause \<Longrightarrow> heap (snd (uhci_initialize_controller pause fl ctrl s)) = heap s"
  "keeps_ok pause \<Longrightarrow> okn n s \<Longrightarrow> okn n (snd (uhci_initialize_controller pause fl ctrl s))"
  by (simp_all add: uhci_initialize_controller_def case_prod_unfold Let_def heap_simps okn_simps reset_controller_keeps
      split: option.split)

lemma configure_device_ret:
  assumes k: "keeps_heap pause" "keeps_ok pause" and s: "okn n s" and inv: "heap_inv (heap s) L"
  shows "ret (snd n) L (configure_device pause io port i s)"
  unfolding configure_device_def Let_def
proof (rule ret_transfer [OF set_configuration_settled [OF k(1) inv] okc_transfers(5) [OF k(2) s]])
  fix ok :: bool and s' L'
  assume s': "heap_inv (heap s') L'" "L \<subseteq>\<^sub>m L'" "okn n s'"
  then have "ret (snd n) L (Some (uhci_err ''Failed to set configuration on port %d'' [Num (of_nat port)] s'))"
    by (intro ret_Some goodI [of n _ L']) (simp_all add: okn_simps heap_simps)
  moreover have "ret (snd n) L (attach_keyboard io (usb_devices s' ! i) s')"
    by (rule ret_mono [OF attach_keyboard_ret [OF s'(3,1)] s'(2)])
  ultimately show "ret (snd n) L (if \<not> ok then Some (uhci_err ''Failed to set configuration on port %d'' [Num (of_nat port)] s')
      else attach_keyboard io (usb_devices s' ! i) s')" by simp
qed

lemma free_blob:
  assumes "heap_inv (heap s) M" and "L(b := Some k) \<subseteq>\<^sub>m M" and "L b = None"
  shows "heap_inv (heap (free_ptr b s)) (M(b := None))" and "L \<subseteq>\<^sub>m M(b := None)"
proof -
  have "M b = Some k" using assms(2) by (auto simp: map_le_def dest: bspec [of _ _ b])
  then show "heap_inv (heap (free_ptr b s)) (M(b := None))" using assms(1) by (simp add: free_ptr_def heap_inv_free)
  show "L \<subseteq>\<^sub>m M(b := None)" using assms(2,3) by (auto simp: map_le_def dom_def split: if_splits)
qed

text \<open>The blob of the configuration is released on every path.\<close>

lemma blob_ret:
  assumes k: "keeps_heap pause" "keeps_ok pause" and s: "okn n s"
    and inv: "heap_inv (heap s) (L(blob := Some (ucast len)))" and "L blob = None"
  shows "ret (snd n) L (do {
            (ok, s) \<leftarrow> uhci_get_full_configuration_descriptor pause io addr blob len s;
            if \<not> ok then Some (free_ptr blob (uhci_err ''Failed to get full configuration descriptor'' [] s))
            else do {
              let (ok, dev, c) = usb_parse_config_blob_into_device (Some (dma_from blob s)) len (usb_devices s ! i) (con s);
              let s = update_device i dev (on_con (\<lambda>_. c) s);
              if \<not> ok
              then Some (free_ptr blob (uhci_warn ''Parsing configuration blob failed (no suitable interface/endpoint)'' [] s))
              else configure_device pause io port i (free_ptr blob s)
            }
          })"
proof -
  let ?M = "L(blob := Some (ucast len))"
  have "hp (uhci_get_full_configuration_descriptor pause io addr blob len s) (settled ?M False)"
    by (rule get_full_configuration_settled [OF k(1) inv])
  then obtain ok s1 M where 1: "uhci_get_full_configuration_descriptor pause io addr blob len s = Some (ok, s1)"
      "heap_inv (heap s1) M" "?M \<subseteq>\<^sub>m M" by (auto simp: hp_def settled_def)
  have s1: "okn n s1" using okc_transfers(4) [OF k(2) s] 1(1) by (simp add: okc_def)
  have freed: "ret (snd n) L (Some (free_ptr blob s'))" "ret (snd n) L (configure_device pause io port i (free_ptr blob s'))"
    if "okn n s'" "heap s' = heap s1" for s'
  proof -
    have "heap_inv (heap (free_ptr blob s')) (M(blob := None))" "L \<subseteq>\<^sub>m M(blob := None)"
      using free_blob [of s' M L blob "ucast len"] 1(2,3) assms(5) that(2) by simp_all
    moreover have "okn n (free_ptr blob s')" using that(1) by (simp add: okn_simps)
    ultimately show "ret (snd n) L (Some (free_ptr blob s'))" "ret (snd n) L (configure_device pause io port i (free_ptr blob s'))"
      by (auto intro!: ret_Some intro: goodI) (rule ret_mono [OF configure_device_ret [OF k]])
  qed
  obtain ok2 dev c where p: "usb_parse_config_blob_into_device (Some (dma_from blob s1)) len (usb_devices s1 ! i) (con s1) = (ok2, dev, c)"
    by (metis prod_cases3)
  show ?thesis using freed s1 by (simp add: 1(1) p okn_simps heap_simps Let_def)
qed

lemma read_configuration_ret:
  assumes k: "keeps_heap pause" "keeps_ok pause" and s: "okn n s" and inv: "heap_inv (heap s) L"
  shows "ret (snd n) L (read_configuration pause lay io port i s)"
  unfolding read_configuration_def Let_def
proof (rule ret_transfer [OF get_configuration_settled [OF k(1) inv] okc_transfers(3) [OF k(2) s]], goal_cases)
  case (1 ok s' L')
  have err: "ret (snd n) L (Some (uhci_err fmt args s1))" if "okn n s1" "heap_inv (heap s1) L'" for s1 fmt args
    using that 1(2) by (intro ret_Some goodI [of n _ L']) (simp_all add: okn_simps heap_simps)
  let ?len = "total_length (configuration_at (dma_from (short_cfg_at lay) s') 0)"
  show ?case
  proof (cases rule: alloc16_cases [OF 1(1) reasonable_small(3) [of ?len]])
    case (1 a h)
    then show ?thesis using err [of "s'\<lparr>heap := h\<rparr>"] err [OF \<open>okn n s'\<close> \<open>heap_inv (heap s') L'\<close>] \<open>okn n s'\<close>
      by (simp add: okn_simps)
  next
    case (2 a h)
    let ?s = "s'\<lparr>heap := h\<rparr>"
    have ok: "okn n ?s" "heap_inv (heap ?s) (L'(a := Some (ucast ?len)))" using 2(4) \<open>okn n s'\<close> by (simp_all add: okn_simps)
    show ?thesis
      using ret_mono [OF blob_ret [where addr = "usb_address (usb_devices s ! i)" and io = io and port = port and i = i,
        unfolded Let_def, OF k ok 2(3)] \<open>L \<subseteq>\<^sub>m L'\<close>] 2(1,2) err [OF \<open>okn n s'\<close> \<open>heap_inv (heap s') L'\<close>]
      by (simp add: Let_def)
  qed
qed

lemma okn_count:
  assumes "okn n s" and "unat (fst n) < 128"
  shows "okn (fst n + 1, snd n) (s\<lparr>usb_device_count := fst n + 1\<rparr>)"
proof -
  have "unat (fst n + 1) = unat (fst n) + 1" using assms(2) by (simp add: unat_word_ariths)
  then show ?thesis using assms by (simp add: okn_def uhci_ok_def)
qed

lemma okn_dest: "okn n s \<Longrightarrow> usb_device_count s = fst n"
  by (simp add: okn_def)

lemma describe_device_ret:
  assumes k: "keeps_heap pause" "keeps_ok pause" and s: "okn n s" and inv: "heap_inv (heap s) L" and n: "unat (fst n) < 128"
  shows "ret (snd n) L (describe_device pause lay io port addr s)"
proof -
  let ?i = "unat (usb_device_count s)"
  let ?s = "update_device ?i ((usb_devices s ! ?i)\<lparr>usb_address := addr\<rparr>) (s\<lparr>usb_device_count := usb_device_count s + 1\<rparr>)"
  have s1: "okn (fst n + 1, snd n) ?s" "heap_inv (heap ?s) L" using okn_count [OF s n] okn_dest [OF s] inv by (simp_all add: okn_simps heap_simps)
  show ?thesis unfolding describe_device_def Let_def
  proof (rule ret_transfer [where n = "(fst n + 1, snd n)", unfolded snd_conv,
        OF get_device_settled [OF k(1) s1(2)] okc_transfers(2) [OF k(2) s1(1)]], goal_cases)
    case (1 ok s2 L2)
    then have "ret (snd n) L (Some (uhci_err fmt args s2))" for fmt args
      by (intro ret_Some goodI [of "(fst n + 1, snd n)" _ L2, simplified]) (simp_all add: okn_simps heap_simps)
    then show ?case using ret_mono [OF read_configuration_ret [OF k 1(3,1)] 1(2)] by simp
  qed
qed

lemma enumerate_device_ret:
  assumes k: "keeps_heap pause" "keeps_ok pause" and s: "okn n s" and inv: "heap_inv (heap s) L"
  shows "ret (snd n) L (uhci_enumerate_device pause lay io port s)"
proof -
  obtain ps s1 where r: "in16 (port_register io port) (uhci_reset_port pause io port s) = (ps, s1)" by fastforce
  have s1: "okn n s1" "heap s1 = heap s"
    using reset_port_keeps [where io = io and port = port and s = s] k s r
    by (metis heap_keeps(8) okn_keeps(8) snd_conv)+
  then have inv1: "heap_inv (heap s1) L" using inv by simp
  have stop: "ret (snd n) L (Some (uhci_warn fmt args s))" "ret (snd n) L (Some s1)" for fmt args
    using s s1 inv by (auto intro!: ret_Some goodI [of n _ L] simp: okn_simps heap_simps)
  have go: "ret (snd n) L (uhci_set_device_address pause io (of_nat port) (of_nat port + 1) s1 \<bind> (\<lambda>(ok, s).
      if \<not> ok then Some (uhci_err ''Failed to set device address on port %d'' [Num (of_nat port)] s)
      else describe_device pause lay io port (of_nat port + 1) (pause 10 s)))" if n: "unat (fst n) < 128"
  proof (rule ret_transfer [OF set_address_settled [OF k(1) inv1] okc_transfers(1) [OF k(2) s1(1)]], goal_cases)
    case (1 ok s2 L2)
    then have "okn n (pause 10 s2)" "heap_inv (heap (pause 10 s2)) L2" using k by (simp_all add: keeps_okD keeps_heap_def)
    then have "ret (snd n) L (describe_device pause lay io port (of_nat port + 1) (pause 10 s2))"
      by (rule ret_mono [OF describe_device_ret [OF k _ _ n] 1(2)])
    moreover have "ret (snd n) L (Some (uhci_err fmt args s2))" for fmt args
      using 1 by (intro ret_Some goodI [of n _ L2]) (simp_all add: okn_simps heap_simps)
    ultimately show ?case by simp
  qed
  show ?thesis
    using go stop s unfolding uhci_enumerate_device_def Let_def MAX_USB_DEVICES_def r prod.case
    by (auto simp: okn_def not_le)
qed

lemma ret_fold:
  assumes "\<And>i s. good w L s \<Longrightarrow> ret w L (f i s)"
  shows "ret w L m \<Longrightarrow> ret w L (fold (\<lambda>i m. m \<bind> f i) xs m)"
proof (induction xs arbitrary: m)
  case (Cons x xs)
  then have "ret w L (m \<bind> f x)" using assms by (auto simp: ret_def)
  then show ?case using Cons.IH by simp
qed simp

lemma ret_of_good:
  assumes "good w L s" and "\<And>n L'. okn (n, w) s \<Longrightarrow> heap_inv (heap s) L' \<Longrightarrow> ret w L' (f s)"
  shows "ret w L (f s)"
  using good_okn [OF assms(1)] assms(2) ret_mono by blast

lemma enumerate_controller_ret:
  assumes k: "keeps_heap pause" "keeps_ok pause" and s: "good w L s"
  shows "ret w L (enumerate_controller pause lay i s)"
proof -
  have port: "good w L s' \<Longrightarrow> ret w L (uhci_enumerate_device pause lay io port s')" for s' io port
    by (erule ret_of_good) (drule (1) enumerate_device_ret [OF k], simp)
  have keep: "ret w L (Some s)" "ret w L (Some (on_con g s))" for g
    using s by (auto intro!: ret_Some simp: good_def uhci_ok_def)
  have init: "good w L (snd (uhci_initialize_controller pause fl ctrl s))" for fl ctrl
    using good_okn [OF s] initialize_controller_keeps [where pause = pause and fl = fl and ctrl = ctrl and s = s] k
    by (metis goodI snd_conv)
  have "ret w L (uhci_enumerate_devices pause lay ctrl (snd (uhci_initialize_controller pause fl ctrl' s)))" for ctrl ctrl' fl
    unfolding uhci_enumerate_devices_def by (rule ret_fold [OF port ret_Some [OF init]])
  then show ?thesis using keep by (simp add: enumerate_controller_def Let_def split: option.split)
qed

lemma enumeration_ret:
  assumes "keeps_heap pause" and "keeps_ok pause" and "uhci_ok s" and "heap_inv (heap s) L"
  shows "ret (g_ps2_registered s, uhci.more s) L (usb_enumerate_devices pause lay s)"
proof -
  have "good (g_ps2_registered s, uhci.more s) L (s\<lparr>usb_device_count := 0\<rparr>)"
    using assms(3,4) by (auto simp: good_def uhci_ok_def)
  then show ?thesis
    unfolding usb_enumerate_devices_def
    by (intro ret_fold ret_Some) (rule enumerate_controller_ret [OF assms(1,2)])
qed

section \<open>What the controller scan records\<close>

lemma add_controller_devices [simp]: "pci_devices (add_controller c s) = pci_devices s"
  by (simp add: add_controller_def Let_def)

lemma scan_filter:
  "pci_devices s = ds \<Longrightarrow>
   fold (\<lambda>d s. if is_usb_controller (pci_devices s ! d) then add_controller (controller_for d (pci_devices s ! d)) s else s) xs s =
   fold (\<lambda>d. add_controller (controller_for d (ds ! d))) (filter (\<lambda>d. is_usb_controller (ds ! d)) xs) s"
  by (induction xs arbitrary: s) auto

lemma add_controllers_fit:
  "length (usb_controllers s) = 16 \<Longrightarrow> unat (usb_controller_count s) = n \<Longrightarrow> n + length cs \<le> 16 \<Longrightarrow>
   fold add_controller cs s = s\<lparr>usb_controllers := take n (usb_controllers s) @ cs @ drop (n + length cs) (usb_controllers s),
     usb_controller_count := of_nat (n + length cs)\<rparr>"
proof (induction cs arbitrary: n s)
  case Nil
  then show ?case by auto
next
  case (Cons c cs)
  let ?s = "add_controller c s"
  have s: "?s = s\<lparr>usb_controllers := (usb_controllers s)[n := c], usb_controller_count := of_nat (Suc n)\<rparr>"
    using Cons.prems by (auto simp: add_controller_def Let_def)
  have "unat (usb_controller_count ?s) = Suc n" using Cons.prems by (simp add: s unat_word_ariths unat_of_nat)
  moreover have "take (Suc n) ((usb_controllers s)[n := c]) = take n (usb_controllers s) @ [c]"
    using Cons.prems by (simp add: take_Suc_conv_app_nth)
  ultimately show ?case using Cons.IH [of ?s "Suc n"] Cons.prems by (simp add: s)
qed

lemma add_controllers_overflow:
  "16 < unat (usb_controller_count s) + length cs \<Longrightarrow> cs \<noteq> [] \<Longrightarrow> ub (con (fold add_controller cs s))"
proof (induction cs arbitrary: s)
  case (Cons c cs)
  have stays: "ub (con s) \<Longrightarrow> ub (con (fold add_controller cs s))" for cs s
    by (induction cs arbitrary: s) (auto simp: add_controller_def Let_def)
  show ?case
  proof (cases "unat (usb_controller_count s) < 16")
    case True
    then have "unat (usb_controller_count (add_controller c s)) = Suc (unat (usb_controller_count s))"
      by (simp add: add_controller_def Let_def unat_word_ariths)
    then show ?thesis using Cons True by (cases cs) auto
  next
    case False
    then have "ub (con (add_controller c s))" by (simp add: add_controller_def Let_def)
    then show ?thesis using stays by simp
  qed
qed simp

section \<open>Properties\<close>

text \<open>A machine whose PCI table holds one UHCI controller with its registers at port 0xC040.\<close>

definition demo_function :: pci_device where
  "demo_function = zero_pci_device\<lparr>vendor_id := 0x8086, class_code := 0x0C, sub_class := 3,
     bar := [0, 0, 0, 0, 0xC041, 0], interrupt_line := 11\<rparr>"

definition demo_usb :: uhci where
  "demo_usb = demo_uhci\<lparr>pci_devices := demo_function # replicate 255 zero_pci_device, pci_device_count := 1,
     g_kbd_pipes := replicate 4 zero_pipe\<rparr>"

lemma demo_usb_fields [simp]:
  "usb_controllers demo_usb = replicate 16 \<lparr>uc_pci_device = None, base_address = 0\<rparr>" "usb_controller_count demo_usb = 0"
  "pci_devices demo_usb = demo_function # replicate 255 zero_pci_device" "pci_device_count demo_usb = 1"
  "heap demo_usb = heap_init 0x200000"
  by (simp_all add: demo_usb_def demo_uhci_def pci.defs)

lemma demo_usb_ok: "uhci_ok demo_usb"
proof -
  have "ring_ok (ev_ring demo_kbd)" "ring_ok (ascii_ring demo_kbd)" "length (interrupt_handlers demo_kbd) = 256"
    using demo_kbd_ok(1) by (simp_all add: kbd_ok_def demo_kbd_def demo_cpu_def cpu.defs)
  then show ?thesis
    by (simp add: uhci_ok_def demo_usb_def demo_uhci_def demo_pci_def demo_cmdline_def demo_usb_kbd_def pci.defs cmdline.defs
        usb_kbd.defs kbd.defs)
qed

lemma demo_is_usb: "is_usb_controller demo_function" "controller_for 0 demo_function = \<lparr>uc_pci_device = Some 0, base_address = 0xC040\<rparr>"
  by (simp_all add: is_usb_controller_def demo_function_def zero_pci_device_def controller_for_def find_uhci_io_base_def
      upt_conv_Cons)


lemma instant_controller_keeps: "keeps_heap instant_controller" "keeps_ok instant_controller"
  by (simp_all add: keeps_heap_def keeps_ok_def instant_controller_def okn_simps)


text \<open>
  C38. The scan for USB controllers appends one entry per USB function of the PCI table, in the order
  of the table, with the I/O base of a UHCI controller or the first base address of another, as long
  as they fit behind the entries of earlier scans; the count is never reset, so that a scan that
  does not fit writes behind the 16 entries.
\<close>

theorem usb_controller_scan:
  assumes "length (usb_controllers s) = 16" and "n = unat (usb_controller_count s)"
    and "cs = map (\<lambda>d. controller_for d (pci_devices s ! d))
      (filter (\<lambda>d. is_usb_controller (pci_devices s ! d)) [0..<unat (pci_device_count s)])"
  shows "(n + length cs \<le> 16 \<longrightarrow> pci_scan_for_usb_controllers s =
      s\<lparr>usb_controllers := take n (usb_controllers s) @ cs @ drop (n + length cs) (usb_controllers s),
        usb_controller_count := of_nat (n + length cs)\<rparr>) \<and>
    (16 < n + length cs \<and> cs \<noteq> [] \<longrightarrow> ub (con (pci_scan_for_usb_controllers s)))"
proof -
  have "pci_scan_for_usb_controllers s = fold add_controller cs s"
    unfolding pci_scan_for_usb_controllers_def scan_filter [OF refl] assms(3) by (simp add: fold_map comp_def)
  then show ?thesis using add_controllers_fit [of s n cs] add_controllers_overflow [of s cs] assms(1,2) by simp
qed

theorem usb_controller_scan_witness:
  "pci_scan_for_usb_controllers demo_usb = demo_usb\<lparr>usb_controllers := \<lparr>uc_pci_device = Some 0, base_address = 0xC040\<rparr> #
      replicate 15 \<lparr>uc_pci_device = None, base_address = 0\<rparr>, usb_controller_count := 1\<rparr> \<and>
   ub (con (pci_scan_for_usb_controllers (demo_usb\<lparr>usb_controller_count := 16\<rparr>)))"
proof -
  let ?c = "controller_for 0 demo_function"
  have drop: "drop 1 (replicate 16 x) = replicate 15 x" for x :: usb_controller by (simp add: numeral_eq_Suc)
  have "length (usb_controllers demo_usb) = 16" "0 = unat (usb_controller_count demo_usb)"
    "[?c] = map (\<lambda>d. controller_for d (pci_devices demo_usb ! d))
      (filter (\<lambda>d. is_usb_controller (pci_devices demo_usb ! d)) [0..<unat (pci_device_count demo_usb)])"
    by (simp_all add: demo_is_usb)
  from conjunct1 [OF usb_controller_scan [OF this]]
  have one: "pci_scan_for_usb_controllers demo_usb = demo_usb\<lparr>usb_controllers := \<lparr>uc_pci_device = Some 0, base_address = 0xC040\<rparr> #
      replicate 15 \<lparr>uc_pci_device = None, base_address = 0\<rparr>, usb_controller_count := 1\<rparr>"
    using drop by (simp add: demo_is_usb)
  let ?s = "demo_usb\<lparr>usb_controller_count := 16\<rparr>"
  have "length (usb_controllers ?s) = 16" "16 = unat (usb_controller_count ?s)"
    "[?c] = map (\<lambda>d. controller_for d (pci_devices ?s ! d))
      (filter (\<lambda>d. is_usb_controller (pci_devices ?s ! d)) [0..<unat (pci_device_count ?s)])"
    by (simp_all add: demo_is_usb)
  from conjunct2 [OF usb_controller_scan [OF this]] have "ub (con (pci_scan_for_usb_controllers ?s))" by simp
  with one show ?thesis by blast
qed

end
