(* ===== verification/Shell.thy ===== *)
theory Shell
  imports Usb
begin

text \<open>
  \<^verbatim>\<open>src/kernel/shell/shell.c\<close>: the command interpreter.

  \<open>shell\<close> adds the globals of the file to the state: \<open>end_command\<close>, \<open>start\<close> and the buffer \<open>command\<close>
  (\<open>cursor\<close> and \<open>pop\<close> are never used).  The kernel calls \<open>shell_main_loop\<close> for ever; one call prints the
  banner or runs a finished command and then handles every waiting key event.  Interrupts arrive
  while it does so: the list \<open>irqs\<close> holds what the interrupts in front of each look at the event queue
  do to the state, and the interrupts that come after the call are returned.

  The specification of a call is \<open>turn\<close>: a finished line is run and replaced by an empty one, then the
  pressed keys edit the line, and it is finished when the last of them is Enter.
\<close>

record shell = uhci +
  end_command :: bool
  shell_start :: bool
  command :: bytemem

section \<open>Operations\<close>

definition string_at :: "u8 list \<Rightarrow> bytemem" where
  "string_at xs = store (\<lambda>_. 0) 0 xs"

text \<open>Both times a line begins the code asks for the cursor, sets the start of the line and empties it.\<close>

definition new_line :: "'a shell_scheme \<Rightarrow> 'a shell_scheme" where
  "new_line s =
     (let (offset, c) = get_cursor_offset (con s);
          s1 = init_command_line (cdiv offset 2) (on_con (\<lambda>_. c) s);
          (m, s2) = flush_command_line (Some (command s1)) s1
      in s2\<lparr>command := (case m of None \<Rightarrow> command s2 | Some x \<Rightarrow> x)\<rparr>)"

definition shell_welcome :: "'a shell_scheme \<Rightarrow> 'a shell_scheme" where
  "shell_welcome s =
     (new_line (on_con (kprint (lit ''Welcome to CasseOS Shell!'' @ [10] @ lit ''>'')) s))\<lparr>shell_start := False\<rparr>"

definition run_command :: "'a shell_scheme \<Rightarrow> 'a shell_scheme option" where
  "run_command s = do {
     let s = on_con (kprint [10]) s;
     r \<leftarrow> strcmp (command s) (string_at (lit ''usb_scan''));
     s \<leftarrow> (if r = 0
           then Some (pci_scan_for_usb_controllers (on_con (kprint (lit ''Executing the scan...'' @ [10])) s))
           else do {
             xs \<leftarrow> cstring_bytes (command s);
             Some (on_con (\<lambda>c. kprint [39, 10] (kprint xs (kprint (lit ''Incorrect command: '' @ [39]) c))) s)
           });
     Some (new_line ((on_con (kprint (lit ''>'')) s)\<lparr>end_command := False\<rparr>))
   }"

definition handle_event :: "key_event \<Rightarrow> 'a shell_scheme \<Rightarrow> 'a shell_scheme option" where
  "handle_event ev s =
     (if ev_type ev = KEY_EV_PRESS
      then map_option (\<lambda>(fin, m, s'). s'\<lparr>end_command := fin, command := (case m of None \<Rightarrow> command s' | Some x \<Rightarrow> x)\<rparr>)
             (handle_command_line (code ev) (Some (command s)) s)
      else Some s)"

partial_function (option) drain_events ::
    "('a shell_scheme \<Rightarrow> 'a shell_scheme) list \<Rightarrow> 'a shell_scheme \<Rightarrow>
     (('a shell_scheme \<Rightarrow> 'a shell_scheme) list \<times> 'a shell_scheme) option" where
  "drain_events irqs s =
     (let s1 = (case irqs of [] \<Rightarrow> s | irq # _ \<Rightarrow> irq s) in
      case kbd_read_event s1 of
        None \<Rightarrow> Some (tl irqs, s1)
      | Some (ev, s2) \<Rightarrow> do { s3 \<leftarrow> handle_event ev s2; drain_events (tl irqs) s3 })"

definition shell_main_loop ::
    "('a shell_scheme \<Rightarrow> 'a shell_scheme) list \<Rightarrow> 'a shell_scheme \<Rightarrow>
     (('a shell_scheme \<Rightarrow> 'a shell_scheme) list \<times> 'a shell_scheme) option" where
  "shell_main_loop irqs s =
     (let s1 = (if shell_start s then shell_welcome s else s) in
      do { s2 \<leftarrow> (if end_command s1 then run_command s1 else Some s1); drain_events irqs s2 })"

text \<open>The endless loop of \<open>kernel_main\<close>, cut after \<open>n\<close> calls.\<close>

primrec shell_loop ::
    "nat \<Rightarrow> ('a shell_scheme \<Rightarrow> 'a shell_scheme) list \<Rightarrow> 'a shell_scheme \<Rightarrow>
     (('a shell_scheme \<Rightarrow> 'a shell_scheme) list \<times> 'a shell_scheme) option" where
  "shell_loop 0 irqs s = Some (irqs, s)"
| "shell_loop (Suc n) irqs s = do { (irqs, s) \<leftarrow> shell_main_loop irqs s; shell_loop n irqs s }"

section \<open>What a call promises\<close>

definition presses :: "key_event list \<Rightarrow> u16 list" where
  "presses evs = map code (filter (\<lambda>e. ev_type e = KEY_EV_PRESS) evs)"

definition finished :: "bool \<Rightarrow> u16 list \<Rightarrow> bool" where
  "finished old ks = (if ks = [] then old else last ks = KC_ENTER)"

definition turn :: "u16 list \<Rightarrow> (u8 list \<times> nat) \<times> bool \<Rightarrow> (u8 list \<times> nat) \<times> bool" where
  "turn ks line = (fold edit_key ks (if snd line then ([], 0) else fst line), finished False ks)"

text \<open>What of the state a keyboard interrupt leaves alone.\<close>

definition shell_view :: "'a shell_scheme \<Rightarrow> bytemem \<times> u16 \<times> u16 \<times> bool \<times> bool" where
  "shell_view s = (command s, cmd_len s, cmd_cursor s, end_command s, shell_start s)"

definition delivers :: "key_event list \<Rightarrow> ('a shell_scheme \<Rightarrow> 'a shell_scheme) \<Rightarrow> bool" where
  "delivers es irq \<longleftrightarrow> (\<forall>s. kbd_ok s \<and> length (ring_contents (ev_ring s)) + length es \<le> 255 \<longrightarrow>
     kbd_ok (irq s) \<and> ring_contents (ev_ring (irq s)) = ring_contents (ev_ring s) @ es \<and> shell_view (irq s) = shell_view s)"

text \<open>
  \<open>at_line s evs line\<close>: the event queue holds \<open>evs\<close>, the line under the cursor is \<open>fst line\<close>, and \<open>snd line\<close>
  tells whether it is waiting to be run.
\<close>

definition at_line :: "'a shell_scheme \<Rightarrow> key_event list \<Rightarrow> (u8 list \<times> nat) \<times> bool \<Rightarrow> bool" where
  "at_line s evs line \<longleftrightarrow> kbd_ok s \<and> ring_contents (ev_ring s) = evs \<and> edits (command s) s (fst line) \<and>
     end_command s = snd line \<and> \<not> shell_start s"

section \<open>Lemmas\<close>

lemma key_step_rings:
  fixes s :: "'a shell_scheme"
  assumes "key_step m s tp m' s' tp'"
  shows "ev_ring s' = ev_ring s" "ascii_ring s' = ascii_ring s" "shell_start s' = shell_start s"
proof -
  have "s' = s\<lparr>con := con s', cmd_cursor := cmd_cursor s', cmd_len := cmd_len s'\<rparr>" using assms unfolding key_step_def by blast
  then obtain c a b where "s' = s\<lparr>con := c, cmd_cursor := a, cmd_len := b\<rparr>" by blast
  then show "ev_ring s' = ev_ring s" "ascii_ring s' = ascii_ring s" "shell_start s' = shell_start s" by simp_all
qed

lemma edits_fields: "edits m s tp \<Longrightarrow> cmd_len s' = cmd_len s \<Longrightarrow> cmd_cursor s' = cmd_cursor s \<Longrightarrow> edits m s' tp"
  by (simp add: edits_def)

lemma edit_key_enter: "edit_key KC_ENTER tp = tp"
  by (cases tp) (simp add: edit_key_def kc_defs)

lemma enter_keeps_buffer: "edits m s tp \<Longrightarrow> handle_key KC_ENTER m s = Some (True, m, s)"
  by (auto simp: handle_key_def edits_def cstring_def fun_upd_idem)

lemma handle_event_line:
  assumes "at_line s evs (tp, b)"
  shows "\<exists>s'. handle_event ev s = Some s' \<and> at_line s' evs (fold edit_key (presses [ev]) tp, finished b (presses [ev]))"
proof (cases "ev_type ev = KEY_EV_PRESS")
  case False
  then show ?thesis using assms by (simp add: handle_event_def presses_def finished_def)
next
  case press: True
  have e: "edits (command s) s tp" using assms by (simp add: at_line_def)
  show ?thesis
  proof (cases "code ev = KC_ENTER")
    case True
    have "handle_event ev s = Some (s\<lparr>end_command := True\<rparr>)"
      using press True enter_keeps_buffer [OF e] by (simp add: handle_event_def handle_command_line_def)
    moreover have "at_line (s\<lparr>end_command := True\<rparr>) evs (tp, True)"
      using assms edits_fields [OF e, of "s\<lparr>end_command := True\<rparr>"] by (simp add: at_line_def kbd_ok_def)
    ultimately show ?thesis using press True by (simp add: presses_def finished_def edit_key_enter)
  next
    case False
    obtain m1 s1 where k: "handle_key (code ev) (command s) s = Some (False, m1, s1)"
        "key_step (command s) s tp m1 s1 (edit_key (code ev) tp)"
      using handle_key_edits [of "command s" s "fst tp" "snd tp" "code ev"] e False by auto
    let ?s = "s1\<lparr>end_command := False, command := m1\<rparr>"
    have "handle_event ev s = Some ?s" using press k(1) by (simp add: handle_event_def handle_command_line_def)
    moreover have "at_line ?s evs (edit_key (code ev) tp, False)"
      using assms key_step_rings [OF k(2)] edits_fields [OF key_step_edits [OF k(2)], of ?s]
      by (simp add: at_line_def kbd_ok_def)
    ultimately show ?thesis using press False by (simp add: presses_def finished_def)
  qed
qed

lemma presses_simps [simp]: "presses [] = []" "presses (xs @ ys) = presses xs @ presses ys"
  by (simp_all add: presses_def)

lemma presses_Cons: "presses (e # es) = presses [e] @ presses es"
  by (simp add: presses_def)

lemma finished_append [simp]: "finished (finished b ks) ks' = finished b (ks @ ks')"
  by (simp add: finished_def)

lemma finished_Nil [simp]: "finished b [] = b"
  by (simp add: finished_def)

lemma at_line_read:
  assumes "at_line s (e # evs) line"
  shows "\<exists>s'. kbd_read_event s = Some (e, s') \<and> at_line s' evs line"
proof -
  have s: "kbd_ok s" "ring_contents (ev_ring s) = e # evs" using assms by (simp_all add: at_line_def)
  then obtain e' s' where r: "kbd_read_event s = Some (e', s')" using evq.get_None [OF s(1)] by (cases "kbd_read_event s") auto
  then have "kbd_ok s'" "e' = e" "ring_contents (ev_ring s') = evs"
    using evq.get_ok [OF s(1) r] evq.get_contents [OF s(1) r] s(2) by auto
  moreover have "edits (command s') s' (fst line) \<and> end_command s' = snd line \<and> \<not> shell_start s'"
    using assms r by (auto simp: at_line_def kbd_read_event_def edits_def split: option.splits)
  ultimately show ?thesis using r by (auto simp: at_line_def)
qed

lemma at_line_empty: "at_line s [] line \<Longrightarrow> kbd_read_event s = None"
  using evq.get_None by (auto simp: at_line_def)

lemma at_line_irq:
  assumes "delivers es irq" and "at_line s evs line" and "length evs + length es \<le> 255"
  shows "at_line (irq s) (evs @ es) line"
proof -
  have "kbd_ok (irq s) \<and> ring_contents (ev_ring (irq s)) = evs @ es \<and> shell_view (irq s) = shell_view s"
    using assms unfolding delivers_def at_line_def by blast
  then show ?thesis using assms(2) by (auto simp: at_line_def shell_view_def edits_def)
qed

text \<open>With the events already waiting the loop returns after handling them.\<close>

lemma drain_waiting:
  assumes "at_line s evs (tp, b)"
  shows "\<exists>s'. drain_events [] s = Some ([], s') \<and>
           at_line s' [] (fold edit_key (presses evs) tp, finished b (presses evs))"
  using assms
proof (induction evs arbitrary: s tp b)
  case Nil
  then show ?case by (subst drain_events.simps) (simp add: at_line_empty)
next
  case (Cons e evs)
  obtain s1 where r: "kbd_read_event s = Some (e, s1)" "at_line s1 evs (tp, b)" using at_line_read [OF Cons.prems] by blast
  obtain s2 where h: "handle_event e s1 = Some s2"
      "at_line s2 evs (fold edit_key (presses [e]) tp, finished b (presses [e]))"
    using handle_event_line [OF r(2)] by blast
  show ?case using Cons.IH [OF h(2)] r(1) h(1) by (subst drain_events.simps, subst presses_Cons, subst presses_Cons) simp
qed

text \<open>
  Interrupts in front of every look at the queue: the loop returns as soon as a look finds it empty.
  \<open>room n ess\<close>: with \<open>n\<close> events waiting, no arriving event finds the queue full.
\<close>

primrec room :: "nat \<Rightarrow> key_event list list \<Rightarrow> bool" where
  "room n [] \<longleftrightarrow> True"
| "room n (es # ess) \<longleftrightarrow> n + length es \<le> 255 \<and> room (n + length es - 1) ess"

lemma drain_interrupted:
  assumes "list_all2 delivers ess irqs" and "at_line s evs (tp, b)" and "room (length evs) ess"
  shows "\<exists>j s'. j \<le> length irqs \<and> drain_events irqs s = Some (drop j irqs, s') \<and> room 0 (drop j ess) \<and>
           (irqs = [] \<or> 0 < j) \<and>
           at_line s' [] (fold edit_key (presses (evs @ concat (take j ess))) tp, finished b (presses (evs @ concat (take j ess))))"
  using assms
proof (induction ess irqs arbitrary: s evs tp b rule: list_all2_induct)
  case Nil
  then show ?case using drain_waiting [OF Nil(1)] by auto
next
  case (Cons es ess irq irqs)
  have s1: "at_line (irq s) (evs @ es) (tp, b)" using at_line_irq [OF Cons.hyps(1) Cons.prems(1)] Cons.prems(2) by simp
  show ?case
  proof (cases "evs @ es")
    case Nil
    then show ?thesis using s1 at_line_empty [of "irq s" "(tp, b)"] Cons.prems(2)
      by (intro exI [of _ 1] exI [of _ "irq s"], subst drain_events.simps) simp
  next
    case (Cons e rest)
    obtain s2 where r: "kbd_read_event (irq s) = Some (e, s2)" "at_line s2 rest (tp, b)"
      using at_line_read s1 Cons by metis
    obtain s3 where h: "handle_event e s2 = Some s3"
        "at_line s3 rest (fold edit_key (presses [e]) tp, finished b (presses [e]))"
      using handle_event_line [OF r(2)] by blast
    have "room (length rest) ess" using Cons.prems(2) arg_cong [OF Cons, of length] by simp
    from Cons.IH [OF h(2) this] obtain j s' where j: "j \<le> length irqs" "drain_events irqs s3 = Some (drop j irqs, s')"
        "room 0 (drop j ess)"
        "at_line s' [] (fold edit_key (presses (rest @ concat (take j ess))) (fold edit_key (presses [e]) tp),
           finished (finished b (presses [e])) (presses (rest @ concat (take j ess))))" by blast
    have all: "evs @ concat (take (Suc j) (es # ess)) = e # rest @ concat (take j ess)"
      using Cons by (simp flip: append_assoc)
    have "at_line s' [] (fold edit_key (presses (evs @ concat (take (Suc j) (es # ess)))) tp,
        finished b (presses (evs @ concat (take (Suc j) (es # ess)))))"
      unfolding all presses_Cons [of e "rest @ concat (take j ess)"] using j(4) by simp
    moreover have "drain_events (irq # irqs) s = Some (drop (Suc j) (irq # irqs), s')"
      using r(1) h(1) j(2) by (subst drain_events.simps) simp
    ultimately show ?thesis using j(1,3) by (metis Suc_le_mono length_Cons drop_Suc_Cons zero_less_Suc)
  qed
qed

text \<open>Starting a line and running a command.\<close>

lemma new_line_line:
  assumes "kbd_ok s" and "ring_contents (ev_ring s) = evs" and "end_command s = b" and "\<not> shell_start s"
  shows "at_line (new_line s) evs (([], 0), b)"
  using assms by (auto simp: new_line_def init_command_line_def flush_command_line_def at_line_def kbd_ok_def edits_def
      cstring_def split: prod.split)

lemma shell_welcome_line:
  assumes "kbd_ok s" and "ring_contents (ev_ring s) = evs" and "end_command s = b"
  shows "at_line (shell_welcome s) evs (([], 0), b)"
  using assms by (auto simp: shell_welcome_def new_line_def init_command_line_def flush_command_line_def at_line_def kbd_ok_def
      edits_def cstring_def split: prod.split)

lemma add_controllers_frame:
  "\<exists>u cs' n. fold add_controller cs s = s\<lparr>con := (con s)\<lparr>ub := u\<rparr>, usb_controllers := cs', usb_controller_count := n\<rparr>"
proof (induction cs arbitrary: s)
  case Nil
  show ?case by (rule exI [of _ "ub (con s)"], rule exI [of _ "usb_controllers s"], rule exI [of _ "usb_controller_count s"]) simp
next
  case (Cons c cs)
  have "\<exists>u xs k. add_controller c s = s\<lparr>con := (con s)\<lparr>ub := u\<rparr>, usb_controllers := xs, usb_controller_count := k\<rparr>"
    by (rule exI [of _ "if unat (usb_controller_count s) < 16 then ub (con s) else True"],
        rule exI [of _ "if unat (usb_controller_count s) < 16 then (usb_controllers s)[unat (usb_controller_count s) := c]
          else usb_controllers s"], rule exI [of _ "usb_controller_count s + 1"]) (simp add: add_controller_def Let_def)
  then obtain u1 xs k where 1: "add_controller c s = s\<lparr>con := (con s)\<lparr>ub := u1\<rparr>, usb_controllers := xs, usb_controller_count := k\<rparr>"
    by blast
  show ?case using Cons [of "add_controller c s"] unfolding fold_Cons o_apply 1 by fastforce
qed

lemma pci_scan_frame:
  "\<exists>u cs' n. pci_scan_for_usb_controllers s = s\<lparr>con := (con s)\<lparr>ub := u\<rparr>, usb_controllers := cs', usb_controller_count := n\<rparr>"
proof -
  have "pci_scan_for_usb_controllers s = fold add_controller (map (\<lambda>d. controller_for d (pci_devices s ! d))
      (filter (\<lambda>d. is_usb_controller (pci_devices s ! d)) [0..<unat (pci_device_count s)])) s"
    unfolding pci_scan_for_usb_controllers_def scan_filter [OF refl] by (simp add: fold_map comp_def)
  then show ?thesis using add_controllers_frame by simp
qed

lemma usb_scan_string: "cstring (string_at (lit ''usb_scan'')) (lit ''usb_scan'')"
  by (auto simp: cstring_def string_at_def store_def lit_def)

lemma strcmp_usb_scan:
  assumes "cstring m t"
  obtains r where "strcmp m (string_at (lit ''usb_scan'')) = Some r" and "r = 0 \<longleftrightarrow> t = lit ''usb_scan''"
  using strcmp_from_cstring [OF assms usb_scan_string, of 0] that by (auto simp: strcmp_def)

text \<open>The two ways a command is run, with what is printed in front of the prompt.\<close>

definition response :: "u8 list \<Rightarrow> u8 list list" where
  "response t = [10] # (if t = lit ''usb_scan'' then [lit ''Executing the scan...'' @ [10]]
                        else [lit ''Incorrect command: '' @ [39], t, [39, 10]])"

lemma run_command_effect:
  assumes "cstring (command s) t"
  shows "run_command s = Some (new_line ((on_con (kprint (lit ''>''))
           ((if t = lit ''usb_scan'' then pci_scan_for_usb_controllers else id) (on_con (fold kprint (response t)) s)))
           \<lparr>end_command := False\<rparr>))"
proof -
  obtain r where "strcmp (command s) (string_at (lit ''usb_scan'')) = Some r" "r = 0 \<longleftrightarrow> t = lit ''usb_scan''"
    by (rule strcmp_usb_scan [OF assms])
  then show ?thesis using cstring_bytes_eq [OF assms] by (simp add: run_command_def response_def)
qed

lemma run_command_line:
  assumes "at_line s evs ((t, p), True)"
  shows "\<exists>s'. run_command s = Some s' \<and> at_line s' evs (([], 0), False)"
proof -
  have s: "cstring (command s) t" "kbd_ok s" "ring_contents (ev_ring s) = evs" "\<not> shell_start s"
    using assms by (simp_all add: at_line_def edits_def)
  let ?s1 = "on_con (fold kprint (response t)) s"
  obtain u cs n where "pci_scan_for_usb_controllers ?s1 = ?s1\<lparr>con := (con ?s1)\<lparr>ub := u\<rparr>, usb_controllers := cs, usb_controller_count := n\<rparr>"
    using pci_scan_frame by blast
  then show ?thesis unfolding run_command_effect [OF s(1)]
    using s(2-4) by (cases "t = lit ''usb_scan''") (auto intro!: new_line_line simp: kbd_ok_def)
qed

section \<open>The screen of the shell\<close>

lemma line_shown_cong: "line_shown displays mk start before tp s \<Longrightarrow> con s' = con s \<Longrightarrow> cmd_start_offset s' = cmd_start_offset s \<Longrightarrow>
  line_shown displays mk start before tp s'"
  by (simp add: line_shown_def)

lemma line_on_screen_empty: "line_on_screen mk start cells [] cells"
  by (simp add: line_on_screen_def list_all2_same)

context text_mode
begin

lemma fold_kprint_displays:
  "displays c t \<Longrightarrow> displays (fold kprint ms c) (fold (tty_print cs rs mk blank) ms t)"
  by (induction ms arbitrary: c t) (simp_all add: kprint_displays)

lemma new_line_shown:
  assumes "displays (con s) (cells, p)"
  shows "line_shown displays mk p cells ([], 0) (new_line s)"
proof -
  obtain c where c: "get_cursor_offset (con s) = (2 * int p, c)" "displays c (cells, p)"
    using displays_cursor [OF assms] by blast
  have "p < cs * rs" using displays_ok [OF assms] by (simp add: tty_ok_def)
  then have "displays (set_cursor_offset (2 * int p) c) (cells, p)" by (rule displays_set_cursor [OF c(2)])
  moreover have "con (new_line s) = set_cursor_offset (2 * int p) c" "cmd_start_offset (new_line s) = int p"
    using c(1) by (simp_all add: new_line_def init_command_line_def flush_command_line_def cdiv_nonneg mult.commute)
  ultimately show ?thesis using line_on_screen_empty by (auto simp: line_shown_def)
qed

lemma handle_event_shown:
  assumes "at_line s evs (tp, b)" and l: "line_shown displays mk start before tp s"
    and "start + length (fst tp) + length (presses [ev]) < cs * rs" and h: "handle_event ev s = Some s'"
  shows "line_shown displays mk start before (fold edit_key (presses [ev]) tp) s'"
proof (cases "ev_type ev = KEY_EV_PRESS \<and> code ev \<noteq> KC_ENTER")
  case True
  have "edits (command s) s tp" using assms(1) by (simp add: at_line_def)
  then obtain m1 s1 where k: "handle_key (code ev) (command s) s = Some (False, m1, s1)"
      "key_step (command s) s tp m1 s1 (edit_key (code ev) tp)"
    using handle_key_edits [of "command s" s "fst tp" "snd tp" "code ev"] True by auto
  have "length (fst (edit_key (code ev) tp)) \<le> Suc (length (fst tp))" by (rule edit_key_length)
  then have "line_shown displays mk start before (edit_key (code ev) tp) s1"
    using key_step_shown [OF k(2) l] assms(3) True by (simp add: presses_def)
  moreover have "s' = s1\<lparr>end_command := False, command := m1\<rparr>"
    using h k(1) True by (simp add: handle_event_def handle_command_line_def)
  ultimately show ?thesis using True by (simp add: presses_def line_shown_def)
next
  case False
  have "edits (command s) s tp" using assms(1) by (simp add: at_line_def)
  then have "con s' = con s" "cmd_start_offset s' = cmd_start_offset s" "fold edit_key (presses [ev]) tp = tp"
    using h False enter_keeps_buffer [of "command s" s tp]
    by (cases "ev_type ev = KEY_EV_PRESS"; auto simp: handle_event_def handle_command_line_def presses_def edit_key_enter)+
  then show ?thesis using line_shown_cong [OF l] by simp
qed

lemma drain_shown:
  assumes "at_line s evs (tp, b)" and "line_shown displays mk start before tp s"
    and "start + length (fst tp) + length (presses evs) < cs * rs" and "drain_events [] s = Some ([], s')"
  shows "line_shown displays mk start before (fold edit_key (presses evs) tp) s'"
  using assms
proof (induction evs arbitrary: s tp b)
  case Nil
  then have "s' = s" using at_line_empty [OF Nil(1)] by (subst (asm) drain_events.simps) simp
  then show ?case using Nil by simp
next
  case (Cons e evs)
  obtain s1 where r: "kbd_read_event s = Some (e, s1)" "at_line s1 evs (tp, b)" using at_line_read [OF Cons.prems(1)] by blast
  obtain s2 where h: "handle_event e s1 = Some s2"
      "at_line s2 evs (fold edit_key (presses [e]) tp, finished b (presses [e]))"
    using handle_event_line [OF r(2)] by blast
  have "con s1 = con s" "cmd_start_offset s1 = cmd_start_offset s"
    using r(1) by (auto simp: kbd_read_event_def split: option.splits)
  then have l: "line_shown displays mk start before tp s1" by (rule line_shown_cong [OF Cons.prems(2)])
  have count: "length (presses (e # evs)) = length (presses [e]) + length (presses evs)" by (subst presses_Cons) simp
  then have "start + length (fst tp) + length (presses [e]) < cs * rs" using Cons.prems(3) by linarith
  then have "line_shown displays mk start before (fold edit_key (presses [e]) tp) s2"
    by (rule handle_event_shown [OF r(2) l _ h(1)])
  moreover have "length (fst (fold edit_key (presses [e]) tp)) \<le> length (fst tp) + length (presses [e])"
    using edit_key_length [of "code e" tp] by (simp add: presses_def)
  moreover have "drain_events [] s2 = Some ([], s')" using Cons.prems(4) r(1) h(1) by (subst (asm) drain_events.simps) simp
  ultimately have "line_shown displays mk start before (fold edit_key (presses evs) (fold edit_key (presses [e]) tp)) s'"
    using Cons.IH [OF h(2)] Cons.prems(3) count by simp
  then show ?case by (subst presses_Cons) simp
qed

text \<open>What a call shows when a command is waiting: the answer, the prompt and the keys typed meanwhile.\<close>

lemma answer_shown:
  assumes s: "at_line s evs ((t, p), True)" and d: "displays (con s) scr"
    and scr: "fold (tty_print cs rs mk blank) (response t @ [lit ''>'']) scr = (cells, q)"
    and fits: "q + length (presses evs) < cs * rs"
    and usb: "t = lit ''usb_scan'' \<Longrightarrow> con (pci_scan_for_usb_controllers (on_con (fold kprint (response t)) s)) =
      con (on_con (fold kprint (response t)) s)"
    and loop: "shell_main_loop [] s = Some ([], s')"
  shows "line_shown displays mk q cells (fold edit_key (presses evs) ([], 0)) s'"
proof -
  obtain s1 where r: "run_command s = Some s1" "at_line s1 evs (([], 0), False)" using run_command_line [OF s] by blast
  have "cstring (command s) t" "end_command s" "\<not> shell_start s" using s by (simp_all add: at_line_def edits_def)
  then have "drain_events [] s1 = Some ([], s')" using loop r(1) by (simp add: shell_main_loop_def)
  moreover have "line_shown displays mk q cells ([], 0) s1"
  proof -
    let ?s = "(if t = lit ''usb_scan'' then pci_scan_for_usb_controllers else id) (on_con (fold kprint (response t)) s)"
    have "con ?s = fold kprint (response t) (con s)" using usb by simp
    then have "displays (kprint (lit ''>'') (con ?s)) (cells, q)"
      using kprint_displays [OF fold_kprint_displays [OF d, of "response t"], of "lit ''>''"] scr by simp
    then have "line_shown displays mk q cells ([], 0) (new_line ((on_con (kprint (lit ''>'')) ?s)\<lparr>end_command := False\<rparr>))"
      by (intro new_line_shown) simp
    then show ?thesis using run_command_effect [OF \<open>cstring (command s) t\<close>] r(1) by simp
  qed
  ultimately show ?thesis using drain_shown [OF r(2)] fits by simp
qed

end

section \<open>Sequences of calls\<close>

lemma shell_turn:
  assumes "list_all2 delivers ess irqs" and s: "at_line s [] line" and "room 0 ess"
  shows "\<exists>j s'. j \<le> length irqs \<and> shell_main_loop irqs s = Some (drop j irqs, s') \<and> room 0 (drop j ess) \<and>
           (irqs = [] \<or> 0 < j) \<and> at_line s' [] (turn (presses (concat (take j ess))) line)"
proof -
  obtain t p b where line: "line = ((t, p), b)" by (metis surj_pair)
  have "\<not> shell_start s" "end_command s = b" using s line by (simp_all add: at_line_def)
  moreover obtain s1 where "(if b then run_command s else Some s) = Some s1" "at_line s1 [] (if b then ([], 0) else (t, p), False)"
    using run_command_line [of s "[]" t p] s line by (cases b) auto
  ultimately have "shell_main_loop irqs s = drain_events irqs s1" and s1: "at_line s1 [] (if b then ([], 0) else (t, p), False)"
    by (simp_all add: shell_main_loop_def)
  then show ?thesis using drain_interrupted [OF assms(1) s1] assms(3) by (auto simp: turn_def line)
qed

lemma shell_turns:
  assumes "list_all2 delivers ess irqs" and "at_line s [] line" and "room 0 ess"
  shows "\<exists>gs rest s'. ess = concat gs @ rest \<and> length gs = n \<and> shell_loop n irqs s = Some (drop (length (concat gs)) irqs, s') \<and>
           (length irqs \<le> n \<longrightarrow> rest = []) \<and> at_line s' [] (fold (\<lambda>g. turn (presses (concat g))) gs line)"
  using assms
proof (induction n arbitrary: ess irqs s line)
  case 0
  then have "length ess = length irqs" using list_all2_lengthD by blast
  then show ?case using 0 by (auto intro!: exI [of _ "[]"])
next
  case (Suc n)
  obtain j s1 where j: "j \<le> length irqs" "shell_main_loop irqs s = Some (drop j irqs, s1)" "room 0 (drop j ess)"
      "irqs = [] \<or> 0 < j" "at_line s1 [] (turn (presses (concat (take j ess))) line)"
    using shell_turn [OF Suc.prems] by blast
  have len: "length ess = length irqs" using Suc.prems(1) by (rule list_all2_lengthD)
  obtain gs rest s' where g: "drop j ess = concat gs @ rest" "length gs = n"
      "shell_loop n (drop j irqs) s1 = Some (drop (length (concat gs)) (drop j irqs), s')"
      "length (drop j irqs) \<le> n \<longrightarrow> rest = []"
      "at_line s' [] (fold (\<lambda>g. turn (presses (concat g))) gs (turn (presses (concat (take j ess))) line))"
    using Suc.IH [OF list_all2_dropI [OF Suc.prems(1)] j(5,3)] by blast
  have "ess = concat (take j ess # gs) @ rest" using g(1) by (simp flip: append_assoc) (metis append_take_drop_id append_assoc)
  moreover have "length (concat (take j ess # gs)) = length (concat gs) + j" using j(1) len by simp
  ultimately show ?case
    using j(2,4) g(2-5) by (intro exI [of _ "take j ess # gs"] exI [of _ rest] exI [of _ s']) (auto simp: add.commute)
qed

lemma handle_event_controllers: "handle_event ev s = Some s' \<Longrightarrow> at_line s evs line \<Longrightarrow> usb_controllers s' = usb_controllers s"
proof -
  assume h: "handle_event ev s = Some s'" and "at_line s evs line"
  then have e: "edits (command s) s (fst line)" by (simp add: at_line_def)
  consider "ev_type ev \<noteq> KEY_EV_PRESS" | "ev_type ev = KEY_EV_PRESS" "code ev = KC_ENTER" | "ev_type ev = KEY_EV_PRESS" "code ev \<noteq> KC_ENTER"
    by blast
  then show ?thesis
  proof cases
    case 3
    obtain m1 s1 where k: "handle_key (code ev) (command s) s = Some (False, m1, s1)" "key_step (command s) s (fst line) m1 s1 (edit_key (code ev) (fst line))"
      using handle_key_edits [of "command s" s "fst (fst line)" "snd (fst line)" "code ev"] e 3 by auto
    then obtain c a b where "s1 = s\<lparr>con := c, cmd_cursor := a, cmd_len := b\<rparr>" unfolding key_step_def by blast
    then show ?thesis using h k(1) 3 by (auto simp: handle_event_def handle_command_line_def)
  qed (use h enter_keeps_buffer [OF e] in \<open>auto simp: handle_event_def handle_command_line_def\<close>)
qed

lemma drain_controllers:
  "at_line s evs (tp, b) \<Longrightarrow> drain_events [] s = Some ([], s') \<Longrightarrow> usb_controllers s' = usb_controllers s"
proof (induction evs arbitrary: s tp b)
  case Nil
  then show ?case using at_line_empty [OF Nil(1)] by (subst (asm) drain_events.simps) simp
next
  case (Cons e evs)
  obtain s1 where r: "kbd_read_event s = Some (e, s1)" "at_line s1 evs (tp, b)" using at_line_read [OF Cons.prems(1)] by blast
  obtain s2 where h: "handle_event e s1 = Some s2"
      "at_line s2 evs (fold edit_key (presses [e]) tp, finished b (presses [e]))"
    using handle_event_line [OF r(2)] by blast
  have "drain_events [] s2 = Some ([], s')" using Cons.prems(2) r(1) h(1) by (subst (asm) drain_events.simps) simp
  then have "usb_controllers s' = usb_controllers s2" by (rule Cons.IH [OF h(2)])
  also have "\<dots> = usb_controllers s1" by (rule handle_event_controllers [OF h(1) r(2)])
  also have "\<dots> = usb_controllers s" using r(1) by (auto simp: kbd_read_event_def split: option.splits)
  finally show ?case .
qed

text \<open>The entries a scan for USB controllers appends.\<close>

definition found :: "'a pci_scheme \<Rightarrow> usb_controller list" where
  "found s = map (\<lambda>d. controller_for d (pci_devices s ! d))
     (filter (\<lambda>d. is_usb_controller (pci_devices s ! d)) [0..<unat (pci_device_count s)])"

definition after_scan :: "'a uhci_scheme \<Rightarrow> usb_controller list" where
  "after_scan s = (let n = unat (usb_controller_count s)
     in take n (usb_controllers s) @ found s @ drop (n + length (found s)) (usb_controllers s))"

lemma pci_scan_fits:
  assumes "length (usb_controllers s) = 16" and "unat (usb_controller_count s) + length (found s) \<le> 16"
  shows "pci_scan_for_usb_controllers s = s\<lparr>usb_controllers := after_scan s,
    usb_controller_count := of_nat (unat (usb_controller_count s) + length (found s))\<rparr>"
proof -
  have "pci_scan_for_usb_controllers s = fold add_controller (found s) s"
    unfolding pci_scan_for_usb_controllers_def scan_filter [OF refl] found_def by (simp add: fold_map comp_def)
  then show ?thesis using add_controllers_fit [OF assms(1) refl, of "found s"] assms(2) by (simp add: after_scan_def Let_def)
qed

lemma found_con [simp]: "found (on_con f s) = found s"
  by (simp add: found_def)

lemma new_line_controllers [simp]: "usb_controllers (new_line s) = usb_controllers s"
  by (simp add: new_line_def init_command_line_def flush_command_line_def split: prod.split)

lemma run_command_controllers:
  assumes "cstring (command s) t" and "run_command s = Some s'"
    and "t = lit ''usb_scan'' \<Longrightarrow> length (usb_controllers s) = 16 \<and> unat (usb_controller_count s) + length (found s) \<le> 16"
  shows "usb_controllers s' = (if t = lit ''usb_scan'' then after_scan s else usb_controllers s)"
    and "t = lit ''usb_scan'' \<Longrightarrow> con (pci_scan_for_usb_controllers (on_con f s)) = con (on_con f s)"
proof -
  have scan: "pci_scan_for_usb_controllers (on_con f s) = (on_con f s)\<lparr>usb_controllers := after_scan s,
      usb_controller_count := of_nat (unat (usb_controller_count s) + length (found s))\<rparr>" if "t = lit ''usb_scan''" for f
    using pci_scan_fits [of "on_con f s"] assms(3) [OF that] by (simp add: after_scan_def)
  then show "t = lit ''usb_scan'' \<Longrightarrow> con (pci_scan_for_usb_controllers (on_con f s)) = con (on_con f s)" by simp
  show "usb_controllers s' = (if t = lit ''usb_scan'' then after_scan s else usb_controllers s)"
    using assms(2) scan unfolding run_command_effect [OF assms(1)] by auto
qed

lemma shell_session_run:
  assumes "shell_start s" and "\<not> end_command s" and "kbd_ok s" and "ring_contents (ev_ring s) = []"
    and "list_all2 delivers ess irqs" and "room 0 ess"
  shows "\<exists>gs rest s'. ess = concat gs @ rest \<and> length gs = Suc n \<and>
    shell_loop (Suc n) irqs s = Some (drop (length (concat gs)) irqs, s') \<and>
    (length irqs \<le> Suc n \<longrightarrow> rest = []) \<and>
    at_line s' [] (fold (\<lambda>g. turn (presses (concat g))) gs (([], 0), False))"
proof -
  have "at_line (shell_welcome s) [] (([], 0), False)" using shell_welcome_line [OF assms(3,4) refl] assms(2) by simp
  moreover have "shell_start (shell_welcome s) = False" "\<not> end_command (shell_welcome s)"
    using assms(2) by (simp_all add: shell_welcome_def new_line_def init_command_line_def flush_command_line_def split: prod.split)
  then have "shell_main_loop irqs s = shell_main_loop irqs (shell_welcome s)"
    using assms(1,2) by (simp add: shell_main_loop_def)
  then have "shell_loop (Suc n) irqs s = shell_loop (Suc n) irqs (shell_welcome s)" by simp
  ultimately show ?thesis using shell_turns [OF assms(5) _ assms(6), where n = "Suc n"] by metis
qed

section \<open>Properties\<close>

text \<open>The shell as it is before its first call, and one with the line \<open>ls\<close> finished.\<close>

definition demo_shell :: shell where
  "demo_shell = (uhci.extend demo_usb \<lparr>end_command = False, shell_start = True, command = (\<lambda>_. 0)\<rparr>)\<lparr>con := demo_vga\<rparr>"

definition demo_ls :: shell where
  "demo_ls = demo_shell\<lparr>shell_start := False, end_command := True, command := string_at (lit ''ls''), cmd_len := 2, cmd_cursor := 2\<rparr>"

definition key_press :: "u16 \<Rightarrow> key_event" where
  "key_press kc = \<lparr>ev_type = KEY_EV_PRESS, code = kc, mods = 0, src = KDEV_SOURCE_PS2, dev_id = 0\<rparr>"

lemma demo_shell_rings: "kbd_ok demo_shell" "ring_contents (ev_ring demo_shell) = []"
  using demo_kbd_ok by (simp_all add: kbd_ok_def demo_shell_def demo_usb_def demo_uhci_def demo_pci_def demo_cmdline_def
      demo_usb_kbd_def uhci.defs pci.defs cmdline.defs usb_kbd.defs kbd.defs)

lemma demo_shell_flags: "shell_start demo_shell" "\<not> end_command demo_shell" "con demo_shell = demo_vga"
  by (simp_all add: demo_shell_def uhci.defs)

lemma demo_ls_line: "at_line demo_ls [] ((lit ''ls'', 2), True)"
  using demo_shell_rings
  by (auto simp: at_line_def demo_ls_def kbd_ok_def edits_def cstring_def string_at_def store_def lit_def printable_char_def)

lemma push_delivers: "delivers [e] (push_event e)"
  using evq.put_contents evq.put_ok by (auto simp: delivers_def shell_view_def push_event_def)

text \<open>
  The shell from its start, under interrupts: whatever keyboard interrupts arrive in front of
  whichever look at the event queue, as long as the queue is not full when they do, every call
  returns; the state after any number of calls is that of the specification, run on the key events
  in the order in which they arrived, divided into one group per call; each call that meets an
  interrupt consumes at least one, so after as many calls as interrupts nothing is left to handle.
\<close>

theorem shell_session:
  assumes "shell_start s" and "\<not> end_command s" and "kbd_ok s" and "ring_contents (ev_ring s) = []"
    and "list_all2 delivers ess irqs" and "room 0 ess"
  shows "\<exists>gs rest s'. ess = concat gs @ rest \<and> length gs = Suc n \<and>
    shell_loop (Suc n) irqs s = Some (drop (length (concat gs)) irqs, s') \<and>
    (length irqs \<le> Suc n \<longrightarrow> rest = []) \<and>
    at_line s' [] (fold (\<lambda>g. turn (presses (concat g))) gs (([], 0), False))"
  using assms by (rule shell_session_run)

theorem shell_session_witness:
  "\<exists>gs rest s'. [[key_press 97], [key_press KC_ENTER]] = concat gs @ rest \<and> length gs = 2 \<and>
     shell_loop 2 [push_event (key_press 97), push_event (key_press KC_ENTER)] demo_shell =
       Some (drop (length (concat gs)) [push_event (key_press 97), push_event (key_press KC_ENTER)], s') \<and> rest = [] \<and>
     at_line s' [] (fold (\<lambda>g. turn (presses (concat g))) gs (([], 0), False))"
proof -
  let ?irqs = "[push_event (key_press 97), push_event (key_press KC_ENTER)] :: (shell \<Rightarrow> shell) list"
  have "list_all2 delivers [[key_press 97], [key_press KC_ENTER]] ?irqs" by (simp add: push_delivers)
  moreover have "room 0 [[key_press 97], [key_press KC_ENTER]]" by simp
  ultimately have "\<exists>gs rest s'. [[key_press 97], [key_press KC_ENTER]] = concat gs @ rest \<and> length gs = Suc 1 \<and>
      shell_loop (Suc 1) ?irqs demo_shell = Some (drop (length (concat gs)) ?irqs, s') \<and>
      (length ?irqs \<le> Suc 1 \<longrightarrow> rest = []) \<and> at_line s' [] (fold (\<lambda>g. turn (presses (concat g))) gs (([], 0), False))"
    by (rule shell_session [OF demo_shell_flags(1,2) demo_shell_rings])
  moreover have "length ?irqs \<le> Suc 1" "2 = Suc 1" by simp_all
  ultimately show ?thesis by metis
qed

text \<open>
  C11. The answer to a command: in the call after Enter the shell prints \<open>Executing the scan...\<close> for
  \<open>usb_scan\<close>, and appends the USB controllers found to the table, and names the incorrect command
  otherwise; then it prints the prompt, and the keys typed meanwhile appear behind it as a new line.
  The screen shows exactly this, in VGA text mode and on the framebuffer.
\<close>

theorem shell_answers:
  assumes s: "at_line s evs ((t, p), True)"
    and usb: "t = lit ''usb_scan'' \<Longrightarrow> length (usb_controllers s) = 16 \<and> unat (usb_controller_count s) + length (found s) \<le> 16"
    and vga: "fold (tty_print 80 25 vga_cell (0, 0)) (response t @ [lit ''>'']) scr = (cells, q)"
    and fb: "fold (tty_print cs rs fb_cell 32) (response t @ [lit ''>'']) fscr = (fcells, fq)"
  shows "\<exists>s'. shell_main_loop [] s = Some ([], s') \<and> at_line s' [] (turn (presses evs) ((t, p), True)) \<and>
    usb_controllers s' = (if t = lit ''usb_scan'' then after_scan s else usb_controllers s) \<and>
    (vga_displays v0 (con s) scr \<and> q + length (presses evs) < 2000 \<longrightarrow>
       line_shown (vga_displays v0) vga_cell q cells (fold edit_key (presses evs) ([], 0)) s') \<and>
    (fb_displays cs rs m0 (con s) fscr \<and> fq + length (presses evs) < cs * rs \<longrightarrow>
       line_shown (fb_displays cs rs m0) fb_cell fq fcells (fold edit_key (presses evs) ([], 0)) s')"
proof -
  have c: "cstring (command s) t" "end_command s" "\<not> shell_start s" using s by (simp_all add: at_line_def edits_def)
  obtain s1 where r: "run_command s = Some s1" "at_line s1 evs (([], 0), False)" using run_command_line [OF s] by blast
  obtain s' where d: "drain_events [] s1 = Some ([], s')"
      "at_line s' [] (fold edit_key (presses evs) ([], 0), finished False (presses evs))"
    using drain_waiting [OF r(2)] by blast
  have loop: "shell_main_loop [] s = Some ([], s')" using c r(1) d(1) by (simp add: shell_main_loop_def)
  note quiet = run_command_controllers(2) [OF c(1) r(1) usb, of "fold kprint (response t)"]
  have "usb_controllers s' = usb_controllers s1" by (rule drain_controllers [OF r(2) d(1)])
  also have "\<dots> = (if t = lit ''usb_scan'' then after_scan s else usb_controllers s)"
    using run_command_controllers(1) [OF c(1) r(1)] usb by blast
  finally have usb': "usb_controllers s' = (if t = lit ''usb_scan'' then after_scan s else usb_controllers s)" .
  have "80 * 25 = (2000 :: nat)" by simp
  then have V: "vga_displays v0 (con s) scr \<and> q + length (presses evs) < 2000 \<longrightarrow>
      line_shown (vga_displays v0) vga_cell q cells (fold edit_key (presses evs) ([], 0)) s'"
    using vga.answer_shown [OF s _ vga _ quiet loop, of v0] by metis
  have F: "fb_displays cs rs m0 (con s) fscr \<and> fq + length (presses evs) < cs * rs \<longrightarrow>
      line_shown (fb_displays cs rs m0) fb_cell fq fcells (fold edit_key (presses evs) ([], 0)) s'"
    using fb.answer_shown [OF s _ fb _ quiet loop, of m0] by blast
  have "at_line s' [] (turn (presses evs) ((t, p), True))" using d(2) by (simp only: turn_def fst_conv snd_conv if_True)
  with loop usb' V F show ?thesis by blast
qed

theorem shell_answers_witness:
  "\<exists>cells q s'. fold (tty_print 80 25 vga_cell (0, 0)) (response (lit ''ls'') @ [lit ''>'']) (replicate 2000 (0, 0), 0) = (cells, q) \<and>
     shell_main_loop [] demo_ls = Some ([], s') \<and> at_line s' [] (([], 0), False) \<and>
     line_shown (vga_displays (\<lambda>_. 0)) vga_cell q cells ([], 0) s'"
proof -
  let ?scr = "(replicate 2000 (0, 0), 0) :: (u8 \<times> u8) list \<times> nat"
  obtain cells q where v: "fold (tty_print 80 25 vga_cell (0, 0)) (response (lit ''ls'') @ [lit ''>'']) ?scr = (cells, q)" by fastforce
  obtain fcells fq where f: "fold (tty_print 1 1 fb_cell 32) (response (lit ''ls'') @ [lit ''>'']) ([0], 0) = (fcells, fq)" by fastforce
  have d: "vga_displays (\<lambda>_. 0) (con demo_ls) ?scr" using demo_vga_displays demo_shell_flags(3) by (simp add: demo_ls_def)
  have "q < 2000"
    using vga.displays_ok [OF vga.fold_kprint_displays [OF d, of "response (lit ''ls'') @ [lit ''>'']"]] v by (simp add: tty_ok_def)
  moreover have "lit ''ls'' \<noteq> lit ''usb_scan''" by (simp add: lit_def)
  ultimately show ?thesis
    using shell_answers [OF demo_ls_line _ v f, of "\<lambda>_. 0" "\<lambda>_. 0"] v d by (auto simp: turn_def)
qed

text \<open>
  C39. A key pressed behind Enter before the shell looks again undoes the Enter: the line is not run,
  and the key edits the same line.
\<close>

theorem typed_ahead_enter_lost:
  assumes "at_line s evs (tp, False)" and "presses evs = ks @ [KC_ENTER] @ ks'" and "ks' \<noteq> []" and "last ks' \<noteq> KC_ENTER"
  shows "\<exists>s'. shell_main_loop [] s = Some ([], s') \<and> at_line s' [] (fold edit_key (ks @ ks') tp, False)"
proof -
  obtain s' where "drain_events [] s = Some ([], s')" "at_line s' [] (fold edit_key (presses evs) tp, finished False (presses evs))"
    using drain_waiting [OF assms(1)] by blast
  moreover have "shell_main_loop [] s = drain_events [] s" using assms(1) by (simp add: shell_main_loop_def at_line_def)
  ultimately show ?thesis using assms(2-4) by (simp add: finished_def edit_key_enter)
qed

theorem typed_ahead_enter_lost_witness:
  "\<exists>s'. shell_main_loop [] (fold push_event [key_press KC_ENTER, key_press 97] (demo_ls\<lparr>end_command := False\<rparr>)) = Some ([], s') \<and>
     at_line s' [] ((lit ''lsa'', 3), False)"
proof -
  let ?es = "[key_press KC_ENTER, key_press 97]"
  let ?s = "demo_ls\<lparr>end_command := False\<rparr>"
  have s: "kbd_ok ?s" "ring_contents (ev_ring ?s) = []" using demo_ls_line by (simp_all add: at_line_def kbd_ok_def)
  then have "kbd_ok (fold push_event ?es ?s)" "ring_contents (ev_ring (fold push_event ?es ?s)) = ?es"
    using evq.puts_ok [OF s(1), of ?es] evq.puts_contents [OF s(1), of ?es] by simp_all
  then have "at_line (fold push_event ?es ?s) ?es ((lit ''ls'', 2), False)"
    using demo_ls_line by (simp add: at_line_def edits_def push_event_def)
  moreover have "presses ?es = [] @ [KC_ENTER] @ [97]" by (simp add: presses_def key_press_def)
  moreover have "fold edit_key ([] @ [97]) (lit ''ls'', 2) = (lit ''lsa'', 3)" by (simp add: edit_key_def kc_defs lit_def)
  ultimately show ?thesis
    using typed_ahead_enter_lost [of "fold push_event ?es ?s" ?es "(lit ''ls'', 2)" "[]" "[97]"] by (simp add: KC_ENTER_def)
qed

end
