(* ===== verification/Kernel.thy ===== *)
theory Kernel
  imports Shell
begin

text \<open>
  \<^verbatim>\<open>src/kernel/kernel.c\<close> and \<^verbatim>\<open>src/kernel/bootinfo.c\<close>: the order in which the kernel brings its parts up,
  the loop that runs the shell, and what an interrupt reaches through the dispatcher of
  \<^verbatim>\<open>src/cpu/isr.c\<close> once the drivers have registered their handlers.

  The boot information is an argument: the assembly entry copies what the loader left into
  \<open>kernel_bootinfo\<close>, which is zero after a BIOS boot.  Sleeping (and with it the hardware) is the
  argument \<open>pause\<close> of theory \<open>Uhci\<close>, the addresses the linker chooses are \<open>stub\<close>, \<open>idt_addr\<close> and \<open>lay\<close>.
\<close>

section \<open>Definitions\<close>

text \<open>\<open>kernel_bootinfo\<close> starts as zero; \<open>kernel_bootinfo_header\<close> tells the loader where to enter.\<close>

definition kernel_bootinfo :: bootinfo where
  "kernel_bootinfo = \<lparr>magic = 0, uefi_entry = 0, flags = 0, fb_base = 0, fb_size = 0, fb_width = 0, fb_height = 0,
     fb_stride = 0, fb_bpp = 0\<rparr>"

definition kernel_bootinfo_header :: "u64 \<Rightarrow> bootinfo" where
  "kernel_bootinfo_header kernel_uefi_entry =
     kernel_bootinfo\<lparr>magic := KERNEL_BOOTINFO_MAGIC, uefi_entry := kernel_uefi_entry, flags := 0\<rparr>"

text \<open>The functions behind the pointers in \<open>interrupt_handlers\<close>, and an interrupt that is not an exception.\<close>

definition isr_call :: "isr_t \<Rightarrow> registers \<Rightarrow> 'a uhci_scheme \<Rightarrow> 'a uhci_scheme" where
  "isr_call h r s = (case h of Timer_callback \<Rightarrow> timer_callback r s | Ps2_irq1_handler \<Rightarrow> ps2_irq1_handler r s
     | Uhci_irq_top \<Rightarrow> uhci_irq_top r s)"

definition interrupt :: "registers \<Rightarrow> 'a uhci_scheme \<Rightarrow> 'a uhci_scheme" where
  "interrupt r s = irq_handler isr_call r s"

definition start_display :: "bootinfo \<Rightarrow> 'a cpu_scheme \<Rightarrow> 'a cpu_scheme" where
  "start_display info s =
     (let (fb_ready, d) = framebuffer_console_init (Some info) (disp (con s));
          s1 = on_con (\<lambda>c. c\<lparr>disp := d\<rparr>) s
      in if fb_ready then s1 else on_con (con_set_available True) s1)"

definition show_screen_size :: "'a cpu_scheme \<Rightarrow> 'a cpu_scheme" where
  "show_screen_size s =
     (if screen_is_available (con s)
      then on_con (\<lambda>c. let c = clear_screen c;
                           (co, c) = get_screen_framebuffer_cols c;
                           (ro, c) = get_screen_framebuffer_rows c
                       in printf (lit ''[DEBUG] Screen size: (%d,%d)'' @ [10]) [Num (ucast co), Num (ucast ro)] c) s
      else s)"

definition kernel_init ::
    "(u64 \<Rightarrow> 'a uhci_scheme \<Rightarrow> 'a uhci_scheme) \<Rightarrow> layout \<Rightarrow> (nat \<Rightarrow> u64) \<Rightarrow> u64 \<Rightarrow> bootinfo \<Rightarrow>
     'a uhci_scheme \<Rightarrow> 'a uhci_scheme option" where
  "kernel_init pause lay stub idt_addr info s = do {
     s \<leftarrow> irq_install (start_display info (isr_install stub idt_addr (cpu_enable_fpu_sse s)));
     s \<leftarrow> usb_enumerate_devices pause lay (pci_scan_for_usb_controllers (pci_scan (show_screen_size s)));
     Some (kbd_subsystem_init s)
   }"

definition kernel_main ::
    "(u64 \<Rightarrow> 'a shell_scheme \<Rightarrow> 'a shell_scheme) \<Rightarrow> layout \<Rightarrow> (nat \<Rightarrow> u64) \<Rightarrow> u64 \<Rightarrow> bootinfo \<Rightarrow> nat \<Rightarrow>
     ('a shell_scheme \<Rightarrow> 'a shell_scheme) list \<Rightarrow> 'a shell_scheme \<Rightarrow>
     (('a shell_scheme \<Rightarrow> 'a shell_scheme) list \<times> 'a shell_scheme) option" where
  "kernel_main pause lay stub idt_addr info calls irqs s = do {
     s \<leftarrow> kernel_init pause lay stub idt_addr info s;
     shell_loop calls irqs s
   }"

section \<open>Bringing the kernel up\<close>

lemma okn_cpu [okn_simps]:
  "okn w (cpu_enable_fpu_sse s) = okn w s" "okn w (set_idt_gate n h s) = okn w s" "okn w (set_idt a s) = okn w s"
  "okn w (s\<lparr>frequency := f\<rparr>) = okn w s" "okn w (start_display info s) = okn w s" "okn w (show_screen_size s) = okn w s"
  by (simp_all add: okn_def uhci_ok_def cpu_enable_fpu_sse_def set_idt_gate_def set_idt_def start_display_def
      show_screen_size_def Let_def split: prod.split)

lemma heap_cpu [heap_simps]:
  "heap (cpu_enable_fpu_sse s) = heap s" "heap (set_idt_gate n h s) = heap s" "heap (set_idt a s) = heap s"
  "heap (start_display info s) = heap s" "heap (show_screen_size s) = heap s"
  by (simp_all add: cpu_enable_fpu_sse_def set_idt_gate_def set_idt_def start_display_def
      show_screen_size_def Let_def split: prod.split)

lemma kernel_fold_keeps: "(\<And>x s. P (f x s) = P s) \<Longrightarrow> P (fold f xs s) = P s"
  by (induction xs arbitrary: s) simp_all

lemma isr_install_keeps:
  "okn w (isr_install stub idt_addr s) = okn w s" "heap (isr_install stub idt_addr s) = heap s"
proof -
  have "okn w (fold (\<lambda>n. set_idt_gate n (stub n)) ns s) = okn w s" "heap (fold (\<lambda>n. set_idt_gate n (stub n)) ns s) = heap s"
    "okn w (fold (\<lambda>(p, v). on_mach (port_byte_out p v)) xs s) = okn w s"
    "heap (fold (\<lambda>(p, v). on_mach (port_byte_out p v)) xs s) = heap s" for ns xs and s :: "'a uhci_scheme"
    by (rule kernel_fold_keeps, simp add: okn_simps heap_simps split: prod.split)+
  then show "okn w (isr_install stub idt_addr s) = okn w s" "heap (isr_install stub idt_addr s) = heap s"
    by (simp_all add: isr_install_def Let_def okn_simps heap_simps)
qed

lemma pci_scan_keeps:
  "okn w (pci_scan s) = okn w s" "heap (pci_scan s) = heap s"
proof -
  have o: "okn w (s\<lparr>con := c, pci_devices := x, pci_device_count := y\<rparr>) = okn w s" "okn w (s\<lparr>pci_device_count := y\<rparr>) = okn w s"
    "okn w (s\<lparr>pci_devices := x\<rparr>) = okn w s" for c x y and s :: "'a uhci_scheme" by (simp_all add: okn_def uhci_ok_def)
  have "okn w (pci_scan_from l s) = okn w s \<and> heap (pci_scan_from l s) = heap s" for l and s :: "'a uhci_scheme"
  proof (induction l arbitrary: s)
    case (Cons x l)
    obtain b d f where x: "x = (b, d, f)" by (cases x)
    show ?case unfolding x pci_scan_from.simps Let_def by (simp add: Cons o okn_simps split: prod.split)
  qed simp
  then show "okn w (pci_scan s) = okn w s" "heap (pci_scan s) = heap s" by (simp_all add: pci_scan_def o)
qed

lemma controller_scan_keeps:
  "okn w (pci_scan_for_usb_controllers s) = okn w s" "heap (pci_scan_for_usb_controllers s) = heap s"
proof -
  have a: "okn w (add_controller c s) = okn w s" "heap (add_controller c s) = heap s" for c and s :: "'a uhci_scheme"
    by (simp_all add: add_controller_def Let_def okn_def uhci_ok_def)
  show "okn w (pci_scan_for_usb_controllers s) = okn w s" "heap (pci_scan_for_usb_controllers s) = heap s"
    unfolding pci_scan_for_usb_controllers_def by (rule kernel_fold_keeps, simp add: a)+
qed

lemma irq_install_keeps: "\<exists>s'. irq_install s = Some s' \<and> okn w s' = okn w s \<and> heap s' = heap s"
  by (simp add: irq_install_def init_timer_def Let_def okn_simps heap_simps register_interrupt_handler_def)
    (simp add: okn_def uhci_ok_def)

text \<open>What the keyboard layer looks like when the shell starts.\<close>

definition keyboard_ready :: "'a kbd_scheme \<Rightarrow> bool" where
  "keyboard_ready s \<longleftrightarrow> kbd_ok s \<and> ring_contents (ev_ring s) = [] \<and> ring_contents (ascii_ring s) = [] \<and>
     length (interrupt_handlers s) = 256 \<and> interrupt_handlers s ! 33 = Some Ps2_irq1_handler \<and>
     g_mods s = 0 \<and> \<not> g_ps2_e0 s \<and> (tbl_norm s, tbl_shift s) =
       (if g_layout s = 0 then (sc_ascii_qwerty, sc_ascii_qwerty_cap) else (sc_ascii_azerty, sc_ascii_azerty_cap))"

lemma ring_reset:
  assumes "ring_ok r"
  shows "ring_ok (r\<lparr>head := 0, tail := 0\<rparr>)" and "ring_contents (r\<lparr>head := 0, tail := 0\<rparr>) = []"
  using assms by (simp_all add: ring_ok_def ring_contents_def ring_length_def KEYBUF_CAP_def)

lemma keyboard_init_ready:
  assumes "uhci_ok s" and "\<not> g_ps2_registered s"
  shows "keyboard_ready (kbd_subsystem_init s)" and "uhci_ok (kbd_subsystem_init s)"
    and "heap (kbd_subsystem_init s) = heap s" and "uhci.more (kbd_subsystem_init s) = uhci.more s"
proof -
  let ?s = "kbd_subsystem_init s"
  note r = ring_reset
  have e: "ev_ring ?s = (ev_ring s)\<lparr>head := 0, tail := 0\<rparr>" "ascii_ring ?s = (ascii_ring s)\<lparr>head := 0, tail := 0\<rparr>"
    "g_mods ?s = 0" "\<not> g_ps2_e0 ?s" "interrupt_handlers ?s = (interrupt_handlers s)[33 := Some Ps2_irq1_handler]"
    "g_layout ?s = g_layout s" "(tbl_norm ?s, tbl_shift ?s) =
       (if g_layout s = 0 then (sc_ascii_qwerty, sc_ascii_qwerty_cap) else (sc_ascii_azerty, sc_ascii_azerty_cap))"
    "heap ?s = heap s" "uhci.more ?s = uhci.more s"
    using assms(2) by (simp_all add: kbd_subsystem_init_def select_tables_def kbd_register_device_def
        register_interrupt_handler_def IRQ1_def Let_def)
  show "keyboard_ready ?s" using assms(1) e(4) unfolding keyboard_ready_def kbd_ok_def e by (simp add: uhci_ok_def r)
  show "heap ?s = heap s" "uhci.more ?s = uhci.more s" by (rule e)+
  have "uhci_ok ?s = uhci_ok (s\<lparr>ev_ring := ev_ring ?s, ascii_ring := ascii_ring ?s, interrupt_handlers := interrupt_handlers ?s\<rparr>)"
    by (simp add: uhci_ok_def kbd_subsystem_init_def select_tables_def kbd_register_device_def Let_def
        register_interrupt_handler_def)
  then show "uhci_ok ?s" using assms(1) unfolding e by (simp add: uhci_ok_def r)
qed

lemma kernel_init_ready:
  assumes k: "keeps_heap pause" "keeps_ok pause" and s: "uhci_ok s" "heap_inv (heap s) L" and new: "\<not> g_ps2_registered s"
  shows "\<exists>s'. kernel_init pause lay stub idt_addr info s = Some s' \<and> keyboard_ready s' \<and> uhci_ok s' \<and>
    (\<exists>L'. heap_inv (heap s') L' \<and> L \<subseteq>\<^sub>m L') \<and> uhci.more s' = uhci.more s"
proof -
  let ?w = "(usb_device_count s, g_ps2_registered s, uhci.more s)"
  let ?s0 = "start_display info (isr_install stub idt_addr (cpu_enable_fpu_sse s))"
  have "okn ?w s" using s(1) by (simp add: okn_def)
  then have s0: "okn ?w ?s0" "heap ?s0 = heap s" by (simp_all add: okn_simps heap_simps isr_install_keeps)
  obtain s1 where s1: "irq_install ?s0 = Some s1" "okn ?w s1" "heap s1 = heap s" using irq_install_keeps s0 by metis
  let ?s2 = "pci_scan_for_usb_controllers (pci_scan (show_screen_size s1))"
  have "okn ?w ?s2" "heap_inv (heap ?s2) L"
    using s1(2,3) s(2) by (simp_all add: controller_scan_keeps pci_scan_keeps okn_simps heap_simps)
  then have s2: "uhci_ok ?s2" "heap_inv (heap ?s2) L" "(g_ps2_registered ?s2, uhci.more ?s2) = (g_ps2_registered s, uhci.more s)"
    by (simp_all add: okn_def)
  have "ret (g_ps2_registered s, uhci.more s) L (usb_enumerate_devices pause lay ?s2)"
    using enumeration_ret [OF k s2(1,2)] unfolding s2(3) .
  then obtain s3 where s3: "usb_enumerate_devices pause lay ?s2 = Some s3" "uhci_ok s3" "\<not> g_ps2_registered s3"
      "uhci.more s3 = uhci.more s" "\<exists>L'. heap_inv (heap s3) L' \<and> L \<subseteq>\<^sub>m L'"
    using new by (auto simp: ret_def good_def)
  then show ?thesis using s1(1) keyboard_init_ready [OF s3(2,3)] by (simp add: kernel_init_def)
qed

lemma shell_fields:
  fixes s s' :: "'a shell_scheme"
  assumes "uhci.more s' = uhci.more s"
  shows "shell_start s' = shell_start s" and "end_command s' = end_command s" and "command s' = command s"
  using assms by (cases s; cases s'; simp)+

section \<open>Typing on the PS/2 keyboard\<close>

text \<open>
  \<open>scancodes codes n env\<close>: behind port 0x60 the read number \<open>n + i\<close> returns \<open>codes ! i\<close>.  \<open>reads\<close> counts the
  reads of that port in a history.
\<close>

definition reads :: "io_event list \<Rightarrow> nat" where
  "reads tr = length (filter (\<lambda>e. case e of In8 p v \<Rightarrow> p = 0x60 | _ \<Rightarrow> False) tr)"

definition scancodes :: "u8 list \<Rightarrow> nat \<Rightarrow> (io_event list \<Rightarrow> io_width \<Rightarrow> u16 \<Rightarrow> u32) \<Rightarrow> bool" where
  "scancodes cds n e \<longleftrightarrow> (\<forall>i tr. i < length cds \<and> reads tr = n + i \<longrightarrow> ucast (e tr W8 0x60) = cds ! i)"

text \<open>The break code of a key without a key code of its own.\<close>

definition silent :: "u8 \<Rightarrow> bool" where
  "silent sc \<longleftrightarrow> 0x80 \<le> sc \<and> sc \<noteq> 0xE0 \<and> ps2_key_of (sc AND 0x7F) = KC_NONE"

definition typing :: "'a kbd_scheme \<Rightarrow> u8 \<Rightarrow> bool" where
  "typing s sc \<longleftrightarrow> silent sc \<or> printable s sc \<and> printable_char (translate_ps2_ascii sc s)"

definition typed :: "'a kbd_scheme \<Rightarrow> u8 list \<Rightarrow> u8 list" where
  "typed s scs = map (\<lambda>sc. translate_ps2_ascii sc s) (filter (\<lambda>sc. sc < 0x80) scs)"

definition enter_event :: "'a kbd_scheme \<Rightarrow> key_event" where
  "enter_event s = \<lparr>ev_type = KEY_EV_PRESS, code = KC_ENTER, mods = g_mods s, src = KDEV_SOURCE_PS2, dev_id = 0\<rparr>"

text \<open>What stays the same while keys are typed: the keyboard set-up and the shell behind it.\<close>

definition same_keyboard :: "'a shell_scheme \<Rightarrow> 'a shell_scheme \<Rightarrow> bool" where
  "same_keyboard s s' \<longleftrightarrow> g_mods s' = g_mods s \<and> tbl_norm s' = tbl_norm s \<and> tbl_shift s' = tbl_shift s \<and>
     g_ps2_e0 s' = g_ps2_e0 s \<and> g_auto_echo s' = g_auto_echo s \<and> interrupt_handlers s' = interrupt_handlers s \<and>
     env (mach (con s')) = env (mach (con s)) \<and> shell_view s' = shell_view s"

lemma same_keyboard_refl: "same_keyboard s s"
  by (simp add: same_keyboard_def)

lemma same_keyboard_trans: "same_keyboard s s' \<Longrightarrow> same_keyboard s' s'' \<Longrightarrow> same_keyboard s s''"
  by (simp add: same_keyboard_def)

lemma same_keyboard_translate:
  assumes "same_keyboard s s'"
  shows "translate_ps2_ascii sc s' = translate_ps2_ascii sc s" and "printable s' sc = printable s sc"
    and "typing s' sc = typing s sc" and "typed s' scs = typed s scs" and "enter_event s' = enter_event s"
proof -
  show "translate_ps2_ascii sc s' = translate_ps2_ascii sc s" for sc
    by (rule translate_cong) (use assms in \<open>simp_all add: same_keyboard_def\<close>)
  then show "printable s' sc = printable s sc" "typing s' sc = typing s sc" "typed s' scs = typed s scs"
    by (simp_all add: printable_def typing_def typed_def)
  show "enter_event s' = enter_event s" using assms by (simp add: enter_event_def same_keyboard_def)
qed

lemma top_bit:
  assumes "(0x80 :: u8) \<le> sc"
  shows "sc AND 0x80 \<noteq> 0"
proof
  assume z: "sc AND 0x80 = 0"
  have b: "\<not> bit sc 7"
  proof
    assume "bit sc 7"
    then have "bit (sc AND 0x80) 7" by (simp add: bit_simps)
    then show False using z by simp
  qed
  have "sc = sc AND mask 7"
    by (rule bit_word_eqI) (use b in \<open>auto simp: bit_simps less_Suc_eq numeral_eq_Suc\<close>)
  then have "unat sc = take_bit 7 (unat sc)" by (metis take_bit_eq_mask unsigned_take_bit_eq)
  then have "unat sc < 2 ^ 7" by (metis take_bit_nat_less_exp)
  then show False using assms by (simp add: word_le_nat_alt)
qed

lemma kbd_self: "\<not> g_ps2_e0 s \<Longrightarrow> s\<lparr>g_ps2_e0 := False\<rparr> = s" "s\<lparr>g_mods := g_mods s\<rparr> = s"
  by (cases s; simp)+

lemma silent_scancode:
  assumes "silent sc" and "\<not> g_ps2_e0 s"
  shows "ps2_scancode sc s = s"
proof -
  have "ps2_track_mods (sc AND 0x7F) True (g_mods s) = g_mods s"
    using assms(1) by (auto simp: silent_def ps2_key_of_def ps2_track_mods_def kc_defs split: if_splits)
  then show ?thesis
    using assms top_bit [of sc] by (simp add: ps2_scancode_def silent_def emit_ps2_event_def kbd_self Let_def)
qed

lemma enter_scancode: "\<not> g_ps2_e0 s \<Longrightarrow> ps2_scancode 0x1C s = kbd_dispatch_event (enter_event s) s"
  by (simp add: ps2_scancode_def ps2_track_mods_def emit_ps2_event_def ps2_key_of_def enter_event_def kbd_self kc_defs)

lemma dispatch_key:
  assumes s: "at_line s evs line" and "length evs < 255" and "\<not> g_auto_echo s"
    and e: "ev_type e = KEY_EV_PRESS" "code e < 0x80" "mods e = g_mods s"
  shows "at_line (kbd_dispatch_event e s) (evs @ [e]) line" and "same_keyboard s (kbd_dispatch_event e s)"
    and "con (kbd_dispatch_event e s) = con s"
proof -
  let ?s = "kbd_dispatch_event e s"
  have m: "modifier_update e (lock_toggle e (g_mods s)) = g_mods s" using e(2) by (rule char_mods)
  have "e\<lparr>mods := g_mods s\<rparr> = e" using e(3) by (cases e) simp
  then have "ring_contents (ev_ring ?s) = evs @ [e]"
    using rq.put_contents [of "ev_ring s" e] s assms(2) by (simp add: dispatch_rings m at_line_def kbd_ok_def)
  moreover have v: "shell_view ?s = shell_view s" and c: "con ?s = con s"
    using assms(3) by (simp_all add: shell_view_def kbd_dispatch_event_def push_event_def push_ascii_def Let_def)
  ultimately show "at_line ?s (evs @ [e]) line"
    using s dispatch_ok [of s e] by (auto simp: at_line_def shell_view_def edits_def)
  show "con ?s = con s" by (rule c)
  show "same_keyboard s ?s" using v c m assms(3)
    by (simp add: same_keyboard_def dispatch_rings dispatch_keeps)
      (simp add: kbd_dispatch_event_def push_event_def push_ascii_def Let_def)
qed

definition keyboard_on :: "'a shell_scheme \<Rightarrow> bool" where
  "keyboard_on s \<longleftrightarrow> length (interrupt_handlers s) = 256 \<and> interrupt_handlers s ! 33 = Some Ps2_irq1_handler \<and>
     \<not> g_ps2_e0 s \<and> \<not> g_auto_echo s"

lemma ps2_interrupt:
  assumes "int_no r = 33" and "keyboard_on s" and "scancodes (sc # rest) (reads (trace (mach (con s)))) (env (mach (con s)))"
  shows "\<exists>c. interrupt r s = ps2_scancode sc (s\<lparr>con := c\<rparr>) \<and> env (mach c) = env (mach (con s)) \<and>
    reads (trace (mach c)) = Suc (reads (trace (mach (con s))))"
proof -
  let ?m = "port_byte_out 0x20 0x20 (mach (con s))"
  have "reads (trace ?m) = reads (trace (mach (con s)))" by (simp add: reads_def)
  then have "ucast (env ?m (trace ?m) W8 0x60) = sc"
    using assms(3) [unfolded scancodes_def, rule_format, of 0 "trace ?m"] by simp
  then have "fst (port_byte_in 0x60 ?m) = sc" by (simp add: port_byte_in_def Let_def)
  then have "interrupt r s = ps2_scancode sc (s\<lparr>con := (con s)\<lparr>mach := snd (port_byte_in 0x60 ?m)\<rparr>\<rparr>)"
    using assms(1,2) by (simp add: interrupt_def irq_handler_def isr_call_def ps2_irq1_handler_def keyboard_on_def case_prod_unfold Let_def)
  moreover have "reads (trace (snd (port_byte_in 0x60 ?m))) = Suc (reads (trace (mach (con s))))"
    by (simp add: port_byte_in_def reads_def Let_def)
  ultimately show ?thesis by (intro exI [of _ "(con s)\<lparr>mach := snd (port_byte_in 0x60 ?m)\<rparr>"]) simp
qed

lemma scancodes_tl: "scancodes (sc # rest) n e \<Longrightarrow> scancodes rest (Suc n) e"
  unfolding scancodes_def by (metis Suc_less_eq add_Suc add_Suc_right length_Cons nth_Cons_Suc)

lemma same_keyboard_con: "env (mach c) = env (mach (con s)) \<Longrightarrow> same_keyboard s (s\<lparr>con := c\<rparr>)"
  by (simp add: same_keyboard_def shell_view_def)

lemma at_line_con: "at_line (s\<lparr>con := c\<rparr>) evs line = at_line s evs line"
  by (simp add: at_line_def kbd_ok_def edits_def)

lemma keyboard_on_same: "same_keyboard s s' \<Longrightarrow> keyboard_on s' = keyboard_on s"
  by (simp add: same_keyboard_def keyboard_on_def)

text \<open>One keyboard interrupt: it adds the events of its scan code behind those waiting.\<close>

definition events_of :: "'a kbd_scheme \<Rightarrow> u8 \<Rightarrow> key_event list" where
  "events_of s sc = (if sc = 0x1C then [enter_event s] else if sc < 0x80 then [char_event s sc] else [])"

lemma key_interrupt:
  assumes "int_no r = 33" and on: "keyboard_on s" and "at_line s evs line" and "length evs < 255"
    and sc: "typing s sc \<or> sc = 0x1C" and q: "scancodes (sc # rest) (reads (trace (mach (con s)))) (env (mach (con s)))"
  shows "at_line (interrupt r s) (evs @ events_of s sc) line \<and> same_keyboard s (interrupt r s) \<and>
    reads (trace (mach (con (interrupt r s)))) = Suc (reads (trace (mach (con s))))"
proof -
  obtain c where c: "interrupt r s = ps2_scancode sc (s\<lparr>con := c\<rparr>)" "env (mach c) = env (mach (con s))"
      "reads (trace (mach c)) = Suc (reads (trace (mach (con s))))"
    using ps2_interrupt [OF assms(1) on q] by blast
  let ?t = "s\<lparr>con := c\<rparr>"
  have t: "same_keyboard s ?t" "at_line ?t evs line" "\<not> g_ps2_e0 ?t" "\<not> g_auto_echo ?t"
    using same_keyboard_con [OF c(2)] assms(3) on by (simp_all add: at_line_con keyboard_on_def)
  note tr = same_keyboard_translate [OF t(1)]
  have key: "at_line (interrupt r s) (evs @ [e]) line \<and> same_keyboard s (interrupt r s) \<and> con (interrupt r s) = con ?t"
    if "ps2_scancode sc ?t = kbd_dispatch_event e ?t" "ev_type e = KEY_EV_PRESS" "code e < 0x80" "mods e = g_mods ?t" for e
    unfolding c(1) that(1) using dispatch_key [OF t(2) assms(4) t(4) that(2-4)] same_keyboard_trans [OF t(1)] by blast
  consider "sc = 0x1C" | "sc \<noteq> 0x1C" "printable s sc" | "silent sc" "sc \<noteq> 0x1C" "\<not> sc < 0x80"
    using sc by (cases "sc = 0x1C"; auto simp: typing_def silent_def not_less)
  then show ?thesis
  proof cases
    case 1
    then show ?thesis
      using key [OF enter_scancode [OF t(3), folded 1]] tr(5) c(3) by (simp add: events_of_def enter_event_def KC_ENTER_def)
  next
    case 2
    have p: "printable ?t sc" "sc < 0x80" using 2 tr(2) by blast (use 2 in \<open>simp add: printable_def\<close>)
    have "char_event ?t sc = char_event s sc" using tr(1) by (simp add: char_event_def)
    moreover have "code (char_event s sc) < 0x80" using 2(2) by (simp add: char_event_def printable_def word_less_nat_alt)
    ultimately show ?thesis
      using key [OF printable_scancode [OF p(1) t(3)]] 2(1) p(2) c(3) by (simp add: events_of_def char_event_def)
  next
    case 3
    then show ?thesis using silent_scancode [OF 3(1) t(3)] c t(1,2) by (simp add: events_of_def)
  qed
qed

lemma key_interrupts:
  assumes "int_no r = 33" and "keyboard_on s" and "at_line s evs line" and "length evs + length scs \<le> 255"
    and "list_all (\<lambda>sc. typing s sc \<or> sc = 0x1C) scs" and "scancodes scs (reads (trace (mach (con s)))) (env (mach (con s)))"
  shows "at_line ((interrupt r ^^ length scs) s) (evs @ concat (map (events_of s) scs)) line"
  using assms(2-)
proof (induction scs arbitrary: s evs)
  case (Cons sc scs)
  let ?s = "interrupt r s"
  have k: "at_line ?s (evs @ events_of s sc) line" "same_keyboard s ?s"
      "reads (trace (mach (con ?s))) = Suc (reads (trace (mach (con s))))"
    using key_interrupt [OF assms(1) Cons.prems(1,2) _ _ Cons.prems(5)] Cons.prems(3,4) by auto
  note tr = same_keyboard_translate [OF k(2)]
  have ev: "events_of ?s = events_of s"
    using tr(1,5) k(2) by (simp add: fun_eq_iff events_of_def char_event_def same_keyboard_def)
  have "length (evs @ events_of s sc) + length scs \<le> 255" using Cons.prems(3) by (simp add: events_of_def)
  moreover have "list_all (\<lambda>x. typing ?s x \<or> x = 0x1C) scs" using Cons.prems(4) tr(3) by simp
  moreover have "scancodes scs (reads (trace (mach (con ?s)))) (env (mach (con ?s)))"
    using scancodes_tl [OF Cons.prems(5)] k(2,3) by (simp add: same_keyboard_def)
  ultimately have "at_line ((interrupt r ^^ length scs) ?s) ((evs @ events_of s sc) @ concat (map (events_of ?s) scs)) line"
    using Cons.IH [of ?s "evs @ events_of s sc"] k(1,2) Cons.prems(1) keyboard_on_same by blast
  then show ?case by (simp add: ev funpow_swap1)
qed simp

lemma type_text:
  assumes "list_all printable_char t" and "length u + length t \<le> 1999"
  shows "fold edit_key (map ucast t) (u, length u) = (u @ t, length u + length t)"
  using assms
proof (induction t arbitrary: u)
  case (Cons ch t)
  have ch: "0x20 \<le> (ucast ch :: u16)" "(ucast ch :: u16) < 0x7F"
    using Cons.prems(1) by (simp_all add: printable_char_def word_le_nat_alt word_less_nat_alt)
  have "edit_key (ucast ch) (u, length u) = (u @ [ch], length (u @ [ch]))"
    using ch Cons.prems(2) by (auto simp: edit_key_def kc_defs)
  then show ?case using Cons.IH [of "u @ [ch]"] Cons.prems by simp
qed simp


lemma presses_typed:
  assumes "list_all (typing s) scs"
  shows "presses (concat (map (events_of s) scs)) = map ucast (typed s scs)" and "list_all printable_char (typed s scs)"
proof -
  have one: "presses (events_of s sc) = (if sc < 0x80 then [ucast (translate_ps2_ascii sc s)] else [])"
    if "typing s sc" for sc
  proof (cases "sc = 0x1C")
    case True
    then show ?thesis using that by (simp add: typing_def silent_def printable_def ps2_key_of_def kc_defs)
  next
    case False
    then show ?thesis by (simp add: events_of_def presses_def char_event_def)
  qed
  show "presses (concat (map (events_of s) scs)) = map ucast (typed s scs)"
    using assms by (induction scs) (simp_all add: one typed_def)
  show "list_all printable_char (typed s scs)"
    using assms by (auto simp: list_all_iff typed_def typing_def silent_def)
qed

section \<open>Properties\<close>


text \<open>The machine of the other examples, before any keyboard is registered.\<close>

definition demo_reset :: shell where
  "demo_reset = demo_shell\<lparr>g_ps2_registered := False\<rparr>"

lemma demo_reset_ok: "uhci_ok demo_reset" "heap_inv (heap demo_reset) Map.empty" "\<not> g_ps2_registered demo_reset"
  "shell_start demo_reset" "\<not> end_command demo_reset"
proof -
  have "uhci_ok demo_reset = uhci_ok demo_usb" "heap demo_reset = heap demo_usb"
    by (simp_all add: demo_reset_def demo_shell_def uhci_ok_def uhci.defs)
  then show "uhci_ok demo_reset" "heap_inv (heap demo_reset) Map.empty" "\<not> g_ps2_registered demo_reset"
    "shell_start demo_reset" "\<not> end_command demo_reset"
    using demo_usb_ok heap_inv_init demo_shell_flags by (simp_all add: demo_reset_def)
qed


text \<open>
  C3. From the key to the command: while the shell waits on an empty line, the PS/2 interrupts of
  keys that stand for printable characters, with their release codes in between, and of Enter,
  going through the interrupt dispatcher and the keyboard driver, make the next call of the shell
  return with exactly the typed text as the finished command.
\<close>

theorem typed_command_reaches_shell:
  assumes "int_no r = 33" and "keyboard_on s" and "at_line s [] (([], 0), False)" and "list_all (typing s) scs"
    and "length scs < 255" and "scancodes (scs @ [0x1C]) (reads (trace (mach (con s)))) (env (mach (con s)))"
  shows "\<exists>s'. shell_main_loop [] ((interrupt r ^^ Suc (length scs)) s) = Some ([], s') \<and>
    at_line s' [] ((typed s scs, length (typed s scs)), True)"
proof -
  let ?s = "(interrupt r ^^ Suc (length scs)) s" and ?evs = "concat (map (events_of s) (scs @ [0x1C]))"
  have "list_all (\<lambda>sc. typing s sc \<or> sc = 0x1C) (scs @ [0x1C])" using assms(4) by (auto simp: list_all_iff)
  then have k: "at_line ?s ?evs (([], 0), False)"
    using key_interrupts [OF assms(1-3), of "scs @ [0x1C]"] assms(5,6) by simp
  have p: "presses ?evs = map ucast (typed s scs) @ [KC_ENTER]"
    using presses_typed(1) [OF assms(4)] by (simp add: events_of_def) (simp add: presses_def enter_event_def)
  have "length (typed s scs) \<le> length scs" by (simp add: typed_def)
  then have "fold edit_key (map ucast (typed s scs)) ([], 0) = (typed s scs, length (typed s scs))"
    using type_text [OF presses_typed(2) [OF assms(4)], of "[]"] assms(5) by simp
  moreover have "shell_main_loop [] ?s = drain_events [] ?s" using k by (simp add: shell_main_loop_def at_line_def)
  ultimately show ?thesis using drain_waiting [OF k] unfolding p by (simp add: edit_key_enter finished_def)
qed


text \<open>A keyboard on which \<open>hi\<close> and Enter are typed.\<close>

definition demo_typing :: shell where
  "demo_typing = (new_line demo_shell)\<lparr>shell_start := False, interrupt_handlers := (replicate 256 None)[33 := Some Ps2_irq1_handler],
     con := demo_vga\<lparr>mach := \<lparr>trace = [], env = (\<lambda>tr w p. ucast ([0x23, 0xA3, 0x17, 0x97, 0x1C :: u8] ! reads tr))\<rparr>\<rparr>\<rparr>"

lemma demo_typing_line: "at_line demo_typing [] (([], 0), False)"
  using demo_shell_rings demo_shell_flags
  by (auto simp: demo_typing_def at_line_def kbd_ok_def edits_def cstring_def new_line_def init_command_line_def
      flush_command_line_def split: prod.split)

lemma demo_typing_kbd:
  "tbl_norm demo_typing = sc_ascii_qwerty" "tbl_shift demo_typing = sc_ascii_qwerty_cap" "g_mods demo_typing = 0"
  "\<not> g_ps2_e0 demo_typing" "\<not> g_auto_echo demo_typing"
  "interrupt_handlers demo_typing = (replicate 256 None)[33 := Some Ps2_irq1_handler]"
  "con demo_typing = demo_vga\<lparr>mach := \<lparr>trace = [], env = (\<lambda>tr w p. ucast ([0x23, 0xA3, 0x17, 0x97, 0x1C :: u8] ! reads tr))\<rparr>\<rparr>"
  by (auto simp: demo_typing_def new_line_def init_command_line_def flush_command_line_def demo_shell_def demo_usb_def demo_uhci_def
      demo_pci_def demo_cmdline_def demo_usb_kbd_def demo_kbd_def uhci.defs pci.defs cmdline.defs usb_kbd.defs kbd.defs cpu.defs
      split: prod.split)

lemma demo_typing_keys:
  "translate_ps2_ascii 0x23 demo_typing = 0x68" "translate_ps2_ascii 0x17 demo_typing = 0x69"
  by (simp_all add: translate_ps2_ascii_def kbd_layout_ascii_from_set1_def demo_typing_kbd sc_ascii_qwerty_def KM_SHIFT_def
      KM_CAPS_def SC_ASCII_TABLE_LEN_def)

theorem typed_command_reaches_shell_witness:
  "\<exists>s'. shell_main_loop [] ((interrupt (demo_regs 33) ^^ 5) demo_typing) = Some ([], s') \<and>
     at_line s' [] ((lit ''hi'', 2), True)"
proof -
  let ?scs = "[0x23, 0xA3, 0x17, 0x97] :: u8 list"
  have "int_no (demo_regs 33) = 33" by (simp add: demo_regs_def)
  moreover have "keyboard_on demo_typing" by (simp add: keyboard_on_def demo_typing_kbd)
  moreover have "list_all (typing demo_typing) ?scs"
    by (simp add: typing_def silent_def printable_def printable_char_def demo_typing_keys ps2_key_of_def kc_defs)
  moreover have "scancodes (?scs @ [0x1C]) (reads (trace (mach (con demo_typing)))) (env (mach (con demo_typing)))"
    by (auto simp: scancodes_def demo_typing_kbd reads_def)
  moreover have "typed demo_typing ?scs = lit ''hi''" by (simp add: typed_def demo_typing_keys lit_def)
  moreover have "length ?scs < 255" "Suc (length ?scs) = 5" "length (lit ''hi'') = 2" by (simp_all add: lit_def)
  ultimately show ?thesis
    using typed_command_reaches_shell [of "demo_regs 33" demo_typing ?scs] demo_typing_line by metis
qed

end
