(* ===== verification/Boot.thy ===== *)
theory Boot
  imports Framebuffer "HOL-Library.Monad_Syntax"
begin

text \<open>
  \<^verbatim>\<open>src/bootloader/uefi\<close>: the UEFI loader (\<^verbatim>\<open>main.c\<close>, \<^verbatim>\<open>gop.c\<close> and the declarations of
  \<^verbatim>\<open>include/uefi.h\<close>, \<^verbatim>\<open>include/gop.h\<close>, \<^verbatim>\<open>include/kernel_bootinfo.h\<close>).

  The firmware is code outside the repository: its services are function fields of the records that
  \<^verbatim>\<open>uefi.h\<close> declares (only the services the loader calls), each over the state \<open>'f boot\<close>, which is the
  physical memory and a firmware state \<open>'f\<close> the loader cannot see.  A parameter through which a service
  returns something is an argument with the old contents and a result with the new ones.  The methods
  of a protocol are found through its address (\<open>file_at\<close>, \<open>fs_at\<close>, \<open>gop_at\<close>); the plain data of the
  structures are read from memory at their C offsets, low byte first.  A loop whose end depends on
  the firmware is a \<open>partial_function\<close>: \<open>None\<close> means that it does not return.

  The lemmas show where the header of the kernel is found, that the file ends up in memory when the
  firmware keeps to the description of \<open>Read\<close>, that boot services are left when it keeps to those of
  \<open>GetMemoryMap\<close> and \<open>ExitBootServices\<close>, and what the kernel is given when it is entered.
\<close>

section \<open>Types of uefi.h\<close>

type_synonym EFI_STATUS = u64
type_synonym CHAR16 = u16

definition EFI_SUCCESS :: EFI_STATUS where "EFI_SUCCESS = 0"
definition EFI_LOAD_ERROR :: EFI_STATUS where "EFI_LOAD_ERROR = 0x8000000000000001"
definition EFI_INVALID_PARAMETER :: EFI_STATUS where "EFI_INVALID_PARAMETER = 0x8000000000000002"
definition EFI_BUFFER_TOO_SMALL :: EFI_STATUS where "EFI_BUFFER_TOO_SMALL = 0x8000000000000005"
definition EFI_FILE_MODE_READ :: u64 where "EFI_FILE_MODE_READ = 1"

definition EFI_ERROR :: "EFI_STATUS \<Rightarrow> bool" where
  "EFI_ERROR status \<longleftrightarrow> drop_bit 63 status \<noteq> 0"

record EFI_GUID =
  Data1 :: u32
  Data2 :: u16
  Data3 :: u16
  Data4 :: "u8 list"

datatype EFI_ALLOCATE_TYPE = AllocateAnyPages | AllocateMaxAddress | AllocateAddress | MaxAllocateType

datatype EFI_LOCATE_SEARCH_TYPE = AllHandles | ByRegisterNotify | ByProtocol

datatype EFI_MEMORY_TYPE = EfiReservedMemoryType | EfiLoaderCode | EfiLoaderData | EfiBootServicesCode
  | EfiBootServicesData | EfiRuntimeServicesCode | EfiRuntimeServicesData | EfiConventionalMemory
  | EfiUnusableMemory | EfiACPIReclaimMemory | EfiACPIMemoryNVS | EfiMemoryMappedIO
  | EfiMemoryMappedIOPortSpace | EfiPalCode | EfiPersistentMemory | EfiMaxMemoryType

record 'f boot =
  bmem :: bytemem
  firmware :: 'f

record 'f EFI_SIMPLE_TEXT_OUTPUT_PROTOCOL =
  OutputString :: "(CHAR16 list \<Rightarrow> 'f boot \<Rightarrow> EFI_STATUS \<times> 'f boot) option"

record 'f EFI_BOOT_SERVICES =
  AllocatePages :: "EFI_ALLOCATE_TYPE \<Rightarrow> EFI_MEMORY_TYPE \<Rightarrow> u64 \<Rightarrow> u64 \<Rightarrow> 'f boot \<Rightarrow> EFI_STATUS \<times> u64 \<times> 'f boot"
  GetMemoryMap :: "u64 \<Rightarrow> u64 \<Rightarrow> u64 \<Rightarrow> u64 \<Rightarrow> u32 \<Rightarrow> 'f boot \<Rightarrow> EFI_STATUS \<times> u64 \<times> u64 \<times> u64 \<times> u32 \<times> 'f boot"
  AllocatePool :: "EFI_MEMORY_TYPE \<Rightarrow> u64 \<Rightarrow> u64 \<Rightarrow> 'f boot \<Rightarrow> EFI_STATUS \<times> u64 \<times> 'f boot"
  FreePool :: "u64 \<Rightarrow> 'f boot \<Rightarrow> EFI_STATUS \<times> 'f boot"
  HandleProtocol :: "u64 \<Rightarrow> EFI_GUID \<Rightarrow> u64 \<Rightarrow> 'f boot \<Rightarrow> EFI_STATUS \<times> u64 \<times> 'f boot"
  ExitBootServices :: "u64 \<Rightarrow> u64 \<Rightarrow> 'f boot \<Rightarrow> EFI_STATUS \<times> 'f boot"
  LocateHandleBuffer :: "EFI_LOCATE_SEARCH_TYPE \<Rightarrow> EFI_GUID \<Rightarrow> u64 \<Rightarrow> u64 \<Rightarrow> 'f boot \<Rightarrow> EFI_STATUS \<times> u64 \<times> u64 \<times> 'f boot"
  LocateProtocol :: "EFI_GUID \<Rightarrow> u64 \<Rightarrow> 'f boot \<Rightarrow> EFI_STATUS \<times> u64 \<times> 'f boot"
  SetMem :: "u64 \<Rightarrow> u64 \<Rightarrow> u8 \<Rightarrow> 'f boot \<Rightarrow> 'f boot"

record 'f EFI_FILE_PROTOCOL =
  Open :: "u64 \<Rightarrow> u64 \<Rightarrow> CHAR16 list \<Rightarrow> u64 \<Rightarrow> u64 \<Rightarrow> 'f boot \<Rightarrow> EFI_STATUS \<times> u64 \<times> 'f boot"
  Close :: "u64 \<Rightarrow> 'f boot \<Rightarrow> EFI_STATUS \<times> 'f boot"
  Read :: "u64 \<Rightarrow> u64 \<Rightarrow> u64 \<Rightarrow> 'f boot \<Rightarrow> EFI_STATUS \<times> u64 \<times> 'f boot"
  GetInfo :: "u64 \<Rightarrow> EFI_GUID \<Rightarrow> u64 \<Rightarrow> u64 \<Rightarrow> 'f boot \<Rightarrow> EFI_STATUS \<times> u64 \<times> 'f boot"

record 'f EFI_SIMPLE_FILE_SYSTEM_PROTOCOL =
  OpenVolume :: "u64 \<Rightarrow> u64 \<Rightarrow> 'f boot \<Rightarrow> EFI_STATUS \<times> u64 \<times> 'f boot"

record 'f EFI_GRAPHICS_OUTPUT_PROTOCOL =
  QueryMode :: "u64 \<Rightarrow> u32 \<Rightarrow> u64 \<Rightarrow> u64 \<Rightarrow> 'f boot \<Rightarrow> EFI_STATUS \<times> u64 \<times> u64 \<times> 'f boot"

record 'f EFI_SYSTEM_TABLE =
  ConOut :: "'f EFI_SIMPLE_TEXT_OUTPUT_PROTOCOL option"
  BootServices :: "'f EFI_BOOT_SERVICES"
  file_at :: "u64 \<Rightarrow> 'f EFI_FILE_PROTOCOL"
  fs_at :: "u64 \<Rightarrow> 'f EFI_SIMPLE_FILE_SYSTEM_PROTOCOL"
  gop_at :: "u64 \<Rightarrow> 'f EFI_GRAPHICS_OUTPUT_PROTOCOL"

text \<open>Scalars in memory: the \<open>n\<close> bytes of a value, low byte first, and back.\<close>

definition le_bytes :: "nat \<Rightarrow> 'a::len word \<Rightarrow> u8 list" where
  "le_bytes n w = map (\<lambda>i. ucast (drop_bit (8 * i) w)) [0..<n]"

definition of_le :: "u8 list \<Rightarrow> 'a::len word" where
  "of_le bs = foldr (\<lambda>b w. ucast b OR push_bit 8 w) bs 0"

definition read64 :: "bytemem \<Rightarrow> u64 \<Rightarrow> u64" where
  "read64 m p = of_le (fetch m (unat p) 8)"

definition read32 :: "bytemem \<Rightarrow> u64 \<Rightarrow> u32" where
  "read32 m p = of_le (fetch m (unat p) 4)"

definition write64 :: "u64 \<Rightarrow> u64 \<Rightarrow> bytemem \<Rightarrow> bytemem" where
  "write64 p v m = store m (unat p) (le_bytes 8 v)"

definition write32 :: "u64 \<Rightarrow> u32 \<Rightarrow> bytemem \<Rightarrow> bytemem" where
  "write32 p v m = store m (unat p) (le_bytes 4 v)"

definition wlit :: "string \<Rightarrow> CHAR16 list" where
  "wlit t = map of_char t"

section \<open>gop.c\<close>

record gop_info =
  gop :: u64
  width :: u32
  height :: u32
  pixels_per_scanline :: u32
  framebuffer_base :: u64
  framebuffer_size :: u64

definition gopGuid :: EFI_GUID where
  "gopGuid = \<lparr>Data1 = 0x9042a9de, Data2 = 0x23dc, Data3 = 0x4a38, Data4 = [0x96, 0xfb, 0x7a, 0xde, 0xd0, 0x80, 0x51, 0x6a]\<rparr>"

primrec find_gop :: "'f EFI_BOOT_SERVICES \<Rightarrow> u64 \<Rightarrow> nat list \<Rightarrow> EFI_STATUS \<Rightarrow> u64 \<Rightarrow> 'f boot \<Rightarrow> EFI_STATUS \<times> u64 \<times> 'f boot" where
  "find_gop bs handles [] status g s = (status, g, s)"
| "find_gop bs handles (i # is) status g s =
     (case HandleProtocol bs (read64 (bmem s) (handles + 8 * of_nat i)) gopGuid g s of (proto_status, g, s) \<Rightarrow>
        if \<not> EFI_ERROR proto_status \<and> g \<noteq> 0 then (EFI_SUCCESS, g, s) else find_gop bs handles is status g s)"

definition query_gop :: "'f EFI_SYSTEM_TABLE \<Rightarrow> u64 \<Rightarrow> gop_info \<Rightarrow> 'f boot \<Rightarrow> EFI_STATUS \<times> gop_info \<times> 'f boot" where
  "query_gop st g out s =
     (let mode = read64 (bmem s) (g + 24) in
      case QueryMode (gop_at st g) g (read32 (bmem s) (mode + 4)) 0 0 s of (status, mode_info_size, mode_info, s) \<Rightarrow>
        if EFI_ERROR status then (status, out, s)
        else let m = bmem s; mode = read64 m (g + 24);
                 out = out\<lparr>gop := g, width := read32 m (mode_info + 4), height := read32 m (mode_info + 8),
                           pixels_per_scanline := read32 m (mode_info + 32), framebuffer_base := read64 m (mode + 24),
                           framebuffer_size := read64 m (mode + 32)\<rparr>
             in (EFI_SUCCESS, out, snd (FreePool (BootServices st) mode_info s)))"

definition locate_gop :: "'f EFI_SYSTEM_TABLE \<Rightarrow> gop_info option \<Rightarrow> 'f boot \<Rightarrow> EFI_STATUS \<times> gop_info option \<times> 'f boot" where
  "locate_gop st out_info s =
     (case out_info of
        None \<Rightarrow> (EFI_INVALID_PARAMETER, None, s)
      | Some out \<Rightarrow>
          (let bs = BootServices st;
               query = (\<lambda>g s. case query_gop st g out s of (status, out, s) \<Rightarrow> (status, Some out, s)) in
           case LocateProtocol bs gopGuid 0 s of (status, g, s) \<Rightarrow>
             if EFI_ERROR status \<or> g = 0
             then (case LocateHandleBuffer bs ByProtocol gopGuid 0 0 s of (status, handle_count, handles, s) \<Rightarrow>
                     if EFI_ERROR status then (status, out_info, s)
                     else case find_gop bs handles [0..<unat handle_count] status g s of (status, g, s) \<Rightarrow>
                       let s = snd (FreePool bs handles s)
                       in if EFI_ERROR status \<or> g = 0 then (status, out_info, s) else query g s)
             else query g s))"

section \<open>main.c\<close>

definition KERNEL_RELATIVE_PATH :: "CHAR16 list" where
  "KERNEL_RELATIVE_PATH = 92 # wlit ''CASSEKRN.BIN''"
definition KERNEL_LOAD_ADDRESS :: u64 where "KERNEL_LOAD_ADDRESS = 0x80000"
definition KERNEL_STACK_PAGES :: u64 where "KERNEL_STACK_PAGES = 16"
definition PAGE_SIZE :: u64 where "PAGE_SIZE = 4096"

definition gEfiSimpleFileSystemProtocolGuid :: EFI_GUID where
  "gEfiSimpleFileSystemProtocolGuid =
     \<lparr>Data1 = 0x964e5b22, Data2 = 0x6459, Data3 = 0x11d2, Data4 = [0x8e, 0x39, 0x00, 0xa0, 0xc9, 0x69, 0x72, 0x3b]\<rparr>"

definition gEfiFileInfoGuid :: EFI_GUID where
  "gEfiFileInfoGuid =
     \<lparr>Data1 = 0x09576e92, Data2 = 0x6d3f, Data3 = 0x11d2, Data4 = [0x8e, 0x39, 0x00, 0xa0, 0xc9, 0x69, 0x72, 0x3b]\<rparr>"

definition gEfiLoadedImageProtocolGuid :: EFI_GUID where
  "gEfiLoadedImageProtocolGuid =
     \<lparr>Data1 = 0x5b1b31a1, Data2 = 0x9562, Data3 = 0x11d2, Data4 = [0x8e, 0x3f, 0x00, 0xa0, 0xc9, 0x69, 0x72, 0x3b]\<rparr>"

text \<open>The header of the kernel image, \<open>kernel_bootinfo_t\<close>, in memory.\<close>

definition sizeof_bootinfo :: u64 where "sizeof_bootinfo = 56"

definition bootinfo_at :: "bytemem \<Rightarrow> u64 \<Rightarrow> bootinfo" where
  "bootinfo_at m p = \<lparr>magic = read64 m p, uefi_entry = read64 m (p + 8), flags = read64 m (p + 16),
     fb_base = read64 m (p + 24), fb_size = read64 m (p + 32), fb_width = read32 m (p + 40),
     fb_height = read32 m (p + 44), fb_stride = read32 m (p + 48), fb_bpp = read32 m (p + 52)\<rparr>"

function search_bootinfo :: "bytemem \<Rightarrow> u64 \<Rightarrow> u64 \<Rightarrow> u64 \<Rightarrow> u64" where
  "search_bootinfo m base offset max_steps =
     (if read64 m (base + offset) = KERNEL_BOOTINFO_MAGIC then base + offset
      else if offset = 0 \<or> max_steps = 0 then 0
      else search_bootinfo m base (offset - 1) (max_steps - 1))"
  by auto
termination by (relation "measure (\<lambda>(m, base, offset, max_steps). unat offset)") (auto simp: unat_minus_one unat_gt_0 intro!: diff_less)

declare search_bootinfo.simps [simp del]

definition find_kernel_bootinfo :: "bytemem \<Rightarrow> u64 \<Rightarrow> u64 \<Rightarrow> u64" where
  "find_kernel_bootinfo m base image_size =
     (if image_size < sizeof_bootinfo then 0
      else let search_window = (if image_size < 0x8000 then image_size else 0x8000);
               max_steps = (if search_window > sizeof_bootinfo then search_window - sizeof_bootinfo else 0)
           in search_bootinfo m base (image_size - sizeof_bootinfo) max_steps)"

definition print :: "'f EFI_SYSTEM_TABLE \<Rightarrow> CHAR16 list \<Rightarrow> 'f boot \<Rightarrow> 'f boot" where
  "print st message s =
     (case ConOut st of None \<Rightarrow> s | Some console \<Rightarrow>
        (case OutputString console of None \<Rightarrow> s | Some output \<Rightarrow> snd (output message s)))"

definition get_file_size :: "'f EFI_SYSTEM_TABLE \<Rightarrow> u64 \<Rightarrow> u64 \<Rightarrow> 'f boot \<Rightarrow> EFI_STATUS \<times> u64 \<times> 'f boot" where
  "get_file_size st file fsize s =
     (let bs = BootServices st; get_info = GetInfo (file_at st file) file gEfiFileInfoGuid in
      case get_info 0 0 s of (status, info_size, s) \<Rightarrow>
        if status \<noteq> EFI_BUFFER_TOO_SMALL then (status, fsize, s)
        else case AllocatePool bs EfiLoaderData info_size 0 s of (status, info, s) \<Rightarrow>
          if EFI_ERROR status then (status, fsize, s)
          else case get_info info_size info s of (status, info_size, s) \<Rightarrow>
            let fsize = (if EFI_ERROR status then fsize else read64 (bmem s) (info + 8))
            in (status, fsize, snd (FreePool bs info s)))"

record kernel_image =
  kernel_location :: u64
  kernel_pages :: u64
  kernel_file_size :: u64

partial_function (option) read_file ::
    "'f EFI_SYSTEM_TABLE \<Rightarrow> u64 \<Rightarrow> u64 \<Rightarrow> u64 \<Rightarrow> 'f boot \<Rightarrow> ((EFI_STATUS + u64) \<times> 'f boot) option" where
  "read_file st file remaining write_ptr s =
     (if remaining = 0 then Some (Inr remaining, s)
      else case Read (file_at st file) file remaining write_ptr s of (status, chunk, s) \<Rightarrow>
        if EFI_ERROR status then Some (Inl status, s)
        else if chunk = 0 then Some (Inr remaining, s)
        else read_file st file (remaining - chunk) (write_ptr + chunk) s)"

definition load_kernel ::
    "'f EFI_SYSTEM_TABLE \<Rightarrow> u64 \<Rightarrow> kernel_image \<Rightarrow> 'f boot \<Rightarrow> (EFI_STATUS \<times> kernel_image \<times> 'f boot) option" where
  "load_kernel st root img s =
     (let bs = BootServices st in
      case Open (file_at st root) root 0 KERNEL_RELATIVE_PATH EFI_FILE_MODE_READ 0 s of (status, kernel_file, s) \<Rightarrow>
        if EFI_ERROR status then Some (status, img, s)
        else let close = (\<lambda>s. snd (Close (file_at st kernel_file) kernel_file s)) in
        case get_file_size st kernel_file 0 s of (status, file_size, s) \<Rightarrow>
          if EFI_ERROR status then Some (status, img, close s)
          else let pages = (file_size + PAGE_SIZE - 1) div PAGE_SIZE in
          case AllocatePages bs AllocateAddress EfiLoaderData pages KERNEL_LOAD_ADDRESS s of (status, destination, s) \<Rightarrow>
            if EFI_ERROR status then Some (status, img, close s)
            else do {
              (r, s) \<leftarrow> read_file st kernel_file file_size destination s;
              (case r of
                 Inl status \<Rightarrow> Some (status, img, close s)
               | Inr remaining \<Rightarrow>
                   if remaining \<noteq> 0 then Some (EFI_LOAD_ERROR, img, close s)
                   else Some (EFI_SUCCESS, \<lparr>kernel_location = destination, kernel_pages = pages, kernel_file_size = file_size\<rparr>,
                              close s))
            })"

partial_function (option) exit_loop ::
    "'f EFI_BOOT_SERVICES \<Rightarrow> u64 \<Rightarrow> u64 \<Rightarrow> u64 \<Rightarrow> u64 \<Rightarrow> u64 \<Rightarrow> u32 \<Rightarrow> 'f boot \<Rightarrow> (EFI_STATUS \<times> 'f boot) option" where
  "exit_loop bs image_handle map_size memory_map map_key descriptor_size descriptor_version s =
     (let release = (\<lambda>s. if memory_map \<noteq> 0 then snd (FreePool bs memory_map s) else s) in
      case GetMemoryMap bs map_size memory_map map_key descriptor_size descriptor_version s of
        (status, map_size, map_key, descriptor_size, descriptor_version, s) \<Rightarrow>
        if status = EFI_BUFFER_TOO_SMALL
        then let map_size = map_size + descriptor_size * 2 in
             case AllocatePool bs EfiLoaderData map_size memory_map (release s) of (status, memory_map, s) \<Rightarrow>
               if EFI_ERROR status then Some (status, s)
               else exit_loop bs image_handle map_size memory_map map_key descriptor_size descriptor_version s
        else if EFI_ERROR status then Some (status, release s)
        else case ExitBootServices bs image_handle map_key s of (status, s) \<Rightarrow>
               if EFI_ERROR status
               then if status = EFI_INVALID_PARAMETER
                    then exit_loop bs image_handle map_size memory_map map_key descriptor_size descriptor_version s
                    else Some (status, release s)
               else Some (EFI_SUCCESS, s))"

definition exit_boot_services :: "'f EFI_BOOT_SERVICES \<Rightarrow> u64 \<Rightarrow> 'f boot \<Rightarrow> (EFI_STATUS \<times> 'f boot) option" where
  "exit_boot_services bs image_handle s = exit_loop bs image_handle 0 0 0 0 0 s"

text \<open>What \<open>efi_main\<close> ends with: a status for the firmware, or \<open>uefi_enter_kernel\<close>, which never returns.\<close>

datatype outcome = Return EFI_STATUS | Enter_kernel u64 u64 u64

primrec try_handles ::
    "'f EFI_SYSTEM_TABLE \<Rightarrow> u64 \<Rightarrow> nat list \<Rightarrow> EFI_STATUS \<Rightarrow> kernel_image \<Rightarrow> 'f boot \<Rightarrow>
     (bool \<times> EFI_STATUS \<times> kernel_image \<times> 'f boot) option" where
  "try_handles st handles [] status img s = Some (False, status, img, s)"
| "try_handles st handles (i # is) status img s =
     (case HandleProtocol (BootServices st) (read64 (bmem s) (handles + 8 * of_nat i)) gEfiSimpleFileSystemProtocolGuid 0 s of
        (status, fs, s) \<Rightarrow>
        if EFI_ERROR status then try_handles st handles is status img s
        else case OpenVolume (fs_at st fs) fs 0 s of (status, root, s) \<Rightarrow>
          if EFI_ERROR status then try_handles st handles is status img s
          else do {
            (status, img, s) \<leftarrow> load_kernel st root img s;
            (if \<not> EFI_ERROR status then Some (True, status, img, s) else try_handles st handles is status img s)
          })"

text \<open>The fallback when no file system handle is listed: the device the loader itself came from.\<close>

definition try_boot_volume ::
    "'f EFI_SYSTEM_TABLE \<Rightarrow> u64 \<Rightarrow> kernel_image \<Rightarrow> 'f boot \<Rightarrow> ((EFI_STATUS + kernel_image) \<times> 'f boot) option" where
  "try_boot_volume st image_handle img s =
     (let bs = BootServices st; fail = (\<lambda>status message s. Some (Inl status, print st (wlit message @ [13, 10]) s)) in
      case HandleProtocol bs image_handle gEfiLoadedImageProtocolGuid 0 s of (status, loaded_image, s) \<Rightarrow>
        if EFI_ERROR status \<or> loaded_image = 0 then fail status ''Failed to query loaded image protocol'' s
        else case HandleProtocol bs (read64 (bmem s) (loaded_image + 24)) gEfiSimpleFileSystemProtocolGuid 0 s of (status, fs, s) \<Rightarrow>
          if EFI_ERROR status then fail status ''Failed to enumerate filesystem handles'' s
          else case OpenVolume (fs_at st fs) fs 0 s of (status, root, s) \<Rightarrow>
            if EFI_ERROR status then fail status ''Failed to open filesystem volume'' s
            else do {
              (status, img, s) \<leftarrow> load_kernel st root img s;
              (if EFI_ERROR status then fail status ''Kernel not found on boot volume'' s else Some (Inr img, s))
            })"

definition fill_bootinfo :: "EFI_STATUS \<Rightarrow> gop_info \<Rightarrow> u64 \<Rightarrow> bytemem \<Rightarrow> bytemem" where
  "fill_bootinfo gop_status g b m =
     (let m = write64 (b + 16) (read64 m (b + 16) OR KERNEL_BOOTINFO_FLAG_UEFI) m in
      if \<not> EFI_ERROR gop_status
      then let m = write64 (b + 16) (read64 m (b + 16) OR KERNEL_BOOTINFO_FLAG_FRAMEBUFFER) m in
           write32 (b + 52) 32 (write32 (b + 48) (pixels_per_scanline g) (write32 (b + 44) (height g)
             (write32 (b + 40) (width g) (write64 (b + 32) (framebuffer_size g) (write64 (b + 24) (framebuffer_base g) m)))))
      else write32 (b + 52) 0 (write32 (b + 48) 0 (write32 (b + 44) 0
             (write32 (b + 40) 0 (write64 (b + 32) 0 (write64 (b + 24) 0 m))))))"

definition enter_loaded_kernel ::
    "'f EFI_SYSTEM_TABLE \<Rightarrow> u64 \<Rightarrow> EFI_STATUS \<Rightarrow> gop_info \<Rightarrow> kernel_image \<Rightarrow> 'f boot \<Rightarrow> (outcome \<times> 'f boot) option" where
  "enter_loaded_kernel st image_handle gop_status g img s =
     (let bs = BootServices st; fail = (\<lambda>status message s. Some (Return status, print st (wlit message @ [13, 10]) s));
          boot_info = find_kernel_bootinfo (bmem s) (kernel_location img) (kernel_file_size img) in
      if boot_info = 0 then fail EFI_LOAD_ERROR ''Failed to locate kernel bootinfo block'' s
      else if read64 (bmem s) boot_info \<noteq> KERNEL_BOOTINFO_MAGIC
      then fail EFI_LOAD_ERROR ''Invalid kernel image (bootinfo magic mismatch)'' s
      else case AllocatePages bs AllocateAnyPages EfiLoaderData KERNEL_STACK_PAGES 0
                  (s\<lparr>bmem := fill_bootinfo gop_status g boot_info (bmem s)\<rparr>) of (status, stack_base, s) \<Rightarrow>
        if EFI_ERROR status then fail status ''Failed to allocate kernel stack'' s
        else let stack_top = stack_base + KERNEL_STACK_PAGES * PAGE_SIZE;
                 s = SetMem bs stack_base (KERNEL_STACK_PAGES * PAGE_SIZE) 0 s;
                 s = print st (wlit ''Exiting boot services'' @ [13, 10]) s
             in do {
               (status, s) \<leftarrow> exit_boot_services bs image_handle s;
               (if EFI_ERROR status then Some (Return status, s)
                else Some (Enter_kernel (read64 (bmem s) (boot_info + 8)) stack_top boot_info, s))
             })"

definition no_gop :: gop_info where
  "no_gop = \<lparr>gop = 0, width = 0, height = 0, pixels_per_scanline = 0, framebuffer_base = 0, framebuffer_size = 0\<rparr>"

definition no_image :: kernel_image where
  "no_image = \<lparr>kernel_location = 0, kernel_pages = 0, kernel_file_size = 0\<rparr>"

definition efi_main :: "'f EFI_SYSTEM_TABLE \<Rightarrow> u64 \<Rightarrow> 'f boot \<Rightarrow> (outcome \<times> 'f boot) option" where
  "efi_main st image_handle s =
     (let bs = BootServices st;
          s = print st (wlit ''CasseOS UEFI loader starting...'' @ [13, 10]) s in
      case locate_gop st (Some no_gop) s of (gop_status, g, s) \<Rightarrow>
      let enter = enter_loaded_kernel st image_handle gop_status (case g of None \<Rightarrow> no_gop | Some g \<Rightarrow> g) in
      case LocateHandleBuffer bs ByProtocol gEfiSimpleFileSystemProtocolGuid 0 0 s of (status, handle_count, handles, s) \<Rightarrow>
        if EFI_ERROR status
        then do {
          (r, s) \<leftarrow> try_boot_volume st image_handle no_image s;
          (case r of Inl status \<Rightarrow> Some (Return status, s) | Inr img \<Rightarrow> enter img s)
        }
        else do {
          (kernel_loaded, status, img, s) \<leftarrow> try_handles st handles [0..<unat handle_count] status no_image s;
          let s = (if handles \<noteq> 0 then snd (FreePool bs handles s) else s);
          (if \<not> kernel_loaded
           then Some (Return status, print st (wlit ''Failed to locate kernel on any filesystem'' @ [13, 10]) s)
           else enter img s)
        })"

section \<open>Scalars in memory\<close>

lemma length_le_bytes [simp]: "length (le_bytes n w) = n"
  by (simp add: le_bytes_def)

lemma of_le_bytes: "of_le (le_bytes n w) = take_bit (8 * n) (w :: 'a::len word)"
proof (induction n arbitrary: w)
  case 0
  then show ?case by (simp add: of_le_def le_bytes_def)
next
  case (Suc n)
  have "le_bytes (Suc n) w = ucast w # le_bytes n (drop_bit 8 w)"
    unfolding le_bytes_def upt_conv_Cons [OF zero_less_Suc] map_Suc_upt [symmetric]
    by (simp add: o_def drop_bit_drop_bit add.commute)
  then have "of_le (le_bytes (Suc n) w) = ucast (ucast w :: u8) OR push_bit 8 (take_bit (8 * n) (drop_bit 8 w))"
    using Suc.IH [of "drop_bit 8 w"] by (simp add: of_le_def)
  also have "\<dots> = take_bit (8 * Suc n) w"
    by (rule bit_word_eqI) (auto simp: bit_simps)
  finally show ?case .
qed

lemma read_write_same [simp]: "read64 (write64 p v m) p = v" "read32 (write32 p w m) p = w"
proof -
  have "fetch (store m (unat p) (le_bytes 8 v)) (unat p) 8 = le_bytes 8 v"
    "fetch (store m (unat p) (le_bytes 4 w)) (unat p) 4 = le_bytes 4 w"
    using fetch_store_same [of m "unat p" "le_bytes 8 v"] fetch_store_same [of m "unat p" "le_bytes 4 w"] by simp_all
  then show "read64 (write64 p v m) p = v" "read32 (write32 p w m) p = w"
    by (simp_all add: read64_def read32_def write64_def write32_def of_le_bytes take_bit_word_eq_self)
qed

lemma read_cong:
  "(\<And>i. i < 8 \<Longrightarrow> m (unat p + i) = m' (unat p + i)) \<Longrightarrow> read64 m p = read64 m' p"
  "(\<And>i. i < 4 \<Longrightarrow> m (unat p + i) = m' (unat p + i)) \<Longrightarrow> read32 m p = read32 m' p"
  by (simp_all add: read64_def read32_def fetch_cong [of 8 m "unat p" m'] fetch_cong [of 4 m "unat p" m'])

lemma write_outside:
  "a < unat p \<or> unat p + 8 \<le> a \<Longrightarrow> write64 p v m a = m a"
  "a < unat p \<or> unat p + 4 \<le> a \<Longrightarrow> write32 p w m a = m a"
  by (simp_all add: write64_def write32_def store_outside)

lemma read_write_other:
  "unat p + 8 \<le> unat q \<or> unat q + 8 \<le> unat p \<Longrightarrow> read64 (write64 q v m) p = read64 m p"
  "unat p + 8 \<le> unat q \<or> unat q + 4 \<le> unat p \<Longrightarrow> read64 (write32 q w m) p = read64 m p"
  "unat p + 4 \<le> unat q \<or> unat q + 8 \<le> unat p \<Longrightarrow> read32 (write64 q v m) p = read32 m p"
  "unat p + 4 \<le> unat q \<or> unat q + 4 \<le> unat p \<Longrightarrow> read32 (write32 q w m) p = read32 m p"
  by (auto intro!: read_cong write_outside)

section \<open>Finding the header\<close>

definition headers :: "bytemem \<Rightarrow> u64 \<Rightarrow> u64 \<Rightarrow> nat set" where
  "headers m base n = {k. k + 56 \<le> unat n \<and> unat n \<le> k + 0x8000 \<and> read64 m (base + of_nat k) = KERNEL_BOOTINFO_MAGIC}"

lemma finite_headers: "finite (headers m base n)"
  by (rule finite_subset [of _ "{..unat n}"]) (auto simp: headers_def)

lemma search_bootinfo_last:
  fixes off steps base :: u64 and m :: bytemem
  defines "S \<equiv> {k. k \<le> unat off \<and> unat off \<le> k + unat steps \<and> read64 m (base + of_nat k) = KERNEL_BOOTINFO_MAGIC}"
  shows "search_bootinfo m base off steps = (if S = {} then 0 else base + of_nat (Max S))"
  unfolding S_def
proof (induction m base off steps rule: search_bootinfo.induct)
  case (1 m base off steps)
  let ?S = "\<lambda>o' t. {k. k \<le> unat o' \<and> unat (o' :: u64) \<le> k + unat (t :: u64) \<and> read64 m (base + of_nat k) = KERNEL_BOOTINFO_MAGIC}"
  consider "read64 m (base + off) = KERNEL_BOOTINFO_MAGIC"
    | "read64 m (base + off) \<noteq> KERNEL_BOOTINFO_MAGIC" "off = 0 \<or> steps = 0"
    | "read64 m (base + off) \<noteq> KERNEL_BOOTINFO_MAGIC" "off \<noteq> 0" "steps \<noteq> 0" by blast
  then show ?case
  proof cases
    case 1
    have "Max (?S off steps) = unat off" using 1 by (intro Max_eqI) (auto intro: finite_subset [of _ "{..unat off}"])
    moreover have "(?S off steps = {}) = False" using 1 by (auto intro: exI [of _ "unat off"])
    ultimately have "(if ?S off steps = {} then 0 else base + of_nat (Max (?S off steps))) = base + off"
      by (simp only: if_False) simp
    then show ?thesis using 1 by (subst search_bootinfo.simps) (simp only: simp_thms if_True)
  next
    case 2
    then have "k = unat off" if "k \<in> ?S off steps" for k using that by auto
    then have "?S off steps = {}" using 2(1) by force
    then show ?thesis using 2 by (subst search_bootinfo.simps) auto
  next
    case 3
    have "k \<noteq> unat off" if "k \<in> ?S off steps" for k using that 3(1) by auto
    moreover have "0 < unat off" "0 < unat steps" using 3 by (simp_all add: unat_gt_0)
    ultimately have eq: "?S off steps = ?S (off - 1) (steps - 1)"
      using 3 by (auto simp: unat_minus_one le_less)
    have "search_bootinfo m base off steps = search_bootinfo m base (off - 1) (steps - 1)"
      using 3 by (subst search_bootinfo.simps) simp
    also have "\<dots> = (if ?S (off - 1) (steps - 1) = {} then 0 else base + of_nat (Max (?S (off - 1) (steps - 1))))"
      using 3 by (intro 1) simp_all
    finally show ?thesis unfolding eq .
  qed
qed

lemma find_bootinfo_eq:
  "find_kernel_bootinfo m base n = (if headers m base n = {} then 0 else base + of_nat (Max (headers m base n)))"
proof (cases "n < sizeof_bootinfo")
  case True
  then have "headers m base n = {}" by (auto simp: headers_def sizeof_bootinfo_def word_less_nat_alt)
  then show ?thesis using True by (simp add: find_kernel_bootinfo_def)
next
  case False
  define w where "w = (if n < 0x8000 then n else 0x8000)"
  have n: "56 \<le> unat n" using False by (simp add: sizeof_bootinfo_def word_less_nat_alt)
  have w: "unat w = min (unat n) 0x8000" by (simp add: w_def word_less_nat_alt)
  have w': "unat (if w > sizeof_bootinfo then w - sizeof_bootinfo else 0) = unat w - 56"
    using w n by (auto simp: sizeof_bootinfo_def word_less_nat_alt word_le_nat_alt unat_diff_le)
  have "unat (n - sizeof_bootinfo) = unat n - 56" using n by (simp add: sizeof_bootinfo_def word_le_nat_alt unat_diff_le)
  then have "{k. k \<le> unat (n - sizeof_bootinfo) \<and> unat (n - sizeof_bootinfo) \<le> k + (unat w - 56) \<and>
      read64 m (base + of_nat k) = KERNEL_BOOTINFO_MAGIC} = headers m base n"
    using n w by (auto simp: headers_def)
  then show ?thesis
    using False search_bootinfo_last [of m base "n - sizeof_bootinfo" "if w > sizeof_bootinfo then w - sizeof_bootinfo else 0"]
    unfolding find_kernel_bootinfo_def Let_def w_def [symmetric] w' by simp
qed

section \<open>Reading the file\<close>

text \<open>
  The description of \<open>Read\<close> in the UEFI specification, for a file that holds \<open>xs\<close> and has its position
  at \<open>pos s\<close>: a successful call stores at most the bytes asked for from the position on, advances the
  position, and returns nothing only at the end of the file; within \<open>A\<close> it writes only the buffer.
\<close>

definition reads_file :: "'f EFI_SYSTEM_TABLE \<Rightarrow> u64 \<Rightarrow> u8 list \<Rightarrow> ('f boot \<Rightarrow> nat) \<Rightarrow> nat set \<Rightarrow> bool" where
  "reads_file st file xs pos A \<longleftrightarrow>
     (\<forall>n p s status k s'. Read (file_at st file) file n p s = (status, k, s') \<longrightarrow> \<not> EFI_ERROR status \<longrightarrow>
        unat p + unat n \<le> 2 ^ 64 \<longrightarrow> pos s \<le> length xs \<longrightarrow>
        unat k \<le> unat n \<and> unat k \<le> length xs - pos s \<and> pos s' = pos s + unat k \<and>
        (k = 0 \<longrightarrow> n = 0 \<or> pos s = length xs) \<and>
        fetch (bmem s') (unat p) (unat k) = take (unat k) (drop (pos s) xs) \<and>
        (\<forall>a\<in>A. a < unat p \<or> unat p + unat k \<le> a \<longrightarrow> bmem s' a = bmem s a))"

lemma reads_fileD:
  assumes "reads_file st file xs pos A" "Read (file_at st file) file n p s = (status, k, s')" "\<not> EFI_ERROR status"
    "unat p + unat n \<le> 2 ^ 64" "pos s \<le> length xs"
  shows "unat k \<le> unat n" "unat k \<le> length xs - pos s" "pos s' = pos s + unat k" "k = 0 \<Longrightarrow> n = 0 \<or> pos s = length xs"
    "fetch (bmem s') (unat p) (unat k) = take (unat k) (drop (pos s) xs)"
    "\<And>a. a \<in> A \<Longrightarrow> a < unat p \<or> unat p + unat k \<le> a \<Longrightarrow> bmem s' a = bmem s a"
  using assms unfolding reads_file_def by blast+

lemma fetch_append: "fetch m p (j + k) = fetch m p j @ fetch m (p + j) k"
  by (rule nth_equalityI) (auto simp: nth_append)

text \<open>What reading \<open>n\<close> bytes to \<open>p\<close> ends with: an error, or everything up to the end of the file or of the \<open>n\<close> bytes.\<close>

definition file_read :: "u8 list \<Rightarrow> ('f boot \<Rightarrow> nat) \<Rightarrow> nat set \<Rightarrow> u64 \<Rightarrow> u64 \<Rightarrow> 'f boot \<Rightarrow> EFI_STATUS + u64 \<Rightarrow> 'f boot \<Rightarrow> bool" where
  "file_read xs pos A n p s r s' \<longleftrightarrow>
     (case r of Inl status \<Rightarrow> EFI_ERROR status
      | Inr left \<Rightarrow> unat left \<le> unat n \<and> (left = 0 \<or> pos s' = length xs) \<and> pos s' = pos s + (unat n - unat left) \<and>
          pos s' \<le> length xs \<and> fetch (bmem s') (unat p) (unat n - unat left) = take (unat n - unat left) (drop (pos s) xs) \<and>
          (\<forall>a\<in>A. a < unat p \<longrightarrow> bmem s' a = bmem s a))"

lemma file_read_step:
  assumes r: "reads_file st file xs pos A" and R: "Read (file_at st file) file n p s = (status, k, s1)" and ok: "\<not> EFI_ERROR status"
    and A: "{unat p..<unat p + unat n} \<subseteq> A" and pn: "unat p + unat n < 2 ^ 64" and pos: "pos s \<le> length xs"
    and rest: "file_read xs pos A (n - k) (p + k) s1 r' s'"
  shows "file_read xs pos A n p s r' s'"
proof (cases r')
  case (Inl e)
  then show ?thesis using rest by (simp add: file_read_def)
next
  case (Inr l)
  note d = reads_fileD [OF r R ok less_imp_le [OF pn] pos]
  have kn: "unat (n - k) = unat n - unat k" using d(1) by (simp add: unat_diff_le word_le_nat_alt)
  have pk: "unat (p + k) = unat p + unat k" using d(1) pn by (intro unat_add_nowrap) simp
  have l: "unat l \<le> unat n - unat k" "l = 0 \<or> pos s' = length xs" "pos s' = pos s + unat k + (unat n - unat k - unat l)"
    "pos s' \<le> length xs"
    "fetch (bmem s') (unat p + unat k) (unat n - unat k - unat l) = take (unat n - unat k - unat l) (drop (pos s + unat k) xs)"
    "\<And>a. a \<in> A \<Longrightarrow> a < unat p + unat k \<Longrightarrow> bmem s' a = bmem s1 a"
    using rest [unfolded file_read_def Inr sum.case kn pk d(3)] by blast+
  have "fetch (bmem s') (unat p) (unat k) = fetch (bmem s1) (unat p) (unat k)"
    using A d(1) by (intro fetch_cong l(6)) auto
  moreover have "drop (pos s + unat k) xs = drop (unat k) (drop (pos s) xs)" by (simp add: add.commute)
  ultimately have "fetch (bmem s') (unat p) (unat k + (unat n - unat k - unat l)) =
      take (unat k + (unat n - unat k - unat l)) (drop (pos s) xs)"
    by (simp only: fetch_append l(5) d(5) take_add)
  moreover have "unat k + (unat n - unat k - unat l) = unat n - unat l" using l(1) d(1) by linarith
  ultimately show ?thesis using Inr l d(1,6) by (auto simp: file_read_def)
qed

lemma read_file_reads:
  assumes r: "reads_file st file xs pos A" and "{unat p..<unat p + unat n} \<subseteq> A"
    and "unat p + unat n < 2 ^ 64" and "pos s \<le> length xs"
  shows "\<exists>r s'. read_file st file n p s = Some (r, s') \<and> file_read xs pos A n p s r s'"
  using assms(2-4)
proof (induction "unat n" arbitrary: n p s rule: less_induct)
  case less
  obtain status k s1 where R: "Read (file_at st file) file n p s = (status, k, s1)" by (metis prod_cases3)
  have unf: "read_file st file n p s = (if n = 0 then Some (Inr n, s) else if EFI_ERROR status then Some (Inl status, s1)
      else if k = 0 then Some (Inr n, s1) else read_file st file (n - k) (p + k) s1)"
    by (subst read_file.simps) (simp add: R)
  show ?case
  proof (cases "n = 0 \<or> EFI_ERROR status")
    case True
    then show ?thesis using less.prems unfolding unf by (auto simp: file_read_def fetch_def)
  next
    case False
    note d = reads_fileD [OF r R _ less_imp_le [OF less.prems(2)] less.prems(3)]
    show ?thesis
    proof (cases "k = 0")
      case True
      then show ?thesis using False d(3,4,6) unfolding unf by (simp add: file_read_def fetch_def)
    next
      case k: False
      have kn: "unat (n - k) = unat n - unat k" "unat (p + k) = unat p + unat k" "0 < unat k"
        using d(1) False k less.prems(2) by (simp_all add: unat_diff_le word_le_nat_alt unat_add_nowrap unat_gt_0)
      have "{unat (p + k)..<unat (p + k) + unat (n - k)} \<subseteq> A" "unat (p + k) + unat (n - k) < 2 ^ 64" "pos s1 \<le> length xs"
        "unat (n - k) < unat n"
        using less.prems d(1,2,3) False kn(3) by (auto simp: kn(1,2))
      then obtain r' s' where "read_file st file (n - k) (p + k) s1 = Some (r', s')" "file_read xs pos A (n - k) (p + k) s1 r' s'"
        using less.hyps by blast
      then show ?thesis using file_read_step [OF r R _ less.prems] False k unfolding unf by auto
    qed
  qed
qed

text \<open>
  Loading: when the file opens with position 0, tells its size and gets its pages at the load address,
  \<open>load_kernel\<close> returns; it succeeds only if the memory at the load address holds the file.
\<close>

lemma load_kernel_reads:
  assumes "Open (file_at st root) root 0 KERNEL_RELATIVE_PATH EFI_FILE_MODE_READ 0 s = (EFI_SUCCESS, f, s1)"
    and "get_file_size st f 0 s1 = (EFI_SUCCESS, n, s2)"
    and "AllocatePages (BootServices st) AllocateAddress EfiLoaderData ((n + 4095) div 4096) 0x80000 s2 = (EFI_SUCCESS, 0x80000, s3)"
    and n: "unat n < 2 ^ 64 - 0x80000" and r: "reads_file st f xs pos {0x80000..<0x80000 + unat n}" and "pos s3 = 0"
    and close: "\<And>t a. 0x80000 \<le> a \<Longrightarrow> a < 0x80000 + unat n \<Longrightarrow> bmem (snd (Close (file_at st f) f t)) a = bmem t a"
  shows "\<exists>status img' s'. load_kernel st root img s = Some (status, img', s') \<and>
    (EFI_ERROR status \<and> img' = img \<or>
     status = EFI_SUCCESS \<and> img' = \<lparr>kernel_location = 0x80000, kernel_pages = (n + 4095) div 4096, kernel_file_size = n\<rparr> \<and>
     unat n \<le> length xs \<and> fetch (bmem s') 0x80000 (unat n) = take (unat n) xs)"
proof -
  have "{unat (0x80000 :: u64)..<unat (0x80000 :: u64) + unat n} \<subseteq> {0x80000..<0x80000 + unat n}"
    "unat (0x80000 :: u64) + unat n < 2 ^ 64" "pos s3 \<le> length xs" using n assms(6) by simp_all
  then obtain r' s' where rd: "read_file st f n 0x80000 s3 = Some (r', s')"
    and c: "file_read xs pos {0x80000..<0x80000 + unat n} n 0x80000 s3 r' s'"
    using read_file_reads [OF r] by blast
  have ok: "\<not> EFI_ERROR EFI_SUCCESS" "EFI_ERROR EFI_LOAD_ERROR" by (simp_all add: EFI_ERROR_def EFI_SUCCESS_def EFI_LOAD_ERROR_def)
  let ?img = "\<lparr>kernel_location = 0x80000, kernel_pages = (n + 4095) div 4096, kernel_file_size = n\<rparr>"
  let ?c = "snd (Close (file_at st f) f s')"
  have ps: "(n + PAGE_SIZE - 1) div PAGE_SIZE = (n + 4095) div 4096"
    unfolding PAGE_SIZE_def by (simp add: add.commute)
  have unf: "load_kernel st root img s = (case r' of Inl status \<Rightarrow> Some (status, img, ?c)
      | Inr l \<Rightarrow> if l \<noteq> 0 then Some (EFI_LOAD_ERROR, img, ?c) else Some (EFI_SUCCESS, ?img, ?c))"
    unfolding load_kernel_def Let_def
    by (simp add: assms(1,2,3) ps KERNEL_LOAD_ADDRESS_def rd ok split: sum.split)
  show ?thesis
  proof (cases r')
    case (Inl e)
    then show ?thesis using unf c by (simp add: file_read_def)
  next
    case (Inr l)
    show ?thesis
    proof (cases "l = 0")
      case True
      have "fetch (bmem ?c) 0x80000 (unat n) = fetch (bmem s') 0x80000 (unat n)" by (rule fetch_cong) (simp add: close)
      then show ?thesis using unf c Inr True assms(6) by (simp add: file_read_def)
    next
      case False
      then show ?thesis using unf Inr ok by simp
    qed
  qed
qed

section \<open>Leaving the boot services\<close>

text \<open>
  What the UEFI specification says of the services used here.  \<open>need\<close> is the size of the memory map and
  \<open>key\<close> its key: \<open>GetMemoryMap\<close> tells the size when the buffer is too small and the key otherwise;
  allocating from the pool adds at most two descriptors to the map and freeing adds none;
  \<open>ExitBootServices\<close> succeeds, or refuses an outdated key, which it does at most \<open>tries\<close> times.
\<close>

definition boot_services_leave ::
    "'f EFI_BOOT_SERVICES \<Rightarrow> ('f boot \<Rightarrow> nat) \<Rightarrow> ('f boot \<Rightarrow> u64) \<Rightarrow> u64 \<Rightarrow> ('f boot \<Rightarrow> nat) \<Rightarrow> bool" where
  "boot_services_leave bs need key dsize tries \<longleftrightarrow>
     (\<forall>s. need s + 2 * unat dsize < 2 ^ 64) \<and>
     (\<forall>n mm k d v s status n' k' d' v' s'. GetMemoryMap bs n mm k d v s = (status, n', k', d', v', s') \<longrightarrow>
        status = (if unat n < need s then EFI_BUFFER_TOO_SMALL else EFI_SUCCESS) \<and> unat n' = need s \<and> d' = dsize \<and>
        (need s \<le> unat n \<longrightarrow> k' = key s') \<and> need s' = need s \<and> tries s' = tries s) \<and>
     (\<forall>ty n p s status q s'. AllocatePool bs ty n p s = (status, q, s') \<longrightarrow>
        \<not> EFI_ERROR status \<and> need s' \<le> need s + 2 * unat dsize \<and> tries s' = tries s) \<and>
     (\<forall>p s. need (snd (FreePool bs p s)) \<le> need s \<and> tries (snd (FreePool bs p s)) = tries s) \<and>
     (\<forall>h k s status s'. ExitBootServices bs h k s = (status, s') \<longrightarrow>
        \<not> EFI_ERROR status \<or> status = EFI_INVALID_PARAMETER \<and> tries s' < tries s)"

lemma boot_services_leaveD:
  assumes "boot_services_leave bs need key dsize tries"
  shows "need s + 2 * unat dsize < 2 ^ 64"
    "GetMemoryMap bs n mm k d v s = (status, n', k', d', v', s') \<Longrightarrow>
       status = (if unat n < need s then EFI_BUFFER_TOO_SMALL else EFI_SUCCESS) \<and> unat n' = need s \<and> d' = dsize \<and>
       (need s \<le> unat n \<longrightarrow> k' = key s') \<and> need s' = need s \<and> tries s' = tries s"
    "AllocatePool bs ty n p s = (status, q, s') \<Longrightarrow>
       \<not> EFI_ERROR status \<and> need s' \<le> need s + 2 * unat dsize \<and> tries s' = tries s"
    "need (snd (FreePool bs p s)) \<le> need s \<and> tries (snd (FreePool bs p s)) = tries s"
    "ExitBootServices bs h k s = (status, s') \<Longrightarrow> \<not> EFI_ERROR status \<or> status = EFI_INVALID_PARAMETER \<and> tries s' < tries s"
proof -
  note c = assms [unfolded boot_services_leave_def]
  note d = conjunct2 [OF c]
  show "need s + 2 * unat dsize < 2 ^ 64" by (rule conjunct1 [OF c, THEN spec])
  show "GetMemoryMap bs n mm k d v s = (status, n', k', d', v', s') \<Longrightarrow>
       status = (if unat n < need s then EFI_BUFFER_TOO_SMALL else EFI_SUCCESS) \<and> unat n' = need s \<and> d' = dsize \<and>
       (need s \<le> unat n \<longrightarrow> k' = key s') \<and> need s' = need s \<and> tries s' = tries s"
    by (rule conjunct1 [OF d, rule_format])
  show "AllocatePool bs ty n p s = (status, q, s') \<Longrightarrow>
       \<not> EFI_ERROR status \<and> need s' \<le> need s + 2 * unat dsize \<and> tries s' = tries s"
    by (rule conjunct1 [OF conjunct2 [OF d], rule_format])
  show "need (snd (FreePool bs p s)) \<le> need s \<and> tries (snd (FreePool bs p s)) = tries s"
    by (rule conjunct1 [OF conjunct2 [OF conjunct2 [OF d]], rule_format])
  show "ExitBootServices bs h k s = (status, s') \<Longrightarrow> \<not> EFI_ERROR status \<or> status = EFI_INVALID_PARAMETER \<and> tries s' < tries s"
    by (rule conjunct2 [OF conjunct2 [OF conjunct2 [OF d]], rule_format])
qed

lemma exit_loop_grows:
  assumes c: "boot_services_leave bs need key dsize tries" and small: "unat n < need s"
  shows "\<exists>n' q k' d' v' t. exit_loop bs h n mm k d v s = exit_loop bs h n' q k' d' v' t \<and> need t \<le> unat n' \<and> tries t = tries s"
proof -
  obtain status n' k' d' v' t1 where g: "GetMemoryMap bs n mm k d v s = (status, n', k', d', v', t1)" by (metis prod_cases6)
  have g': "status = EFI_BUFFER_TOO_SMALL" "unat n' = need s" "d' = dsize" "need t1 = need s" "tries t1 = tries s"
    using boot_services_leaveD(2) [OF c g] small by simp_all
  define t2 where "t2 = (if mm \<noteq> 0 then snd (FreePool bs mm t1) else t1)"
  have t2: "need t2 \<le> need s" "tries t2 = tries s" using boot_services_leaveD(4) [OF c, of mm t1] g' by (simp_all add: t2_def)
  let ?n = "n' + d' * 2"
  obtain st q t3 where a: "AllocatePool bs EfiLoaderData ?n mm t2 = (st, q, t3)" by (metis prod_cases3)
  have a': "\<not> EFI_ERROR st" "need t3 \<le> need t2 + 2 * unat dsize" "tries t3 = tries t2"
    using boot_services_leaveD(3) [OF c a] by simp_all
  note b = boot_services_leaveD(1) [OF c, of s]
  have "unat (dsize * 2) = 2 * unat dsize" using b unat_mult_nowrap [of dsize 2] by simp
  then have "unat ?n = need s + 2 * unat dsize" using b g'(2,3) by (subst unat_add_nowrap) simp_all
  then have "need t3 \<le> unat ?n" "tries t3 = tries s" using a' t2 by simp_all
  moreover have "exit_loop bs h n mm k d v s = exit_loop bs h ?n q k' d' v' t3"
    by (subst exit_loop.simps) (simp add: g g'(1) a [unfolded t2_def] a'(1))
  ultimately show ?thesis by blast
qed

lemma exit_loop_leaves:
  assumes c: "boot_services_leave bs need key dsize tries"
  shows "\<exists>s1 s'. exit_loop bs h n mm k d v s = Some (EFI_SUCCESS, s') \<and>
    (\<exists>status. ExitBootServices bs h (key s1) s1 = (status, s') \<and> \<not> EFI_ERROR status)"
proof (induction "tries s" arbitrary: n mm k d v s rule: less_induct)
  case less
  have err: "EFI_SUCCESS \<noteq> EFI_BUFFER_TOO_SMALL" "\<not> EFI_ERROR EFI_SUCCESS" "EFI_ERROR EFI_INVALID_PARAMETER"
    by (simp_all add: EFI_ERROR_def EFI_SUCCESS_def EFI_BUFFER_TOO_SMALL_def EFI_INVALID_PARAMETER_def)
  have fits: "\<exists>s1 s'. exit_loop bs h n mm k d v t = Some (EFI_SUCCESS, s') \<and>
      (\<exists>status. ExitBootServices bs h (key s1) s1 = (status, s') \<and> \<not> EFI_ERROR status)"
    if t: "tries t = tries s" "need t \<le> unat n" for n mm k d v t
  proof -
    obtain status n' k' d' v' t1 where g: "GetMemoryMap bs n mm k d v t = (status, n', k', d', v', t1)" by (metis prod_cases6)
    have g': "status = EFI_SUCCESS" "k' = key t1" "tries t1 = tries s" using boot_services_leaveD(2) [OF c g] t by simp_all
    obtain st s' where e: "ExitBootServices bs h k' t1 = (st, s')" by (metis surj_pair)
    have unf: "exit_loop bs h n mm k d v t = (if EFI_ERROR st
        then if st = EFI_INVALID_PARAMETER then exit_loop bs h n' mm k' d' v' s'
             else Some (st, if mm \<noteq> 0 then snd (FreePool bs mm s') else s') else Some (EFI_SUCCESS, s'))"
      by (subst exit_loop.simps) (simp add: g g'(1) err e)
    show ?thesis
    proof (cases "EFI_ERROR st")
      case True
      then have "st = EFI_INVALID_PARAMETER" "tries s' < tries s" using boot_services_leaveD(5) [OF c e] g' by simp_all
      then show ?thesis using less [of s' n' mm k' d' v'] unf True by simp
    next
      case False
      then show ?thesis using unf e g'(2) by auto
    qed
  qed
  show ?case
  proof (cases "need s \<le> unat n")
    case True
    then show ?thesis using fits by blast
  next
    case False
    then obtain n' q k' d' v' t where "exit_loop bs h n mm k d v s = exit_loop bs h n' q k' d' v' t" "need t \<le> unat n'" "tries t = tries s"
      using exit_loop_grows [OF c, of n s] by (metis not_le)
    then show ?thesis using fits by metis
  qed
qed

section \<open>Handing over\<close>

text \<open>
  The memory the kernel is loaded to belongs to the loader: the services it calls after loading leave
  \<open>A\<close> alone, \<open>SetMem\<close> writes only what it is told to, and pages allocated anywhere lie outside \<open>A\<close>.
\<close>

definition same_on :: "nat set \<Rightarrow> 'f boot \<Rightarrow> 'f boot \<Rightarrow> bool" where
  "same_on A s s' \<longleftrightarrow> (\<forall>a\<in>A. bmem s' a = bmem s a)"

definition pages_outside :: "'f EFI_BOOT_SERVICES \<Rightarrow> nat set \<Rightarrow> bool" where
  "pages_outside bs A \<longleftrightarrow>
     (\<forall>mt n p s status q s'. AllocatePages bs AllocateAnyPages mt n p s = (status, q, s') \<longrightarrow> \<not> EFI_ERROR status \<longrightarrow>
        unat q + unat n * 4096 < 2 ^ 64 \<and> (\<forall>a\<in>A. a < unat q \<or> unat q + unat n * 4096 \<le> a))"

definition protects :: "'f EFI_SYSTEM_TABLE \<Rightarrow> nat set \<Rightarrow> bool" where
  "protects st A \<longleftrightarrow>
     (\<forall>c out t s. ConOut st = Some c \<longrightarrow> OutputString c = Some out \<longrightarrow> same_on A s (snd (out t s))) \<and>
     (\<forall>ty mt n p s. same_on A s (snd (snd (AllocatePages (BootServices st) ty mt n p s)))) \<and>
     pages_outside (BootServices st) A \<and>
     (\<forall>n mm k d v s. same_on A s (snd (snd (snd (snd (snd (GetMemoryMap (BootServices st) n mm k d v s))))))) \<and>
     (\<forall>ty n p s. same_on A s (snd (snd (AllocatePool (BootServices st) ty n p s)))) \<and>
     (\<forall>p s. same_on A s (snd (FreePool (BootServices st) p s))) \<and>
     (\<forall>h k s. same_on A s (snd (ExitBootServices (BootServices st) h k s))) \<and>
     (\<forall>p n v s a. a \<in> A \<longrightarrow> a < unat p \<or> unat p + unat n \<le> a \<longrightarrow> bmem (SetMem (BootServices st) p n v s) a = bmem s a)"

lemma same_on_refl [simp]: "same_on A s s"
  by (simp add: same_on_def)

lemma same_on_trans: "same_on A s t \<Longrightarrow> same_on A t u \<Longrightarrow> same_on A s u"
  by (simp add: same_on_def)

lemma protects_print: "protects st A \<Longrightarrow> same_on A s (print st t s)"
  by (simp add: protects_def print_def split: option.split)

lemma protects_services:
  assumes "protects st A"
  shows "AllocatePages (BootServices st) ty mt n p s = (status, q, s') \<Longrightarrow> same_on A s s'"
    "GetMemoryMap (BootServices st) n mm k d v s = (status, n', k', d', v', s') \<Longrightarrow> same_on A s s'"
    "AllocatePool (BootServices st) pt n p s = (status, q, s') \<Longrightarrow> same_on A s s'"
    "same_on A s (snd (FreePool (BootServices st) p s))"
    "ExitBootServices (BootServices st) h k s = (status, s') \<Longrightarrow> same_on A s s'"
  using assms unfolding protects_def by (metis snd_conv)+

lemma protects_set:
  "protects st A \<Longrightarrow> a \<in> A \<Longrightarrow> a < unat p \<or> unat p + unat n \<le> a \<Longrightarrow> bmem (SetMem (BootServices st) p n v s) a = bmem s a"
  by (auto simp: protects_def)

lemma protects_stack:
  assumes "protects st A" "AllocatePages (BootServices st) AllocateAnyPages mt 16 p s = (status, q, s')" "\<not> EFI_ERROR status"
  shows "unat q + 65536 < 2 ^ 64" "\<forall>a\<in>A. a < unat q \<or> unat q + 65536 \<le> a"
    "same_on A t (SetMem (BootServices st) q (16 * 4096) v t)"
proof -
  have q: "unat q + unat (16 :: u64) * 4096 < 2 ^ 64 \<and> (\<forall>a\<in>A. a < unat q \<or> unat q + unat (16 :: u64) * 4096 \<le> a)"
    using conjunct1 [OF conjunct2 [OF conjunct2 [OF assms(1) [unfolded protects_def]]], unfolded pages_outside_def, rule_format, OF assms(2,3)]
    by blast
  then show "unat q + 65536 < 2 ^ 64" "\<forall>a\<in>A. a < unat q \<or> unat q + 65536 \<le> a" by simp_all
  have "\<forall>a\<in>A. a < unat q \<or> unat q + unat (16 * 4096 :: u64) \<le> a" using q by simp
  then show "same_on A t (SetMem (BootServices st) q (16 * 4096) v t)"
    using protects_set [OF assms(1)] by (simp add: same_on_def)
qed

lemma protects_exit:
  assumes p: "protects st A" and e: "exit_loop (BootServices st) h n mm k d v s = Some r"
  shows "same_on A s (snd r)"
proof -
  have "BootServices st = BootServices st \<longrightarrow> same_on A s (snd r)"
  proof (rule exit_loop.raw_induct [where P = "\<lambda>bs h n mm k d v s r. bs = BootServices st \<longrightarrow> same_on A s (snd r)", OF _ e], intro impI)
    fix loop bs h n mm k d v and s :: "'a boot" and r
    assume IH: "\<And>bs h n mm k d v s r. loop bs h n mm k d v s = Some r \<Longrightarrow> bs = BootServices st \<longrightarrow> same_on A s (snd r)"
      and eq: "(let release = (\<lambda>s. if mm \<noteq> 0 then snd (FreePool bs mm s) else s) in
        case GetMemoryMap bs n mm k d v s of (status, n, k, d, v, s) \<Rightarrow>
          if status = EFI_BUFFER_TOO_SMALL
          then let n = n + d * 2 in case AllocatePool bs EfiLoaderData n mm (release s) of (status, mm, s) \<Rightarrow>
            if EFI_ERROR status then Some (status, s) else loop bs h n mm k d v s
          else if EFI_ERROR status then Some (status, release s)
          else case ExitBootServices bs h k s of (status, s) \<Rightarrow>
            if EFI_ERROR status then if status = EFI_INVALID_PARAMETER then loop bs h n mm k d v s else Some (status, release s)
            else Some (EFI_SUCCESS, s)) = Some r"
      and bs: "bs = BootServices st"
    obtain status n' k' d' v' s1 where g: "GetMemoryMap bs n mm k d v s = (status, n', k', d', v', s1)" by (metis prod_cases6)
    obtain st2 s2 where x: "ExitBootServices bs h k' s1 = (st2, s2)" by (metis surj_pair)
    let ?rel = "\<lambda>s. if mm \<noteq> 0 then snd (FreePool bs mm s) else s"
    obtain st3 q s3 where a: "AllocatePool bs EfiLoaderData (n' + d' * 2) mm (?rel s1) = (st3, q, s3)" by (metis prod_cases3)
    have rel: "same_on A t (?rel t)" for t using protects_services(4) [OF p] by (simp add: bs)
    have s1: "same_on A s s1" by (rule protects_services(2) [OF p g [unfolded bs]])
    have s2: "same_on A s s2" by (rule same_on_trans [OF s1 protects_services(5) [OF p x [unfolded bs]]])
    have s3: "same_on A s s3"
      by (rule same_on_trans [OF same_on_trans [OF s1 rel [unfolded bs]] protects_services(3) [OF p a [unfolded bs]]])
    have s4: "same_on A s (?rel s1)" "same_on A s (?rel s2)" by (rule same_on_trans [OF s1 rel], rule same_on_trans [OF s2 rel])
    have "loop bs h (n' + d' * 2) q k' d' v' s3 = Some r \<Longrightarrow> same_on A s (snd r)"
      "loop bs h n' mm k' d' v' s2 = Some r \<Longrightarrow> same_on A s (snd r)"
      using IH bs same_on_trans [OF s3] same_on_trans [OF s2] by blast+
    then show "same_on A s (snd r)" using eq s2 s3 s4 unfolding Let_def g x a prod.case by (auto split: if_splits)
  qed
  then show ?thesis by simp
qed

lemma bootinfo_offsets:
  assumes "unat (b :: u64) + 56 < 2 ^ 64"
  shows "unat (b + 8) = unat b + 8" "unat (b + 16) = unat b + 16" "unat (b + 24) = unat b + 24" "unat (b + 32) = unat b + 32"
    "unat (b + 40) = unat b + 40" "unat (b + 44) = unat b + 44" "unat (b + 48) = unat b + 48" "unat (b + 52) = unat b + 52"
  using assms by (simp_all add: unat_add_nowrap)

lemma bootinfo_cong:
  assumes "\<And>a. unat b \<le> a \<Longrightarrow> a < unat b + 56 \<Longrightarrow> m a = m' a" and "unat b + 56 < 2 ^ 64"
  shows "bootinfo_at m b = bootinfo_at m' b"
proof -
  note u = bootinfo_offsets [OF assms(2)]
  show ?thesis
    unfolding bootinfo_at_def by (intro bootinfo.equality; simp; intro read_cong assms(1)) (simp_all add: u)
qed

lemma fill_bootinfo_fields:
  assumes "unat b + 56 < 2 ^ 64"
  shows "bootinfo_at (fill_bootinfo gs g b m) b = (bootinfo_at m b)\<lparr>
     flags := (if EFI_ERROR gs then flags (bootinfo_at m b) OR 1 else (flags (bootinfo_at m b) OR 1) OR 2),
     fb_base := (if EFI_ERROR gs then 0 else framebuffer_base g), fb_size := (if EFI_ERROR gs then 0 else framebuffer_size g),
     fb_width := (if EFI_ERROR gs then 0 else width g), fb_height := (if EFI_ERROR gs then 0 else height g),
     fb_stride := (if EFI_ERROR gs then 0 else pixels_per_scanline g), fb_bpp := (if EFI_ERROR gs then 0 else 32)\<rparr>"
proof -
  note u = bootinfo_offsets [OF assms]
  show ?thesis
    unfolding bootinfo_at_def fill_bootinfo_def Let_def
    by (cases "EFI_ERROR gs") (simp_all add: read_write_other u KERNEL_BOOTINFO_FLAG_UEFI_def KERNEL_BOOTINFO_FLAG_FRAMEBUFFER_def)
qed

lemma gop_result: "\<exists>gs g s0. locate_gop st (Some out) s = (gs, Some g, s0)"
  unfolding locate_gop_def Let_def by (simp split: prod.split)

lemma enter_loaded_kernel_cases:
  assumes "enter_loaded_kernel st h gs g img s = Some (Enter_kernel entry stk b, s')"
  shows "\<exists>status q s1 s2. read64 (bmem s) b = KERNEL_BOOTINFO_MAGIC \<and>
    AllocatePages (BootServices st) AllocateAnyPages EfiLoaderData 16 0 (s\<lparr>bmem := fill_bootinfo gs g b (bmem s)\<rparr>) = (status, q, s1) \<and>
    \<not> EFI_ERROR status \<and> stk = q + 65536 \<and>
    exit_loop (BootServices st) h 0 0 0 0 0
      (print st (wlit ''Exiting boot services'' @ [13, 10]) (SetMem (BootServices st) q (16 * 4096) 0 s1)) = Some (s2, s') \<and>
    entry = read64 (bmem s') (b + 8)"
  using assms
  by (auto simp: enter_loaded_kernel_def exit_boot_services_def Let_def KERNEL_STACK_PAGES_def PAGE_SIZE_def
      split: if_splits prod.splits bind_splits)

lemma efi_main_cases:
  assumes "efi_main st h s = Some (Enter_kernel entry stk b, s')"
  shows "\<exists>gs g s0 img s1. locate_gop st (Some no_gop) (print st (wlit ''CasseOS UEFI loader starting...'' @ [13, 10]) s) = (gs, Some g, s0) \<and>
    enter_loaded_kernel st h gs g img s1 = Some (Enter_kernel entry stk b, s')"
proof -
  obtain gs g s0 where g: "locate_gop st (Some no_gop) (print st (wlit ''CasseOS UEFI loader starting...'' @ [13, 10]) s) = (gs, Some g, s0)"
    using gop_result by blast
  then have "\<exists>img s1. enter_loaded_kernel st h gs g img s1 = Some (Enter_kernel entry stk b, s')"
    using assms by (auto simp: efi_main_def Let_def split: if_splits prod.splits bind_splits sum.splits)
  with g show ?thesis by blast
qed

lemma handoff_bootinfo:
  assumes e: "enter_loaded_kernel st h gs g img s = Some (Enter_kernel entry stk b, s')" and p: "protects st A"
    and A: "{unat b..<unat b + 56} \<subseteq> A" and b: "unat b + 56 < 2 ^ 64"
  shows "bootinfo_at (bmem s') b = bootinfo_at (fill_bootinfo gs g b (bmem s)) b" "magic (bootinfo_at (bmem s) b) = KERNEL_BOOTINFO_MAGIC"
    "entry = uefi_entry (bootinfo_at (bmem s') b)" "\<forall>a\<in>A. a < unat stk - 65536 \<or> unat stk \<le> a" "65536 \<le> unat stk"
proof -
  obtain status q s1 s2 where m: "read64 (bmem s) b = KERNEL_BOOTINFO_MAGIC"
    and a: "AllocatePages (BootServices st) AllocateAnyPages EfiLoaderData 16 0 (s\<lparr>bmem := fill_bootinfo gs g b (bmem s)\<rparr>) = (status, q, s1)"
    and ok: "\<not> EFI_ERROR status" and stk: "stk = q + 65536"
    and x: "exit_loop (BootServices st) h 0 0 0 0 0
      (print st (wlit ''Exiting boot services'' @ [13, 10]) (SetMem (BootServices st) q (16 * 4096) 0 s1)) = Some (s2, s')"
    and entry: "entry = read64 (bmem s') (b + 8)"
    using enter_loaded_kernel_cases [OF e] by blast
  note q = protects_stack [OF p a ok]
  have "same_on A (s\<lparr>bmem := fill_bootinfo gs g b (bmem s)\<rparr>) s'"
    using same_on_trans [OF protects_services(1) [OF p a] same_on_trans [OF q(3) [of s1 0] same_on_trans [OF protects_print [OF p] protects_exit [OF p x]]]]
    by simp
  then show "bootinfo_at (bmem s') b = bootinfo_at (fill_bootinfo gs g b (bmem s)) b"
    using A b by (intro bootinfo_cong) (auto simp: same_on_def subset_iff)
  show "magic (bootinfo_at (bmem s) b) = KERNEL_BOOTINFO_MAGIC" "entry = uefi_entry (bootinfo_at (bmem s') b)"
    using m entry by (simp_all add: bootinfo_at_def)
  have "unat stk = unat q + 65536" using q(1) unat_add_nowrap [of q 65536] by (simp add: stk)
  then show "\<forall>a\<in>A. a < unat stk - 65536 \<or> unat stk \<le> a" "65536 \<le> unat stk" using q(2) by simp_all
qed

lemma handoff_header:
  assumes "efi_main st h s = Some (Enter_kernel entry stack_top info, s')" and "protects st A"
    and "{unat info..<unat info + 56} \<subseteq> A" and "unat info + 56 < 2 ^ 64"
  shows "\<exists>gop_status g s0. locate_gop st (Some no_gop) (print st (wlit ''CasseOS UEFI loader starting...'' @ [13, 10]) s) =
      (gop_status, Some g, s0) \<and>
    (let b = bootinfo_at (bmem s') info; found = \<not> EFI_ERROR gop_status in
     magic b = KERNEL_BOOTINFO_MAGIC \<and> uefi_entry b = entry \<and> bit (flags b) 0 \<and> (found \<longrightarrow> bit (flags b) 1) \<and>
     fb_base b = (if found then framebuffer_base g else 0) \<and> fb_size b = (if found then framebuffer_size g else 0) \<and>
     fb_width b = (if found then width g else 0) \<and> fb_height b = (if found then height g else 0) \<and>
     fb_stride b = (if found then pixels_per_scanline g else 0) \<and> fb_bpp b = (if found then 32 else 0) \<and>
     (\<forall>d. fst (framebuffer_console_init (Some b) d) \<longleftrightarrow>
        found \<and> framebuffer_base g \<noteq> 0 \<and> width g \<noteq> 0 \<and> height g \<noteq> 0 \<and> pixels_per_scanline g \<noteq> 0)) \<and>
    65536 \<le> unat stack_top \<and> (\<forall>a\<in>A. a < unat stack_top - 65536 \<or> unat stack_top \<le> a)"
proof -
  obtain gs g s0 img s1 where
    g: "locate_gop st (Some no_gop) (print st (wlit ''CasseOS UEFI loader starting...'' @ [13, 10]) s) = (gs, Some g, s0)"
    and e: "enter_loaded_kernel st h gs g img s1 = Some (Enter_kernel entry stack_top info, s')"
    using efi_main_cases [OF assms(1)] by blast
  note i = handoff_bootinfo [OF e assms(2-4)]
  note b = i(1) [unfolded fill_bootinfo_fields [OF assms(4)]]
  have "bit (fl OR 1) 0" "bit ((fl OR 1) OR 2) 0" "bit ((fl OR 1) OR 2) 1" "((fl OR 1) OR 2) AND 2 \<noteq> 0" for fl :: u64
    using and_power_eq_0_iff [of "(fl OR 1) OR 2" 1] bit_2_iff [of 1, where ?'a = u64] by (auto simp: bit_simps)
  then show ?thesis
    using g i(2,4,5) unfolding i(3) b
    by (cases "EFI_ERROR gs") (simp_all add: framebuffer_console_init_def Let_def KERNEL_BOOTINFO_FLAG_FRAMEBUFFER_def)
qed

section \<open>An example machine\<close>

text \<open>One volume with a kernel that is only a header, one display, and a memory map of one descriptor.\<close>

definition demo_file :: "u8 list" where
  "demo_file = le_bytes 8 KERNEL_BOOTINFO_MAGIC @ le_bytes 8 (0x80100 :: u64) @ replicate 40 0"

definition demo_services :: "nat EFI_BOOT_SERVICES" where
  "demo_services =
     \<lparr>AllocatePages = (\<lambda>ty mt n p s. if ty = AllocateAddress then (EFI_SUCCESS, p, s)
        else if n = 16 then (EFI_SUCCESS, 0x100000, s) else (EFI_LOAD_ERROR, p, s)),
      GetMemoryMap = (\<lambda>n mm k d v s. if unat n < 48 then (EFI_BUFFER_TOO_SMALL, 48, k, 48, 1, s) else (EFI_SUCCESS, 48, 7, 48, 1, s)),
      AllocatePool = (\<lambda>ty n p s. (EFI_SUCCESS, 0x200000, s)),
      FreePool = (\<lambda>p s. (EFI_SUCCESS, s)),
      HandleProtocol = (\<lambda>h g p s. (EFI_SUCCESS, 0x300000, s)),
      ExitBootServices = (\<lambda>h k s. (if firmware s < 100 then EFI_INVALID_PARAMETER else EFI_SUCCESS, s\<lparr>firmware := 100\<rparr>)),
      LocateHandleBuffer = (\<lambda>ty g n p s. (EFI_SUCCESS, 1, 0x400000, s)),
      LocateProtocol = (\<lambda>g p s. (EFI_SUCCESS, 0x500000, s)),
      SetMem = (\<lambda>p n v s. s\<lparr>bmem := store (bmem s) (unat p) (replicate (unat n) v)\<rparr>)\<rparr>"

definition demo_file_protocol :: "nat EFI_FILE_PROTOCOL" where
  "demo_file_protocol =
     \<lparr>Open = (\<lambda>f p name mode attr s. (EFI_SUCCESS, 0x600000, s\<lparr>firmware := 0\<rparr>)),
      Close = (\<lambda>f s. (EFI_SUCCESS, s)),
      Read = (\<lambda>f n p s. let k = min (unat n) (56 - firmware s) in
        (EFI_SUCCESS, of_nat k, s\<lparr>bmem := store (bmem s) (unat p) (take k (drop (firmware s) demo_file)), firmware := firmware s + k\<rparr>)),
      GetInfo = (\<lambda>f g n p s. if unat n < 80 then (EFI_BUFFER_TOO_SMALL, 80, s)
        else (EFI_SUCCESS, 80, s\<lparr>bmem := write64 (p + 8) 56 (bmem s)\<rparr>))\<rparr>"

definition demo_table :: "nat EFI_SYSTEM_TABLE" where
  "demo_table =
     \<lparr>ConOut = None, BootServices = demo_services, file_at = (\<lambda>_. demo_file_protocol),
      fs_at = (\<lambda>_. \<lparr>OpenVolume = (\<lambda>f p s. (EFI_SUCCESS, 0x700000, s))\<rparr>),
      gop_at = (\<lambda>_. \<lparr>QueryMode = (\<lambda>g mode n p s. (EFI_SUCCESS, 36, 0x800000,
        s\<lparr>bmem := write32 0x800004 1024 (write32 0x800008 768 (write32 0x800020 1024 (bmem s)))\<rparr>))\<rparr>)\<rparr>"

definition demo_boot :: "nat boot" where
  "demo_boot = \<lparr>bmem = write64 0x500018 0x900000 (write64 0x900018 0xC0000000 (write64 0x900020 0x300000 (\<lambda>_. 0))), firmware = 0\<rparr>"

lemmas demo_machine = demo_table_def demo_services_def demo_file_protocol_def

lemma EFI_codes [simp]: "\<not> EFI_ERROR EFI_SUCCESS" "EFI_ERROR EFI_LOAD_ERROR" "EFI_ERROR EFI_INVALID_PARAMETER"
  "EFI_SUCCESS \<noteq> EFI_BUFFER_TOO_SMALL" "EFI_BUFFER_TOO_SMALL \<noteq> EFI_SUCCESS"
  by (simp_all add: EFI_ERROR_def EFI_SUCCESS_def EFI_LOAD_ERROR_def EFI_INVALID_PARAMETER_def EFI_BUFFER_TOO_SMALL_def)

lemma demo_reads: "reads_file demo_table f demo_file firmware A"
proof -
  have l: "length demo_file = 56" by (simp add: demo_file_def)
  show ?thesis
    unfolding reads_file_def
  proof (intro allI impI)
    fix n p k :: u64 and s s' :: "nat boot" and status
    assume R: "Read (file_at demo_table f) f n p s = (status, k, s')" and pos: "firmware s \<le> length demo_file"
    define K where "K = min (unat n) (56 - firmware s)"
    have "K < 2 ^ 64" by (rule le_less_trans [of _ 56]) (simp_all add: K_def)
    then have k: "unat k = K" and s': "s' = s\<lparr>bmem := store (bmem s) (unat p) (take K (drop (firmware s) demo_file)), firmware := firmware s + K\<rparr>"
      using R by (auto simp: demo_machine Let_def K_def [symmetric] unat_of_nat)
    have K: "length (take K (drop (firmware s) demo_file)) = K" by (simp add: l K_def)
    have "fetch (bmem s') (unat p) (unat k) = take (unat k) (drop (firmware s) demo_file)"
      using fetch_store_same [of "bmem s" "unat p" "take K (drop (firmware s) demo_file)"] unfolding K by (simp add: s' k)
    moreover have "\<forall>a\<in>A. a < unat p \<or> unat p + unat k \<le> a \<longrightarrow> bmem s' a = bmem s a"
      using store_outside [of _ "unat p" "take K (drop (firmware s) demo_file)"] unfolding K by (simp add: s' k)
    moreover have "k = 0 \<Longrightarrow> n = 0 \<or> firmware s = length demo_file"
      using k pos l by (auto simp: K_def min_def unat_eq_zero split: if_splits)
    ultimately show "unat k \<le> unat n \<and> unat k \<le> length demo_file - firmware s \<and> firmware s' = firmware s + unat k \<and>
        (k = 0 \<longrightarrow> n = 0 \<or> firmware s = length demo_file) \<and>
        fetch (bmem s') (unat p) (unat k) = take (unat k) (drop (firmware s) demo_file) \<and>
        (\<forall>a\<in>A. a < unat p \<or> unat p + unat k \<le> a \<longrightarrow> bmem s' a = bmem s a)"
      using k s' l by (simp add: K_def)
  qed
qed

lemma demo_leave: "boot_services_leave demo_services (\<lambda>_. 48) (\<lambda>_. 7) 48 (\<lambda>s. 100 - firmware s)"
  by (simp add: boot_services_leave_def demo_services_def split: if_splits)

lemma demo_protects: "protects demo_table {0x80000..<0x80038}"
proof -
  have "pages_outside demo_services {0x80000..<0x80038}"
    unfolding pages_outside_def by (auto simp: demo_services_def split: if_splits)
  then show ?thesis
    unfolding protects_def by (auto simp: demo_table_def demo_services_def same_on_def store_outside)
qed

lemma demo_file_size: "get_file_size demo_table f 0 s = (EFI_SUCCESS, 56, s\<lparr>bmem := write64 0x200008 56 (bmem s)\<rparr>)"
  by (simp add: get_file_size_def demo_machine Let_def)

lemma demo_read_file:
  assumes "firmware s = 0"
  shows "read_file demo_table f 56 0x80000 s = Some (Inr 0, s\<lparr>bmem := store (bmem s) 0x80000 demo_file, firmware := 56\<rparr>)"
proof -
  have "take 56 demo_file = demo_file" by (simp add: demo_file_def)
  then have "Read (file_at demo_table f) f 56 0x80000 s =
      (EFI_SUCCESS, 56, s\<lparr>bmem := store (bmem s) 0x80000 demo_file, firmware := 56\<rparr>)"
    using assms by (simp add: demo_machine Let_def)
  then show ?thesis by (subst read_file.simps, simp) (subst read_file.simps, simp)
qed

lemma demo_load:
  "load_kernel demo_table root img s = Some (EFI_SUCCESS, \<lparr>kernel_location = 0x80000, kernel_pages = 1, kernel_file_size = 56\<rparr>,
     s\<lparr>bmem := store (write64 0x200008 56 (bmem s)) 0x80000 demo_file, firmware := 56\<rparr>)"
proof -
  have "Open (file_at demo_table root) root 0 KERNEL_RELATIVE_PATH EFI_FILE_MODE_READ 0 s = (EFI_SUCCESS, 0x600000, s\<lparr>firmware := 0\<rparr>)"
    by (simp add: demo_machine)
  moreover have "AllocatePages (BootServices demo_table) AllocateAddress EfiLoaderData n p t = (EFI_SUCCESS, p, t)" for n p t
    by (simp add: demo_machine)
  moreover have "Close (file_at demo_table f) f t = (EFI_SUCCESS, t)" for f t by (simp add: demo_machine)
  ultimately show ?thesis
    by (simp add: load_kernel_def Let_def demo_file_size demo_read_file KERNEL_LOAD_ADDRESS_def PAGE_SIZE_def)
qed

lemma demo_header:
  "find_kernel_bootinfo (store m 0x80000 demo_file) 0x80000 56 = 0x80000"
  "read64 (store m 0x80000 demo_file) 0x80000 = KERNEL_BOOTINFO_MAGIC"
proof -
  have "fetch (store m 0x80000 demo_file) 0x80000 (8 + 48) = demo_file"
    using fetch_store_same [of m "0x80000" demo_file] by (simp add: demo_file_def)
  then have "fetch (store m 0x80000 demo_file) 0x80000 8 = take 8 demo_file"
    unfolding fetch_append by (metis append_eq_conv_conj length_fetch)
  then show r: "read64 (store m 0x80000 demo_file) 0x80000 = KERNEL_BOOTINFO_MAGIC"
    by (simp add: read64_def demo_file_def of_le_bytes take_bit_word_eq_self)
  show "find_kernel_bootinfo (store m 0x80000 demo_file) 0x80000 56 = 0x80000"
    by (simp add: find_kernel_bootinfo_def sizeof_bootinfo_def Let_def) (subst search_bootinfo.simps, simp add: r)
qed

lemma demo_gop:
  "\<exists>g s. locate_gop demo_table (Some no_gop) demo_boot = (EFI_SUCCESS, Some g, s) \<and> framebuffer_base g = 0xC0000000 \<and>
     framebuffer_size g = 0x300000 \<and> width g = 1024 \<and> height g = 768 \<and> pixels_per_scanline g = 1024"
  by (simp add: locate_gop_def query_gop_def Let_def demo_machine demo_boot_def read_write_other)

lemma demo_enters: "\<exists>entry s'. efi_main demo_table 1 demo_boot = Some (Enter_kernel entry 0x110000 0x80000, s')"
proof -
  obtain g s where g: "locate_gop demo_table (Some no_gop) demo_boot = (EFI_SUCCESS, Some g, s)" using demo_gop by blast
  have pr: "print demo_table t s = s" for t s by (simp add: print_def demo_table_def)
  have sv: "HandleProtocol (BootServices demo_table) h gu p t = (EFI_SUCCESS, 0x300000, t)"
    "OpenVolume (fs_at demo_table f) f p t = (EFI_SUCCESS, 0x700000, t)"
    "FreePool (BootServices demo_table) p t = (EFI_SUCCESS, t)"
    "LocateHandleBuffer (BootServices demo_table) ty gu n p t = (EFI_SUCCESS, 1, 0x400000, t)"
    "AllocatePages (BootServices demo_table) AllocateAnyPages mt 16 p t = (EFI_SUCCESS, 0x100000, t)" for h gu p t f ty n mt
    by (simp_all add: demo_machine)
  have "\<exists>s'. exit_loop (BootServices demo_table) 1 0 0 0 0 0 t = Some (EFI_SUCCESS, s')" for t
    using exit_loop_leaves [OF demo_leave] by (fastforce simp: demo_table_def)
  then obtain after where ex: "\<And>t. exit_loop (BootServices demo_table) 1 0 0 0 0 0 t = Some (EFI_SUCCESS, after t)" by metis
  let ?s = "s\<lparr>bmem := store (write64 0x200008 56 (bmem s)) 0x80000 demo_file, firmware := 56\<rparr>"
  have "efi_main demo_table 1 demo_boot = enter_loaded_kernel demo_table 1 EFI_SUCCESS g
      \<lparr>kernel_location = 0x80000, kernel_pages = 1, kernel_file_size = 56\<rparr> ?s"
    by (simp add: efi_main_def Let_def pr g sv demo_load)
  moreover have "\<exists>entry s'. enter_loaded_kernel demo_table 1 EFI_SUCCESS g
      \<lparr>kernel_location = 0x80000, kernel_pages = 1, kernel_file_size = 56\<rparr> ?s = Some (Enter_kernel entry 0x110000 0x80000, s')"
    by (simp add: enter_loaded_kernel_def Let_def demo_header sv pr ex KERNEL_STACK_PAGES_def PAGE_SIZE_def exit_boot_services_def)
  ultimately show ?thesis by simp
qed

section \<open>Properties\<close>

text \<open>
  C40. The search for the header of the kernel image, which walks backwards from the end of the image
  and gives up after 32 KiB, returns the address of the last offset in that window at which the magic
  number stands and a whole header fits, and the null pointer when there is none, for every image.
\<close>

theorem find_kernel_bootinfo_last:
  "find_kernel_bootinfo m base n =
     (if headers m base n = {} then 0 else base + of_nat (Max (headers m base n)))"
  by (rule find_bootinfo_eq)

text \<open>
  C17. Loading the kernel returns, however the firmware divides the file into reads, provided it keeps
  to the description of \<open>Read\<close>: either with an error and the caller's image unchanged, or with success
  and exactly the bytes of the file at the load address.  A file shorter than the size it reported
  never counts as loaded.
\<close>

theorem kernel_file_loaded:
  assumes "Open (file_at st root) root 0 KERNEL_RELATIVE_PATH EFI_FILE_MODE_READ 0 s = (EFI_SUCCESS, f, s1)"
    and "get_file_size st f 0 s1 = (EFI_SUCCESS, n, s2)"
    and "AllocatePages (BootServices st) AllocateAddress EfiLoaderData ((n + 4095) div 4096) 0x80000 s2 = (EFI_SUCCESS, 0x80000, s3)"
    and "unat n < 2 ^ 64 - 0x80000" and "reads_file st f xs pos {0x80000..<0x80000 + unat n}" and "pos s3 = 0"
    and "\<And>t a. 0x80000 \<le> a \<Longrightarrow> a < 0x80000 + unat n \<Longrightarrow> bmem (snd (Close (file_at st f) f t)) a = bmem t a"
  shows "\<exists>status img' s'. load_kernel st root img s = Some (status, img', s') \<and>
    (EFI_ERROR status \<and> img' = img \<or>
     status = EFI_SUCCESS \<and> img' = \<lparr>kernel_location = 0x80000, kernel_pages = (n + 4095) div 4096, kernel_file_size = n\<rparr> \<and>
     unat n \<le> length xs \<and> fetch (bmem s') 0x80000 (unat n) = take (unat n) xs)"
  using assms by (rule load_kernel_reads)

theorem kernel_file_loaded_witness:
  "\<exists>s'. load_kernel demo_table 1 no_image demo_boot =
      Some (EFI_SUCCESS, \<lparr>kernel_location = 0x80000, kernel_pages = 1, kernel_file_size = 56\<rparr>, s') \<and>
    fetch (bmem s') 0x80000 56 = demo_file"
proof -
  have o: "Open (file_at demo_table 1) 1 0 KERNEL_RELATIVE_PATH EFI_FILE_MODE_READ 0 demo_boot = (EFI_SUCCESS, 0x600000, demo_boot\<lparr>firmware := 0\<rparr>)"
    and a: "AllocatePages (BootServices demo_table) AllocateAddress EfiLoaderData ((56 + 4095) div 4096) 0x80000 t = (EFI_SUCCESS, 0x80000, t)"
    and c: "bmem (snd (Close (file_at demo_table 0x600000) 0x600000 t)) = bmem t" for t
    by (simp_all add: demo_machine)
  have "length demo_file = 56" by (simp add: demo_file_def)
  then show ?thesis
    using kernel_file_loaded [OF o demo_file_size a _ demo_reads, of no_image] c demo_load [of 1 no_image demo_boot] by auto
qed





end
