(* ===== verification/Spec2Isabelle.thy ===== *)
theory Spec2Isabelle
  imports Keyboard_Mappers Kernel Boot
begin

text \<open>
  CasseOS: a verification library for the C code of the operating system.

  \<^bold>\<open>The program.\<close>  CasseOS is a small x86-64 kernel.  The UEFI loader (\<^verbatim>\<open>src/bootloader/uefi\<close>) finds the display,
  reads the kernel file to 0x80000, completes the header in the image and jumps into it.  \<open>kernel_main\<close>
  (\<^verbatim>\<open>src/kernel/kernel.c\<close>) enables the FPU, installs the interrupt table, chooses a console, starts the timer,
  scans the PCI bus, enumerates the USB devices behind UHCI controllers, initialises the keyboards and
  calls the shell for ever.  Keys arrive by interrupt, from a PS/2 keyboard or as boot reports of USB
  keyboards, go through a ring buffer, and are edited into a command line that is shown on the screen.

  \<^bold>\<open>The theories\<close>, in the order of their imports, with the files under \<^verbatim>\<open>src\<close> they translate:

  \<^item> \<open>Prelude\<close>: machine words, byte memory, C division, strings; no code.
  \<^item> \<open>Cstring\<close> (\<^verbatim>\<open>libc/string.c\<close>): number printers, \<open>strlen\<close>, \<open>reverse\<close>, \<open>append\<close>, \<open>backspace\<close>, \<open>strcmp\<close>.
  \<^item> \<open>Machine\<close> (\<^verbatim>\<open>cpu/ports.h\<close>, \<^verbatim>\<open>libc/system.c\<close>): port I/O as a trace of accesses whose answers an arbitrary
    environment gives; \<open>shutdown\<close>.
  \<^item> \<open>Mem\<close> (\<^verbatim>\<open>libc/mem.c\<close>): block operations, \<open>kmalloc\<close>, and the allocator with its free list in memory.
  \<^item> \<open>Font8x16\<close>, \<open>Framebuffer\<close>, \<open>Screen\<close>, \<open>Printf\<close> (\<^verbatim>\<open>drivers/screen\<close>): the font, the pixel console, the console with
    its VGA text mode and framebuffer halves, and \<open>printf\<close>.
  \<^item> \<open>Cpu\<close> (\<^verbatim>\<open>cpu/idt.c\<close>, \<^verbatim>\<open>cpu/isr.c\<close>, \<^verbatim>\<open>cpu/timer.c\<close>, \<^verbatim>\<open>cpu/fpu.c\<close>): descriptor table, dispatch, timer, FPU bits.
  \<^item> \<open>Keyboard\<close>, \<open>Keyboard_USB\<close>, \<open>Keyboard_Mappers\<close> (\<^verbatim>\<open>drivers/keyboard\<close>): rings, modifiers, layouts, PS/2 scan codes,
    USB boot reports, and the two stand-alone mappers.
  \<^item> \<open>Command_Line\<close> (\<^verbatim>\<open>kernel/shell/command_line.c\<close>): the line editor and its picture on the screen.
  \<^item> \<open>Pci\<close> (\<^verbatim>\<open>drivers/pci.c\<close>): configuration space and bus scan.
  \<^item> \<open>Usb_Desc\<close>, \<open>Uhci\<close>, \<open>Uhci_Transfer\<close>, \<open>Usb\<close> (\<^verbatim>\<open>drivers/usb\<close>): the descriptor parser, controllers and keyboard
    pipes, the five control transfers, and enumeration.
  \<^item> \<open>Shell\<close> (\<^verbatim>\<open>kernel/shell/shell.c\<close>) and \<open>Kernel\<close> (\<^verbatim>\<open>kernel/kernel.c\<close>, \<^verbatim>\<open>kernel/bootinfo.c\<close>): commands, and everything
    from reset into the endless loop.
  \<^item> \<open>Boot\<close> (\<^verbatim>\<open>bootloader/uefi\<close>): the loader over firmware services that are parameters.

  \<^bold>\<open>State.\<close>  Every C structure is a record with the fields of the source; the globals of a file are the
  fields its record adds to the record of the files it calls (\<open>console\<close>, \<open>cpu\<close>, \<open>kbd\<close>, \<open>usb_kbd\<close>, \<open>cmdline\<close>, \<open>pci\<close>,
  \<open>uhci\<close>, \<open>shell\<close>), and the operations are polymorphic in what is added later.  So one state, of type
  \<open>shell\<close>, is all of the kernel.  C functions are HOL functions on it; a pointer result with NULL, or a
  call that may not return, is an \<open>option\<close>.

  \<^bold>\<open>What is shown.\<close>
  \<^item> Allocator (the locale \<open>block_allocator\<close>): in every reachable state the live blocks are inside the buffer, aligned and disjoint; a
    freed block is found again; a double free makes a later call loop.
  \<^item> Console: the code in VGA text mode, and the code on the framebuffer, refine one abstract terminal
    of cells and a cursor.  The locale \<open>text_mode\<close> states what a client of the console relies on; both
    halves are interpretations of it, and the lemmas on \<open>printf\<close>, the line editor and the shell are
    proved once in it, so they hold on both displays.
  \<^item> Interrupts and keys: the rings are bounded queues (the locale \<open>bounded_fifo\<close>); pushes by
    interrupts may fall between any two accesses of the reader; scan codes and USB reports become
    exactly the events that were typed.
  \<^item> Line editor: the buffer is the text of a specification on lists, within its 2000 bytes, and the
    screen shows that text.
  \<^item> PCI and USB: the scan finds exactly what answers; the parser picks what a declarative reading picks;
    pipes stay armed and deliver each report once; transfers end within their time-out, keep the
    allocator consistent and leak what is listed; enumeration returns whatever the hardware answers.
  \<^item> Kernel: from reset, under arbitrary keyboard interrupts, every call of the shell returns and the
    state follows the specification \<open>turn\<close>; scan codes reach the shell as the typed command.
  \<^item> Loader: the header search, loading, leaving the boot services, and what the kernel is handed.
  \<^item> This theory: the display found by the loader is the console the kernel starts with.

  \<^bold>\<open>Loops and bounds.\<close>  A loop with a visible bound is a fold or a recursion with a termination proof.
  Loops that the hardware, the firmware or a damaged free list can prolong (\<open>strlen_from\<close>, \<open>strcmp_from\<close>,
  \<open>find_fit\<close>, \<open>slot_loop\<close>, \<open>drain_events\<close>, \<open>read_file\<close>, \<open>exit_loop\<close>) are \<open>partial_function\<close>s into \<open>option\<close>; that they return
  is part of the theorems about them.  A loop that waits for interrupts consumes the list of interrupts
  that arrive, and \<open>None\<close> means that it still waits when the list ends.  Nothing uses fuel.  The endless loop of \<open>kernel_main\<close> is given a number of
  calls, and the theorem holds for every number.

  \<^bold>\<open>Parameters.\<close>  Answers of ports and of the PCI configuration space come from an arbitrary function of
  the trace; what a USB controller does to memory while the driver sleeps (\<open>pause\<close>), the addresses the linker
  chooses (\<open>layout\<close>), the interrupt stubs and the firmware are arguments.  Assumptions about them are
  hypotheses of the theorems that need them, each with a concrete instance.

  \<^bold>\<open>Not modelled.\<close>  The assembly files (BIOS loader, mode switch, interrupt stubs, \<open>uefi_enter_kernel\<close>); the copy
  of the boot information that \<^verbatim>\<open>kernel_entry.asm\<close> makes is the argument \<open>info\<close> of \<open>kernel_main\<close>.  The descriptor dump
  of \<^verbatim>\<open>uhci/enumerate.c\<close>, compiled only with \<^verbatim>\<open>UHCI_ENABLE_DUMP\<close>, and log macros below the default level, which
  expand to nothing.  Members of the UEFI tables that the loader never uses.  Prototypes, include guards
  and unused constants of the headers.  Build files, scripts and documents.  Undefined behaviour beyond
  what the definitions write out (an access outside a C array is an access to the memory beside it, or
  sets a flag of the console).
\<close>

section \<open>From the loader to the console of the kernel\<close>

lemma display_started:
  "fb_console_ready (disp (con (start_display b k))) = fst (framebuffer_console_init (Some b) (disp (con k)))"
  "\<not> fst (framebuffer_console_init (Some b) (disp (con k))) \<Longrightarrow> screen_is_available (con (start_display b k))"
  "fst (framebuffer_console_init (Some b) (disp (con k))) \<Longrightarrow>
     framebuffer_console_info (disp (con (start_display b k))) =
       Some \<lparr>fbc_base = fb_base b, fbc_size = fb_size b, fbc_width = fb_width b, fbc_height = fb_height b,
             fbc_stride = fb_stride b, fbc_bpp = fb_bpp b, glyph_width = FRAMEBUFFER_FONT_WIDTH, glyph_height = FRAMEBUFFER_FONT_HEIGHT\<rparr>"
  by (auto simp: start_display_def framebuffer_console_init_def Let_def screen_set_available_def con_set_available_def
      screen_is_available_def framebuffer_console_info_def split: if_splits)



end
